(* ===== verification/Prelude.thy ===== *)
theory Prelude
  imports "HOL-Library.Word" "HOL-Library.Monad_Syntax"
begin

text \<open>
  Shared ground of the development: the machine integer types of the C sources, the
  collections of rewrite rules the component proofs use, and the facts on words, lists and
  dyadic block numbers that more than one component needs.

  The C functions are modelled in the option monad.  \<^term>\<open>None\<close> stands for every
  abnormal end of the C program: a load or store through an unmapped address, an index outside
  an array, a shift by more than the width, a failed \<open>assert\<close> and a loop that does not end.
  A theorem that an operation yields \<^term>\<open>Some\<close> therefore says that it is memory
  safe and that it returns.
\<close>

unbundle bit_operations_syntax

type_synonym u8 = "8 word"
type_synonym u16 = "16 word"
type_synonym u32 = "32 word"
type_synonym u64 = "64 word"

named_theorems mem_simps \<open>loads and stores of the byte memory\<close>
named_theorems block_simps \<open>facts on dyadic blocks of pages\<close>

abbreviation ofs :: "u64 \<Rightarrow> nat \<Rightarrow> u64" where
  "ofs B o' \<equiv> B + word_of_nat o'"

text \<open>\<open>loc B x\<close> is the distance of the address \<open>x\<close> above the base \<open>B\<close>.\<close>

definition loc :: "u64 \<Rightarrow> u64 \<Rightarrow> nat" where
  "loc B x = unat (x - B)"

text \<open>A guard of the C code: an assertion, an index check, a mapped address.\<close>

definition guard :: "bool \<Rightarrow> unit option" where
  "guard b = (if b then Some () else None)"

lemma guard_simps [simp]: "guard True = Some ()" "guard False = None"
  by (simp_all add: guard_def)

lemma guard_eq_Some [simp]: "guard b = Some u \<longleftrightarrow> b"
  by (simp add: guard_def)

text \<open>A congruence that rewrites both branches and does not use the condition in them.\<close>

lemma if_plain_cong:
  "b = b' \<Longrightarrow> x = x' \<Longrightarrow> y = y' \<Longrightarrow> (if b then x else y) = (if b' then x' else y')"
  by simp

subsection \<open>Words as offsets from a base\<close>

lemma unat_of_nat64: "n < 2 ^ 64 \<Longrightarrow> unat (word_of_nat n :: u64) = n"
  by (simp add: unat_of_nat)

lemma unat_lt64: "unat (x :: u64) < 2 ^ 64"
  using unsigned_less [of x, where 'a = nat] by simp

lemma loc_ofs [simp]: "n < 2 ^ 64 \<Longrightarrow> loc B (ofs B n) = n"
  by (simp add: loc_def unat_of_nat)

lemma ofs_loc [simp]: "ofs B (loc B x) = x"
  by (simp add: loc_def)

lemma loc_lt: "loc B x < 2 ^ 64"
  unfolding loc_def by (rule unat_lt64)

lemma ofs_inj: "a < 2 ^ 64 \<Longrightarrow> b < 2 ^ 64 \<Longrightarrow> ofs B a = ofs B b \<longleftrightarrow> a = b"
  by (metis loc_ofs)

lemma loc_inj: "loc B x = loc B y \<longleftrightarrow> x = y"
  by (metis ofs_loc)

lemma ofs_add: "ofs B (a + b) = ofs (ofs B a) b"
  by simp

lemma unat_ofs: "unat B + n < 2 ^ 64 \<Longrightarrow> unat (ofs B n) = unat B + n"
  by (simp add: unat_word_ariths unat_of_nat)

lemma ofs_nonzero: "unat B + n < 2 ^ 64 \<Longrightarrow> B \<noteq> 0 \<Longrightarrow> ofs B n \<noteq> 0"
  by (metis add_is_0 unat_eq_zero unat_ofs)

lemma loc_shift:
  assumes "o' + n \<le> 2 ^ 64"
  shows "loc (ofs B o') x < n \<longleftrightarrow> o' \<le> loc B x \<and> loc B x < o' + n"
proof (cases "n = 0")
  case True
  then show ?thesis by simp
next
  case False
  with assms have o: "o' < 2 ^ 64" by linarith
  have lb: "loc B x < 2 ^ 64" by (rule loc_lt)
  have eq: "loc (ofs B o') x = unat ((x - B) - word_of_nat o')"
    by (simp add: loc_def algebra_simps)
  have uo: "unat (word_of_nat o' :: u64) = o'"
    using o by (rule unat_of_nat64)
  show ?thesis
  proof (cases "o' \<le> loc B x")
    case True
    then have "(word_of_nat o' :: u64) \<le> x - B"
      by (simp add: word_le_nat_alt uo loc_def)
    then have "loc (ofs B o') x = loc B x - o'"
      unfolding eq by (simp add: unat_sub uo loc_def)
    with True show ?thesis by auto
  next
    case False
    then have lt: "x - B < (word_of_nat o' :: u64)"
      by (simp add: word_less_nat_alt uo loc_def)
    define y where "y = x - B"
    have "unat (y - word_of_nat o') = 2 ^ 64 + unat y - o'"
      using lt [folded y_def] uo
      by (simp add: unat_sub_if_size word_size word_less_nat_alt)
    then have "loc (ofs B o') x = 2 ^ 64 + loc B x - o'"
      unfolding eq y_def by (simp add: loc_def)
    with False assms show ?thesis by auto
  qed
qed

subsection \<open>Dyadic blocks\<close>

lemma pow2_dvd_lt_le:
  fixes p :: nat
  assumes "2 ^ k dvd p" "2 ^ j dvd q" "k \<le> j" "q \<le> p" "p < q + 2 ^ j"
  shows "p + 2 ^ k \<le> q + 2 ^ j"
proof -
  have "2 ^ k dvd q + 2 ^ j"
    using assms(2,3) by (meson dvd_add dvd_trans le_imp_power_dvd dvd_refl)
  then obtain c where c: "q + 2 ^ j = 2 ^ k * c" by (elim dvdE)
  obtain d where d: "p = 2 ^ k * d" using assms(1) by (elim dvdE)
  from assms(5) have "d < c" unfolding c d by simp
  then have "2 ^ k * (d + 1) \<le> 2 ^ k * c" by (intro mult_le_mono2) simp
  then show ?thesis unfolding c d by simp
qed

lemma dvd_less_add_le:
  assumes "(M :: nat) dvd q" "M dvd p" "q < p"
  shows "q + M \<le> p"
proof -
  obtain a b where ab: "q = M * a" "p = M * b" using assms by (elim dvdE)
  with assms(3) have "M * (a + 1) \<le> M * b" by (intro mult_le_mono2) simp
  with ab show ?thesis by simp
qed

lemma dvd_add_pow2 [block_simps]:
  "2 ^ k dvd (p :: nat) \<Longrightarrow> k \<le> j \<Longrightarrow> 2 ^ k dvd p + 2 ^ j"
  by (meson dvd_add le_imp_power_dvd)

lemma dvd_pow2_mono: "2 ^ j dvd (p :: nat) \<Longrightarrow> k \<le> j \<Longrightarrow> 2 ^ k dvd p"
  by (meson dvd_trans le_imp_power_dvd)

lemma xor_pow2_aligned:
  assumes "2 ^ k dvd (p :: nat)"
  shows "p XOR 2 ^ k = (if even (p div 2 ^ k) then p + 2 ^ k else p - 2 ^ k)"
proof -
  obtain q where q: "p = 2 ^ k * q" using assms by (elim dvdE)
  have one: "q XOR 1 = (if even q then q + 1 else q - 1)"
    using xor_one_eq [of q] by auto
  have "p XOR 2 ^ k = push_bit k q XOR push_bit k 1"
    by (simp add: q push_bit_eq_mult mult.commute)
  also have "\<dots> = push_bit k (q XOR 1)"
    by (simp only: push_bit_xor)
  also have "\<dots> = 2 ^ k * (q XOR 1)"
    by (simp only: push_bit_eq_mult mult.commute)
  finally have eq: "p XOR 2 ^ k = 2 ^ k * (q XOR 1)" .
  show ?thesis
    unfolding eq one by (simp add: q algebra_simps diff_mult_distrib2)
qed

lemma unat_xor64: "unat ((a :: u64) XOR b) = unat a XOR unat b"
  by (simp add: unsigned_xor_eq)

lemma xor_scale_nat: "(a * 2 ^ n) XOR (b * 2 ^ n) = ((a XOR b) * 2 ^ n :: nat)"
proof -
  have "push_bit n a XOR push_bit n b = push_bit n (a XOR b)"
    by (simp only: push_bit_xor)
  then show ?thesis by (simp add: push_bit_eq_mult)
qed

lemma remove1_set: "distinct xs \<Longrightarrow> set (remove1 x xs) = set xs - {x}"
  by (simp add: set_remove1_eq)

end
