(* ===== verification/Vram.thy ===== *)
theory Vram
  imports Prelude
begin

text \<open>
  The memory that \<open>mmap\<close> of BAR 2 gives the process.  An address that is not mapped is
  not in the domain of the memory, so a load or a store through it has no result.  The
  allocators of \<open>lib/src\<close> keep their link fields inside this memory, next to the data of
  the user, which is why it is modelled byte by byte: a 64-bit field is the little-endian value
  of eight bytes.
\<close>

type_synonym mem = "u64 \<rightharpoonup> u8"

definition bytes_of :: "nat \<Rightarrow> 'a::len word \<Rightarrow> u8 list" where
  "bytes_of n v = map (\<lambda>i. ucast (drop_bit (8 * i) v)) [0..<n]"

definition of_bytes :: "u8 list \<Rightarrow> 'a::len word" where
  "of_bytes bs = horner_sum ucast (2 ^ 8) bs"

definition mapped :: "mem \<Rightarrow> u64 \<Rightarrow> nat \<Rightarrow> bool" where
  "mapped m a n \<longleftrightarrow> list_all (\<lambda>i. m (ofs a i) \<noteq> None) [0..<n]"

definition get_bytes :: "mem \<Rightarrow> u64 \<Rightarrow> nat \<Rightarrow> u8 list" where
  "get_bytes m a n = map (\<lambda>i. the (m (ofs a i))) [0..<n]"

definition put_bytes :: "mem \<Rightarrow> u64 \<Rightarrow> u8 list \<Rightarrow> mem" where
  "put_bytes m a bs = (\<lambda>x. if loc a x < length bs then Some (bs ! loc a x) else m x)"

definition load_bytes :: "mem \<Rightarrow> u64 \<Rightarrow> nat \<Rightarrow> u8 list option" where
  "load_bytes m a n = (if mapped m a n then Some (get_bytes m a n) else None)"

definition store_bytes :: "mem \<Rightarrow> u64 \<Rightarrow> u8 list \<Rightarrow> mem option" where
  "store_bytes m a bs = (if mapped m a (length bs) then Some (put_bytes m a bs) else None)"

definition get64 :: "mem \<Rightarrow> u64 \<Rightarrow> u64" where
  "get64 m a = of_bytes (get_bytes m a 8)"

definition put64 :: "mem \<Rightarrow> u64 \<Rightarrow> u64 \<Rightarrow> mem" where
  "put64 m a v = put_bytes m a (bytes_of 8 v)"

definition load64 :: "mem \<Rightarrow> u64 \<Rightarrow> u64 option" where
  "load64 m a = (if mapped m a 8 then Some (get64 m a) else None)"

definition store64 :: "mem \<Rightarrow> u64 \<Rightarrow> u64 \<Rightarrow> mem option" where
  "store64 m a v = (if mapped m a 8 then Some (put64 m a v) else None)"

text \<open>The memory holds exactly \<open>S\<close> bytes from \<open>B\<close> on.\<close>

definition vram_at :: "mem \<Rightarrow> u64 \<Rightarrow> nat \<Rightarrow> bool" where
  "vram_at m B S \<longleftrightarrow> dom m = {x. loc B x < S}"

text \<open>Two memories agree on the offsets of a set.\<close>

definition agree :: "u64 \<Rightarrow> nat set \<Rightarrow> mem \<Rightarrow> mem \<Rightarrow> bool" where
  "agree B X m m' \<longleftrightarrow> (\<forall>x. loc B x \<in> X \<longrightarrow> m' x = m x)"

subsection \<open>Bytes and words\<close>

lemma length_bytes_of [simp]: "length (bytes_of n v) = n"
  by (simp add: bytes_of_def)

lemma length_get_bytes [simp]: "length (get_bytes m a n) = n"
  by (simp add: get_bytes_def)

lemma bytes_of_Suc: "bytes_of (Suc n) v = bytes_of n v @ [ucast (drop_bit (8 * n) v)]"
  by (simp add: bytes_of_def)

lemma take_bit_ucast_byte:
  "ucast (ucast (v :: 'a::len word) :: u8) = (take_bit 8 v :: 'a word)" if "8 \<le> LENGTH('a)"
  using that by (simp add: bit_eq_iff bit_simps)

lemma of_bytes_bytes_of_take:
  "8 \<le> LENGTH('a) \<Longrightarrow> of_bytes (bytes_of n v) = (take_bit (8 * n) v :: 'a::len word)"
proof (induction n)
  case 0
  then show ?case by (simp add: of_bytes_def bytes_of_def)
next
  case (Suc n)
  have p: "(256 :: 'a word) ^ n = 2 ^ (8 * n)"
    by (simp add: power_mult)
  have "of_bytes (bytes_of (Suc n) v) =
      (take_bit (8 * n) v + push_bit (8 * n) (take_bit 8 (drop_bit (8 * n) v)) :: 'a word)"
    using Suc
    by (simp add: bytes_of_Suc of_bytes_def horner_sum_append take_bit_ucast_byte
        push_bit_eq_mult p mult.commute)
  also have "\<dots> = take_bit (8 * n + 8) v"
    using bits_ident [of "8 * n" "take_bit (8 * n + 8) v"]
    by (simp add: take_bit_drop_bit add.commute)
  finally show ?case by (simp add: add.commute)
qed

lemma of_bytes_bytes_of64 [simp]: "of_bytes (bytes_of 8 v) = (v :: u64)"
  by (simp add: of_bytes_bytes_of_take take_bit_word_eq_self)

lemma of_bytes_bytes_of32 [simp]: "of_bytes (bytes_of 4 v) = (v :: u32)"
  by (simp add: of_bytes_bytes_of_take take_bit_word_eq_self)

subsection \<open>Loads and stores\<close>

lemma mapped_iff: "mapped m a n \<longleftrightarrow> (\<forall>i<n. ofs a i \<in> dom m)"
  by (auto simp: mapped_def list_all_iff)

lemma dom_put_bytes: "mapped m a (length bs) \<Longrightarrow> dom (put_bytes m a bs) = dom m"
proof -
  assume mp: "mapped m a (length bs)"
  have "x \<in> dom m" if "loc a x < length bs" for x
  proof -
    have "ofs a (loc a x) \<in> dom m" using mp that unfolding mapped_iff by blast
    then show ?thesis by simp
  qed
  then show ?thesis by (auto simp: put_bytes_def dom_def)
qed

lemma mapped_put_bytes:
  "mapped m a (length bs) \<Longrightarrow> mapped (put_bytes m a bs) b n = mapped m b n"
  by (simp add: mapped_iff dom_put_bytes)

lemma mapped_put64 [mem_simps]: "mapped m a 8 \<Longrightarrow> mapped (put64 m a v) b n = mapped m b n"
  by (simp add: put64_def mapped_put_bytes)

lemma get_put_bytes_same:
  "length bs \<le> 2 ^ 64 \<Longrightarrow> get_bytes (put_bytes m a bs) a (length bs) = bs"
  by (rule nth_equalityI) (simp_all add: get_bytes_def put_bytes_def)

lemma get64_put64_same [mem_simps]: "get64 (put64 m a v) a = v"
  using get_put_bytes_same [of "bytes_of 8 v" m a] by (simp add: get64_def put64_def)

lemma get_bytes_cong:
  "(\<And>i. i < n \<Longrightarrow> m' (ofs a i) = m (ofs a i)) \<Longrightarrow> get_bytes m' a n = get_bytes m a n"
  by (simp add: get_bytes_def)

lemma put_bytes_outside: "length bs \<le> loc a x \<Longrightarrow> put_bytes m a bs x = m x"
  by (simp add: put_bytes_def)

lemma put_bytes_outside_ofs:
  assumes "o' + length bs \<le> 2 ^ 64" "loc B x < o' \<or> o' + length bs \<le> loc B x"
  shows "put_bytes m (ofs B o') bs x = m x"
  using assms loc_shift [of o' "length bs" B x] by (auto simp: put_bytes_def)

lemma get_bytes_put_bytes_other:
  assumes "o' + length bs \<le> 2 ^ 64" "p + n \<le> 2 ^ 64" "o' + length bs \<le> p \<or> p + n \<le> o'"
  shows "get_bytes (put_bytes m (ofs B o') bs) (ofs B p) n = get_bytes m (ofs B p) n"
proof (rule get_bytes_cong)
  fix i assume i: "i < n"
  have eq: "ofs (ofs B p) i = ofs B (p + i)" by (simp add: ofs_add)
  have "loc B (ofs B (p + i)) = p + i"
    using i assms(2) by (intro loc_ofs) linarith
  then show "put_bytes m (ofs B o') bs (ofs (ofs B p) i) = m (ofs (ofs B p) i)"
    unfolding eq using i assms by (intro put_bytes_outside_ofs) auto
qed

lemma get64_put64_other:
  assumes "o' + 8 \<le> 2 ^ 64" "p + 8 \<le> 2 ^ 64" "o' + 8 \<le> p \<or> p + 8 \<le> o'"
  shows "get64 (put64 m (ofs B o') v) (ofs B p) = get64 m (ofs B p)"
  using assms by (simp add: get64_def put64_def get_bytes_put_bytes_other)

subsection \<open>The mapped region\<close>

lemma vram_mapped:
  assumes "vram_at m B S" "o' + n \<le> S" "S \<le> 2 ^ 64"
  shows "mapped m (ofs B o') n"
  unfolding mapped_iff
proof (intro allI impI)
  fix i assume i: "i < n"
  have "loc B (ofs B (o' + i)) = o' + i" using i assms by (intro loc_ofs) linarith
  then show "ofs (ofs B o') i \<in> dom m"
    using i assms by (simp add: vram_at_def ofs_add [symmetric] del: of_nat_add)
qed

lemma vram_at_put64 [mem_simps]:
  "mapped m a 8 \<Longrightarrow> vram_at (put64 m a v) B S = vram_at m B S"
  by (simp add: vram_at_def put64_def dom_put_bytes)

lemma vram_at_put_bytes [mem_simps]:
  "mapped m a (length bs) \<Longrightarrow> vram_at (put_bytes m a bs) B S = vram_at m B S"
  by (simp add: vram_at_def dom_put_bytes)

lemma agree_refl [simp]: "agree B X m m"
  by (simp add: agree_def)

lemma agree_trans: "agree B X m m' \<Longrightarrow> agree B X m' m'' \<Longrightarrow> agree B X m m''"
  by (simp add: agree_def)

lemma agree_mono: "agree B X m m' \<Longrightarrow> Y \<subseteq> X \<Longrightarrow> agree B Y m m'"
  by (auto simp: agree_def)

lemma agree_put_bytes:
  assumes "o' + length bs \<le> 2 ^ 64" "X \<inter> {o' ..< o' + length bs} = {}"
  shows "agree B X m (put_bytes m (ofs B o') bs)"
  unfolding agree_def
proof (intro allI impI put_bytes_outside_ofs assms(1))
  fix x assume "loc B x \<in> X"
  with assms(2) show "loc B x < o' \<or> o' + length bs \<le> loc B x" by force
qed

lemma agree_put64:
  "o' + 8 \<le> 2 ^ 64 \<Longrightarrow> X \<inter> {o' ..< o' + 8} = {} \<Longrightarrow> agree B X m (put64 m (ofs B o') v)"
  unfolding put64_def by (rule agree_put_bytes) simp_all

lemma agree_get_bytes:
  assumes "agree B X m m'" "{o' ..< o' + n} \<subseteq> X" "o' + n \<le> 2 ^ 64"
  shows "get_bytes m' (ofs B o') n = get_bytes m (ofs B o') n"
proof (rule get_bytes_cong)
  fix i assume i: "i < n"
  have "loc B (ofs B (o' + i)) = o' + i" using i assms(3) by (intro loc_ofs) linarith
  moreover have "o' + i \<in> X" using i assms(2) by auto
  ultimately show "m' (ofs (ofs B o') i) = m (ofs (ofs B o') i)"
    using assms(1) unfolding agree_def ofs_add [symmetric] by metis
qed

lemma agree_get64:
  "agree B X m m' \<Longrightarrow> {o' ..< o' + 8} \<subseteq> X \<Longrightarrow> o' + 8 \<le> 2 ^ 64 \<Longrightarrow>
   get64 m' (ofs B o') = get64 m (ofs B o')"
  by (simp add: get64_def agree_get_bytes)

end
