(* ===== verification/Buddy.thy ===== *)
theory Buddy
  imports Vram
begin

text \<open>
  The buddy allocator of \<open>lib/src/buddy.c\<close>, statement by statement.  The free lists are
  doubly linked lists whose nodes lie in the first sixteen bytes of the free blocks themselves,
  so every link is a load or a store of the mapped memory.  The two arrays of the C struct are
  functions whose accesses check the bound of the array; a pointer is a 64-bit address and
  \<open>NULL\<close> is 0.  \<open>buddy_alloc\<close> and \<open>buddy_free\<close> return the updated struct and memory
  together with the value the C function returns.
\<close>

definition BUDDY_MAX_ORDER :: nat where
  "BUDDY_MAX_ORDER = 21"

definition BUDDY_TOTAL_PAGES :: nat where
  "BUDDY_TOTAL_PAGES = 1048576"

definition PAGE_SIZE :: u64 where
  "PAGE_SIZE = 4096"

record buddy_allocator =
  free_list :: "nat \<Rightarrow> u64"
  page_order :: "nat \<Rightarrow> u8"
  vram_base :: u64

definition NULL :: u64 where
  "NULL = 0"

definition node_prev :: "mem \<Rightarrow> u64 \<Rightarrow> u64 option" where
  "node_prev m p = load64 m p"

definition node_next :: "mem \<Rightarrow> u64 \<Rightarrow> u64 option" where
  "node_next m p = load64 m (p + 8)"

definition set_prev :: "mem \<Rightarrow> u64 \<Rightarrow> u64 \<Rightarrow> mem option" where
  "set_prev m p v = store64 m p v"

definition set_next :: "mem \<Rightarrow> u64 \<Rightarrow> u64 \<Rightarrow> mem option" where
  "set_next m p v = store64 m (p + 8) v"

definition fl_get :: "buddy_allocator \<Rightarrow> nat \<Rightarrow> u64 option" where
  "fl_get alloc i = do { guard (i < BUDDY_MAX_ORDER); Some (free_list alloc i) }"

definition fl_set :: "buddy_allocator \<Rightarrow> nat \<Rightarrow> u64 \<Rightarrow> buddy_allocator option" where
  "fl_set alloc i p = do { guard (i < BUDDY_MAX_ORDER);
     Some (alloc\<lparr>free_list := (free_list alloc)(i := p)\<rparr>) }"

definition po_get :: "buddy_allocator \<Rightarrow> u64 \<Rightarrow> u8 option" where
  "po_get alloc i = do { guard (unat i < BUDDY_TOTAL_PAGES); Some (page_order alloc (unat i)) }"

definition po_set :: "buddy_allocator \<Rightarrow> u64 \<Rightarrow> u8 \<Rightarrow> buddy_allocator option" where
  "po_set alloc i v = do { guard (unat i < BUDDY_TOTAL_PAGES);
     Some (alloc\<lparr>page_order := (page_order alloc)(unat i := v)\<rparr>) }"

definition block_bytes :: "nat \<Rightarrow> u64" where
  "block_bytes order = push_bit order 1 * PAGE_SIZE"

text \<open>Hanging a node at the head of a list, as \<open>buddy_init\<close> and \<open>buddy_alloc\<close> write it.\<close>

definition push_node ::
  "buddy_allocator \<Rightarrow> mem \<Rightarrow> nat \<Rightarrow> u64 \<Rightarrow> (buddy_allocator \<times> mem) option" where
  "push_node alloc m order node = do {
     m \<leftarrow> set_prev m node NULL;
     head \<leftarrow> fl_get alloc order;
     m \<leftarrow> set_next m node head;
     m \<leftarrow> (if head \<noteq> NULL then set_prev m head node else Some m);
     alloc \<leftarrow> fl_set alloc order node;
     Some (alloc, m) }"

fun buddy_init_loop ::
  "u64 \<Rightarrow> nat \<Rightarrow> buddy_allocator \<Rightarrow> mem \<Rightarrow> u64 \<Rightarrow> u64 \<Rightarrow> (buddy_allocator \<times> mem) option" where
  "buddy_init_loop base 0 alloc m remaining offset = Some (alloc, m)"
| "buddy_init_loop base (Suc order) alloc m remaining offset =
     (let block_size = block_bytes order in
      if remaining \<ge> block_size then do {
        (alloc, m) \<leftarrow> push_node alloc m order (base + offset);
        buddy_init_loop base order alloc m (remaining - block_size) (offset + block_size) }
      else buddy_init_loop base order alloc m remaining offset)"

definition buddy_init :: "mem \<Rightarrow> u64 \<Rightarrow> u64 \<Rightarrow> (int \<times> buddy_allocator \<times> mem) option" where
  "buddy_init m base vsize = do {
     (alloc, m) \<leftarrow> buddy_init_loop base BUDDY_MAX_ORDER
        \<lparr>free_list = (\<lambda>_. NULL), page_order = (\<lambda>_. 0), vram_base = base\<rparr> m vsize 0;
     Some (0, alloc, m) }"

function find_order :: "u64 \<Rightarrow> nat \<Rightarrow> nat" where
  "find_order alloc_size order =
     (if order < BUDDY_MAX_ORDER \<and> \<not> block_bytes order \<ge> alloc_size
      then find_order alloc_size (order + 1) else order)"
  by pat_completeness auto
termination
  by (relation "measure (\<lambda>(_, order). BUDDY_MAX_ORDER - order)") auto

function find_nonempty :: "buddy_allocator \<Rightarrow> nat \<Rightarrow> nat" where
  "find_nonempty alloc i =
     (if i < BUDDY_MAX_ORDER \<and> free_list alloc i = NULL
      then find_nonempty alloc (i + 1) else i)"
  by pat_completeness auto
termination
  by (relation "measure (\<lambda>(_, i). BUDDY_MAX_ORDER - i)") auto

declare find_order.simps [simp del] find_nonempty.simps [simp del]

fun split_down ::
  "nat \<Rightarrow> nat \<Rightarrow> buddy_allocator \<Rightarrow> mem \<Rightarrow> u64 \<Rightarrow> (buddy_allocator \<times> mem) option" where
  "split_down order 0 alloc m left = Some (alloc, m)"
| "split_down order (Suc i) alloc m left =
     (if Suc i > order then do {
        (alloc, m) \<leftarrow> push_node alloc m i (left + block_bytes i);
        split_down order i alloc m left }
      else Some (alloc, m))"

definition buddy_alloc ::
  "buddy_allocator \<Rightarrow> mem \<Rightarrow> u64 \<Rightarrow> (u64 \<times> buddy_allocator \<times> mem) option" where
  "buddy_alloc alloc m alloc_size =
     (let order = find_order alloc_size 0 in
      if order = BUDDY_MAX_ORDER then Some (-1, alloc, m)
      else let i = find_nonempty alloc order in
      if i = BUDDY_MAX_ORDER then Some (-1, alloc, m)
      else do {
        left \<leftarrow> fl_get alloc i;
        next \<leftarrow> node_next m left;
        alloc \<leftarrow> fl_set alloc i next;
        m \<leftarrow> (if next \<noteq> NULL then set_prev m next NULL else Some m);
        (alloc, m) \<leftarrow> split_down order i alloc m left;
        let offset = left - vram_base alloc;
        let page_index = offset div PAGE_SIZE;
        alloc \<leftarrow> po_set alloc page_index (word_of_nat order);
        Some (offset, alloc, m) })"

partial_function (option) find_temp :: "mem \<Rightarrow> u64 \<Rightarrow> u64 \<Rightarrow> u64 option" where
  "find_temp m buddy_vaddr temp =
     (if temp = NULL then Some temp
      else if temp = buddy_vaddr then Some temp
      else do { next \<leftarrow> node_next m temp; find_temp m buddy_vaddr next })"

text \<open>The two branches of \<open>buddy_free\<close>: hanging the block back, and taking the buddy out.\<close>

definition hang_back ::
  "buddy_allocator \<Rightarrow> mem \<Rightarrow> nat \<Rightarrow> u64 \<Rightarrow> (buddy_allocator \<times> mem) option" where
  "hang_back alloc m order node = do {
     m \<leftarrow> set_prev m node NULL;
     head \<leftarrow> fl_get alloc order;
     m \<leftarrow> set_next m node head;
     alloc \<leftarrow> fl_set alloc order node;
     next \<leftarrow> node_next m node;
     m \<leftarrow> (if next \<noteq> NULL then set_prev m next node else Some m);
     Some (alloc, m) }"

definition unlink ::
  "buddy_allocator \<Rightarrow> mem \<Rightarrow> nat \<Rightarrow> u64 \<Rightarrow> (buddy_allocator \<times> mem) option" where
  "unlink alloc m order temp = do {
     prev \<leftarrow> node_prev m temp;
     next \<leftarrow> node_next m temp;
     (alloc, m) \<leftarrow> (if prev \<noteq> NULL
        then do { m \<leftarrow> set_next m prev next; Some (alloc, m) }
        else do { alloc \<leftarrow> fl_set alloc order next; Some (alloc, m) });
     next \<leftarrow> node_next m temp;
     prev \<leftarrow> node_prev m temp;
     m \<leftarrow> (if next \<noteq> NULL then set_prev m next prev else Some m);
     Some (alloc, m) }"

partial_function (option) buddy_free ::
  "buddy_allocator \<Rightarrow> mem \<Rightarrow> u64 \<Rightarrow> (int \<times> buddy_allocator \<times> mem) option" where
  "buddy_free alloc m offset = do {
     po \<leftarrow> po_get alloc (offset div PAGE_SIZE);
     let order = unat po;
     guard (order < 64);
     let buddy_offset = offset XOR block_bytes order;
     let buddy_vaddr = buddy_offset + vram_base alloc;
     head \<leftarrow> fl_get alloc order;
     temp \<leftarrow> find_temp m buddy_vaddr head;
     if temp = NULL then do {
       (alloc, m) \<leftarrow> hang_back alloc m order (offset + vram_base alloc);
       Some (0, alloc, m) }
     else do {
       (alloc, m) \<leftarrow> unlink alloc m order temp;
       let merged_offset = min offset buddy_offset;
       alloc \<leftarrow> po_set alloc (merged_offset div PAGE_SIZE) (word_of_nat (order + 1));
       (_, alloc, m) \<leftarrow> buddy_free alloc m merged_offset;
       Some (0, alloc, m) } }"

end
