(* ===== verification/Slab.thy ===== *)
theory Slab
  imports Buddy
begin

text \<open>
  The slab caches of \<open>lib/src/slab_cache.c\<close>.  A free slot holds the address of the next free
  slot in its first eight bytes, so the slot list is a list in the mapped memory; the page
  descriptors are host objects that only the cache points to, so the chain of descriptors is a
  list of records, in the order of the chain.  Every cache of a context points to the same buddy
  allocator: the functions take what they reach through that pointer, the buddy allocator, the
  mapped memory and the outcomes of the next calls of \<open>malloc\<close>, as the record \<open>shared\<close>.
\<close>

record slab_page_meta =
  page_offset :: u64
  free_count :: u16
  total_slots :: u16

record slab_cache =
  object_size :: u64
  marker :: u8
  slot_list :: u64
  metas :: "slab_page_meta list"

record shared =
  buddy :: buddy_allocator
  vmem :: mem
  mallocs :: "bool list"

text \<open>
  A call of \<open>malloc\<close> takes the next outcome; where the list is used up it succeeds.
\<close>

definition malloc :: "shared \<Rightarrow> bool \<times> shared" where
  "malloc s = (case mallocs s of [] \<Rightarrow> (True, s) | b # bs \<Rightarrow> (b, s\<lparr>mallocs := bs\<rparr>))"

fun thread_slots :: "u64 \<Rightarrow> u64 \<Rightarrow> nat \<Rightarrow> nat \<Rightarrow> mem \<Rightarrow> u64 \<Rightarrow> (mem \<times> u64) option" where
  "thread_slots page_vaddr osz i 0 m head = Some (m, head)"
| "thread_slots page_vaddr osz i (Suc n) m head = do {
     let node = page_vaddr + word_of_nat i * osz;
     m \<leftarrow> store64 m node head;
     thread_slots page_vaddr osz (Suc i) n m node }"

definition slab_grow :: "slab_cache \<Rightarrow> shared \<Rightarrow> (int \<times> slab_cache \<times> shared) option" where
  "slab_grow cache s = do {
     (offset, b, m) \<leftarrow> buddy_alloc (buddy s) (vmem s) PAGE_SIZE;
     let s = s\<lparr>buddy := b, vmem := m\<rparr>;
     if offset = -1 then Some (-1, cache, s)
     else do {
       let (ok, s) = malloc s;
       if \<not> ok then do {
         (_, b, m) \<leftarrow> buddy_free (buddy s) (vmem s) offset;
         Some (-1, cache, s\<lparr>buddy := b, vmem := m\<rparr>) }
       else do {
         guard (object_size cache \<noteq> 0);
         let total = ucast (PAGE_SIZE div object_size cache);
         let meta = \<lparr>page_offset = offset, free_count = total, total_slots = total\<rparr>;
         let cache = cache\<lparr>metas := meta # metas cache\<rparr>;
         b \<leftarrow> po_set (buddy s) (offset div PAGE_SIZE) (marker cache);
         (m, head) \<leftarrow> thread_slots (offset + vram_base b) (object_size cache) 0 (unat total)
            (vmem s) (slot_list cache);
         Some (0, cache\<lparr>slot_list := head\<rparr>, s\<lparr>buddy := b, vmem := m\<rparr>) } } }"

definition slab_cache_init ::
  "u64 \<Rightarrow> u8 \<Rightarrow> shared \<Rightarrow> (int \<times> slab_cache \<times> shared) option" where
  "slab_cache_init osz mark s = do {
     let cache = \<lparr>object_size = osz, marker = mark, slot_list = NULL, metas = []\<rparr>;
     (rc, cache, s) \<leftarrow> slab_grow cache s;
     if rc < 0 then Some (-1, cache, s) else Some (0, cache, s) }"

text \<open>The search for the descriptor of a page: its position in the chain.\<close>

fun find_meta :: "u64 \<Rightarrow> slab_page_meta list \<Rightarrow> nat option" where
  "find_meta page_off [] = None"
| "find_meta page_off (x # xs) =
     (if page_offset x = page_off then Some 0 else map_option Suc (find_meta page_off xs))"

definition page_of :: "u64 \<Rightarrow> u64" where
  "page_of offset = offset AND NOT (PAGE_SIZE - 1)"

definition slab_alloc :: "slab_cache \<Rightarrow> shared \<Rightarrow> (u64 \<times> slab_cache \<times> shared) option" where
  "slab_alloc cache s = do {
     (rc, cache, s) \<leftarrow> (if slot_list cache = NULL then slab_grow cache s else Some (0, cache, s));
     if rc = -1 then Some (-1, cache, s)
     else do {
       let offset = slot_list cache - vram_base (buddy s);
       next \<leftarrow> load64 (vmem s) (slot_list cache);
       let cache = cache\<lparr>slot_list := next\<rparr>;
       i \<leftarrow> find_meta (page_of offset) (metas cache);
       let meta = metas cache ! i;
       let cache = cache\<lparr>metas := (metas cache)[i := meta\<lparr>free_count := free_count meta - 1\<rparr>]\<rparr>;
       Some (offset, cache, s) } }"

text \<open>Step 3a of \<open>slab_free\<close>: take every slot of the page at \<open>lo\<close> out of the slot list.\<close>

partial_function (option) purge ::
  "u64 \<Rightarrow> u64 \<Rightarrow> u64 \<Rightarrow> u64 \<Rightarrow> u64 \<Rightarrow> mem \<Rightarrow> (u64 \<times> mem) option" where
  "purge lo hi fprev fcurr head m =
     (if fcurr = NULL then Some (head, m)
      else do {
        fnext \<leftarrow> load64 m fcurr;
        if fcurr \<ge> lo \<and> fcurr < hi then
          if fprev \<noteq> NULL then do {
            m \<leftarrow> store64 m fprev fnext;
            purge lo hi fprev fnext head m }
          else purge lo hi fprev fnext fnext m
        else purge lo hi fcurr fnext head m })"

definition slab_shrink :: "slab_cache \<Rightarrow> shared \<Rightarrow> nat \<Rightarrow> (slab_cache \<times> shared) option" where
  "slab_shrink cache s i = do {
     let meta = metas cache ! i;
     let page_lo = page_offset meta + vram_base (buddy s);
     let page_hi = page_lo + PAGE_SIZE;
     (head, m) \<leftarrow> purge page_lo page_hi NULL (slot_list cache) (slot_list cache) (vmem s);
     let cache = cache\<lparr>slot_list := head, metas := take i (metas cache) @ drop (Suc i) (metas cache)\<rparr>;
     b \<leftarrow> po_set (buddy s) (page_offset meta div PAGE_SIZE) 0;
     (_, b, m) \<leftarrow> buddy_free b m (page_offset meta);
     Some (cache, s\<lparr>buddy := b, vmem := m\<rparr>) }"

definition slab_free :: "slab_cache \<Rightarrow> shared \<Rightarrow> u64 \<Rightarrow> (int \<times> slab_cache \<times> shared) option" where
  "slab_free cache s offset = do {
     let node = offset + vram_base (buddy s);
     m \<leftarrow> store64 (vmem s) node (slot_list cache);
     let s = s\<lparr>vmem := m\<rparr>;
     let cache = cache\<lparr>slot_list := node\<rparr>;
     i \<leftarrow> find_meta (page_of offset) (metas cache);
     let meta = metas cache ! i;
     let meta = meta\<lparr>free_count := free_count meta + 1\<rparr>;
     let cache = cache\<lparr>metas := (metas cache)[i := meta]\<rparr>;
     let has_other = list_ex (\<lambda>j. j \<noteq> i) [0..<length (metas cache)];
     if free_count meta = total_slots meta \<and> has_other then do {
       (cache, s) \<leftarrow> slab_shrink cache s i;
       Some (0, cache, s) }
     else Some (0, cache, s) }"

end
