(* ===== verification/Libgpgpu.thy ===== *)
theory Libgpgpu
  imports Slab
begin

text \<open>
  The runtime of \<open>lib/libgpgpu.c\<close>: the context of a process with its buddy allocator and its
  six slab caches, and the calls \<open>gpuInit\<close>, \<open>gpuDestroy\<close>, \<open>gpuMalloc\<close>, \<open>gpuFree\<close>,
  \<open>gpuMemcpy\<close> and \<open>gpuLaunchKernel\<close>.

  A pointer to one of the caches inside the context is the name of the field.  The buddy
  allocator of the context stands in the record \<open>shared\<close>, together with the mapped memory and
  the outcomes of \<open>malloc\<close>, because the caches reach it through their pointer.  What the
  operating system answers to \<open>open\<close> and \<open>mmap\<close>, and what the device does on a
  dispatch, are arguments.
\<close>

datatype slab_ptr = slab_32 | slab_64 | slab_128 | slab_256 | slab_512 | slab_2048

record gpgpu_ctx =
  fd :: int
  vram_mmap :: u64
  vram_size :: u64
  sh :: shared
  ctx_slab_32 :: slab_cache
  ctx_slab_64 :: slab_cache
  ctx_slab_128 :: slab_cache
  ctx_slab_256 :: slab_cache
  ctx_slab_512 :: slab_cache
  ctx_slab_2048 :: slab_cache

fun slab_at :: "gpgpu_ctx \<Rightarrow> slab_ptr \<Rightarrow> slab_cache" where
  "slab_at ctx slab_32 = ctx_slab_32 ctx"
| "slab_at ctx slab_64 = ctx_slab_64 ctx"
| "slab_at ctx slab_128 = ctx_slab_128 ctx"
| "slab_at ctx slab_256 = ctx_slab_256 ctx"
| "slab_at ctx slab_512 = ctx_slab_512 ctx"
| "slab_at ctx slab_2048 = ctx_slab_2048 ctx"

fun slab_put :: "gpgpu_ctx \<Rightarrow> slab_ptr \<Rightarrow> slab_cache \<Rightarrow> gpgpu_ctx" where
  "slab_put ctx slab_32 c = ctx\<lparr>ctx_slab_32 := c\<rparr>"
| "slab_put ctx slab_64 c = ctx\<lparr>ctx_slab_64 := c\<rparr>"
| "slab_put ctx slab_128 c = ctx\<lparr>ctx_slab_128 := c\<rparr>"
| "slab_put ctx slab_256 c = ctx\<lparr>ctx_slab_256 := c\<rparr>"
| "slab_put ctx slab_512 c = ctx\<lparr>ctx_slab_512 := c\<rparr>"
| "slab_put ctx slab_2048 c = ctx\<lparr>ctx_slab_2048 := c\<rparr>"

definition PAGE_ORDER_SLAB_32 :: u8 where "PAGE_ORDER_SLAB_32 = 0xF0"
definition PAGE_ORDER_SLAB_64 :: u8 where "PAGE_ORDER_SLAB_64 = 0xF1"
definition PAGE_ORDER_SLAB_128 :: u8 where "PAGE_ORDER_SLAB_128 = 0xF2"
definition PAGE_ORDER_SLAB_256 :: u8 where "PAGE_ORDER_SLAB_256 = 0xF3"
definition PAGE_ORDER_SLAB_512 :: u8 where "PAGE_ORDER_SLAB_512 = 0xF4"
definition PAGE_ORDER_SLAB_2048 :: u8 where "PAGE_ORDER_SLAB_2048 = 0xF5"

lemmas marker_defs = PAGE_ORDER_SLAB_32_def PAGE_ORDER_SLAB_64_def PAGE_ORDER_SLAB_128_def
  PAGE_ORDER_SLAB_256_def PAGE_ORDER_SLAB_512_def PAGE_ORDER_SLAB_2048_def

definition get_slab :: "u8 \<Rightarrow> slab_ptr option" where
  "get_slab mark =
     (if mark = PAGE_ORDER_SLAB_32 then Some slab_32
      else if mark = PAGE_ORDER_SLAB_64 then Some slab_64
      else if mark = PAGE_ORDER_SLAB_128 then Some slab_128
      else if mark = PAGE_ORDER_SLAB_256 then Some slab_256
      else if mark = PAGE_ORDER_SLAB_512 then Some slab_512
      else if mark = PAGE_ORDER_SLAB_2048 then Some slab_2048
      else None)"

definition route_slab :: "u64 \<Rightarrow> (slab_ptr \<times> u8) option" where
  "route_slab sz =
     (if sz \<le> 32 then Some (slab_32, PAGE_ORDER_SLAB_32)
      else if sz \<le> 64 then Some (slab_64, PAGE_ORDER_SLAB_64)
      else if sz \<le> 128 then Some (slab_128, PAGE_ORDER_SLAB_128)
      else if sz \<le> 256 then Some (slab_256, PAGE_ORDER_SLAB_256)
      else if sz \<le> 512 then Some (slab_512, PAGE_ORDER_SLAB_512)
      else if sz \<le> 2048 then Some (slab_2048, PAGE_ORDER_SLAB_2048)
      else None)"

subsection \<open>Start and end\<close>

text \<open>
  The answers of the operating system, and the descriptors that are open.  \<open>mmap_mem\<close> is the
  memory that a successful \<open>mmap\<close> of the given length yields.
\<close>

record host =
  open_result :: int
  mmap_result :: u64
  mmap_mem :: "u64 \<Rightarrow> mem"
  open_fds :: "int list"

definition MAP_FAILED :: u64 where
  "MAP_FAILED = -1"

definition host_open :: "host \<Rightarrow> int \<times> host" where
  "host_open h = (open_result h,
     if open_result h < 0 then h else h\<lparr>open_fds := open_result h # open_fds h\<rparr>)"

definition host_close :: "host \<Rightarrow> int \<Rightarrow> host" where
  "host_close h d = h\<lparr>open_fds := remove1 d (open_fds h)\<rparr>"

definition munmap :: "mem \<Rightarrow> u64 \<Rightarrow> u64 \<Rightarrow> mem" where
  "munmap m a n = (\<lambda>x. if loc a x < unat n then None else m x)"

definition ctx_munmap :: "gpgpu_ctx \<Rightarrow> u64 \<Rightarrow> gpgpu_ctx" where
  "ctx_munmap ctx n = ctx\<lparr>sh := (sh ctx)\<lparr>vmem := munmap (vmem (sh ctx)) (vram_mmap ctx) n\<rparr>\<rparr>"

text \<open>
  The six calls of \<open>slab_cache_init\<close>, in the order of the code: the first one that fails
  ends the sequence.
\<close>

definition slab_plan :: "(slab_ptr \<times> u64 \<times> u8) list" where
  "slab_plan = [(slab_32, 32, PAGE_ORDER_SLAB_32), (slab_64, 64, PAGE_ORDER_SLAB_64),
     (slab_128, 128, PAGE_ORDER_SLAB_128), (slab_256, 256, PAGE_ORDER_SLAB_256),
     (slab_512, 512, PAGE_ORDER_SLAB_512), (slab_2048, 2048, PAGE_ORDER_SLAB_2048)]"

fun init_slabs :: "(slab_ptr \<times> u64 \<times> u8) list \<Rightarrow> gpgpu_ctx \<Rightarrow> (bool \<times> gpgpu_ctx) option" where
  "init_slabs [] ctx = Some (True, ctx)"
| "init_slabs ((p, osz, mark) # rest) ctx = do {
     (rc, c, s) \<leftarrow> slab_cache_init osz mark (sh ctx);
     let ctx = slab_put (ctx\<lparr>sh := s\<rparr>) p c;
     if rc < 0 then Some (False, ctx) else init_slabs rest ctx }"

definition gpuInit :: "gpgpu_ctx \<Rightarrow> host \<Rightarrow> u64 \<Rightarrow> (int \<times> gpgpu_ctx \<times> host) option" where
  "gpuInit ctx h vsize = do {
     let ctx = ctx\<lparr>vram_size := vsize\<rparr>;
     let (d, h) = host_open h;
     let ctx = ctx\<lparr>fd := d\<rparr>;
     if fd ctx < 0 then Some (-1, ctx, h)
     else do {
       let ctx = ctx\<lparr>vram_mmap := mmap_result h\<rparr>;
       if vram_mmap ctx = MAP_FAILED then Some (-1, ctx, host_close h (fd ctx))
       else do {
         (rc, b, m) \<leftarrow> buddy_init (mmap_mem h vsize) (vram_mmap ctx) vsize;
         let ctx = ctx\<lparr>sh := (sh ctx)\<lparr>buddy := b, vmem := m\<rparr>\<rparr>;
         if rc < 0 then Some (-1, ctx_munmap ctx vsize, host_close h (fd ctx))
         else do {
           (ok, ctx) \<leftarrow> init_slabs slab_plan ctx;
           if ok then Some (0, ctx, h)
           else Some (-1, ctx_munmap ctx vsize, host_close h (fd ctx)) } } } }"

definition gpuDestroy :: "gpgpu_ctx \<Rightarrow> host \<Rightarrow> gpgpu_ctx \<times> host" where
  "gpuDestroy ctx h =
     (if vram_mmap ctx \<noteq> NULL \<and> vram_mmap ctx \<noteq> MAP_FAILED then ctx_munmap ctx (vram_size ctx) else ctx,
      if fd ctx \<ge> 0 then host_close h (fd ctx) else h)"

subsection \<open>Memory\<close>

definition gpuMalloc :: "gpgpu_ctx \<Rightarrow> u64 \<Rightarrow> (u64 \<times> gpgpu_ctx) option" where
  "gpuMalloc ctx sz =
     (case route_slab sz of
        Some (p, _) \<Rightarrow> do {
          (offset, c, s) \<leftarrow> slab_alloc (slab_at ctx p) (sh ctx);
          let ctx = slab_put (ctx\<lparr>sh := s\<rparr>) p c;
          if offset = -1 then Some (-1, ctx) else Some (offset, ctx) }
      | None \<Rightarrow> do {
          (offset, b, m) \<leftarrow> buddy_alloc (buddy (sh ctx)) (vmem (sh ctx)) sz;
          let ctx = ctx\<lparr>sh := (sh ctx)\<lparr>buddy := b, vmem := m\<rparr>\<rparr>;
          if offset = -1 then Some (-1, ctx) else Some (offset, ctx) })"

definition gpuFree :: "gpgpu_ctx \<Rightarrow> u64 \<Rightarrow> (int \<times> gpgpu_ctx) option" where
  "gpuFree ctx offset = do {
     let page_idx = (ucast (offset div PAGE_SIZE) :: u32);
     mark \<leftarrow> po_get (buddy (sh ctx)) (ucast page_idx);
     case get_slab mark of
       Some p \<Rightarrow> do {
         (rc, c, s) \<leftarrow> slab_free (slab_at ctx p) (sh ctx) offset;
         Some (rc, slab_put (ctx\<lparr>sh := s\<rparr>) p c) }
     | None \<Rightarrow> do {
         (rc, b, m) \<leftarrow> buddy_free (buddy (sh ctx)) (vmem (sh ctx)) offset;
         Some (rc, ctx\<lparr>sh := (sh ctx)\<lparr>buddy := b, vmem := m\<rparr>\<rparr>) } }"

text \<open>
  The host buffer of \<open>gpuMemcpy\<close> is a list of bytes; \<open>memcpy\<close> beyond its end is undefined.
\<close>

definition GPU_MEMCPY_H2D :: int where "GPU_MEMCPY_H2D = 0"
definition GPU_MEMCPY_D2H :: int where "GPU_MEMCPY_D2H = 1"

definition gpuMemcpy ::
  "gpgpu_ctx \<Rightarrow> u64 \<Rightarrow> u8 list \<Rightarrow> u64 \<Rightarrow> int \<Rightarrow> (int \<times> u8 list \<times> gpgpu_ctx) option" where
  "gpuMemcpy ctx dst src sz direction =
     (if direction = GPU_MEMCPY_H2D then do {
        guard (unat sz \<le> length src);
        m \<leftarrow> store_bytes (vmem (sh ctx)) (vram_mmap ctx + dst) (take (unat sz) src);
        Some (0, src, ctx\<lparr>sh := (sh ctx)\<lparr>vmem := m\<rparr>\<rparr>) }
      else if direction = GPU_MEMCPY_D2H then do {
        guard (unat sz \<le> length src);
        bs \<leftarrow> load_bytes (vmem (sh ctx)) (vram_mmap ctx + dst) (unat sz);
        Some (0, bs @ drop (unat sz) src, ctx) }
      else Some (-1, src, ctx))"

subsection \<open>Kernels\<close>

record gpgpu_dispatch_args =
  kernel_addr :: u64
  kernel_args :: u64
  grid_dim :: "u32 \<times> u32 \<times> u32"
  block_dim :: "u32 \<times> u32 \<times> u32"
  shared_mem_size :: u32

text \<open>
  The dispatch call of the driver is an argument: from the descriptor, the dispatch record and
  the memory it yields the result of \<open>ioctl\<close> and the memory the device leaves.
\<close>

type_synonym dispatch_call = "int \<Rightarrow> gpgpu_dispatch_args \<Rightarrow> mem \<Rightarrow> int \<times> mem"

definition gpuLaunchKernel ::
  "dispatch_call \<Rightarrow> gpgpu_ctx \<Rightarrow> u64 \<Rightarrow> u64 \<Rightarrow> u32 \<times> u32 \<times> u32 \<Rightarrow> u32 \<times> u32 \<times> u32 \<Rightarrow> u32 \<Rightarrow>
   int \<times> gpgpu_ctx" where
  "gpuLaunchKernel ioctl ctx kaddr args grid block shared_mem =
     (let dispatch = \<lparr>kernel_addr = kaddr, kernel_args = args, grid_dim = grid, block_dim = block,
            shared_mem_size = shared_mem\<rparr>;
          (r, m) = ioctl (fd ctx) dispatch (vmem (sh ctx));
          ctx = ctx\<lparr>sh := (sh ctx)\<lparr>vmem := m\<rparr>\<rparr>
      in if r < 0 then (-1, ctx) else (0, ctx))"

end
