(* ===== verification/Buddy_Abs.thy ===== *)
theory Buddy_Abs
  imports Prelude
begin

text \<open>
  The page-level view of the buddy allocator: a block is a pair of its first page and its
  order, a free-list state gives for every order the list of first pages.  A tiling is a set of
  aligned, pairwise disjoint blocks that covers the pages below \<open>N\<close>; splitting a block and
  merging two buddies keep a tiling.  On this level the allocation and the release of
  \<open>lib/src/buddy.c\<close> are the functions \<open>asplit\<close> and \<open>afree\<close>.
\<close>

type_synonym block = "nat \<times> nat"
type_synonym freelists = "nat \<Rightarrow> nat list"

definition pages :: "block \<Rightarrow> nat set" where
  "pages b = {fst b ..< fst b + 2 ^ snd b}"

definition fblocks :: "freelists \<Rightarrow> block set" where
  "fblocks F = {(p, k). k < 21 \<and> p \<in> set (F k)}"

definition valid_block :: "nat \<Rightarrow> block \<Rightarrow> bool" where
  "valid_block N b \<longleftrightarrow> snd b < 21 \<and> 2 ^ snd b dvd fst b \<and> fst b + 2 ^ snd b \<le> N"

definition tiling :: "nat \<Rightarrow> block set \<Rightarrow> bool" where
  "tiling N X \<longleftrightarrow> (\<forall>b\<in>X. valid_block N b) \<and>
     (\<forall>b\<in>X. \<forall>c\<in>X. b \<noteq> c \<longrightarrow> pages b \<inter> pages c = {}) \<and>
     (\<Union>b\<in>X. pages b) = {..<N}"

text \<open>No two buddies are free at the same time.\<close>

definition coalesced :: "freelists \<Rightarrow> bool" where
  "coalesced F \<longleftrightarrow> (\<forall>k<21. \<forall>p\<in>set (F k). p XOR 2 ^ k \<notin> set (F k))"

definition wf_lists :: "nat \<Rightarrow> freelists \<Rightarrow> block set \<Rightarrow> bool" where
  "wf_lists N F A \<longleftrightarrow> N \<le> 2 ^ 20 \<and> (\<forall>k. distinct (F k)) \<and> fblocks F \<inter> A = {} \<and>
     tiling N (fblocks F \<union> A) \<and> coalesced F"

fun asplit :: "nat \<Rightarrow> nat \<Rightarrow> freelists \<Rightarrow> nat \<Rightarrow> freelists" where
  "asplit order 0 F p = F"
| "asplit order (Suc i) F p =
     (if Suc i > order then asplit order i (F(i := (p + 2 ^ i) # F i)) p else F)"

function afree :: "freelists \<Rightarrow> nat \<Rightarrow> nat \<Rightarrow> freelists" where
  "afree F p k =
     (if k < 21 \<and> p XOR 2 ^ k \<in> set (F k)
      then afree (F(k := remove1 (p XOR 2 ^ k) (F k))) (min p (p XOR 2 ^ k)) (Suc k)
      else F(k := p # F k))"
  by pat_completeness auto
termination
  by (relation "measure (\<lambda>(F, p, k). 21 - k)") auto

declare afree.simps [simp del]

fun ainit :: "nat \<Rightarrow> nat \<Rightarrow> nat \<Rightarrow> freelists \<Rightarrow> freelists" where
  "ainit 0 rem off F = F"
| "ainit (Suc k) rem off F =
     (if 2 ^ k \<le> rem then ainit k (rem - 2 ^ k) (off + 2 ^ k) (F(k := off # F k))
      else ainit k rem off F)"

subsection \<open>Blocks\<close>

lemma pages_finite [simp]: "finite (pages b)"
  by (simp add: pages_def)

lemma pages_nonempty [simp]: "pages b \<noteq> {}"
  by (simp add: pages_def)

lemma first_in_pages [simp]: "p \<in> pages (p, k)"
  by (simp add: pages_def)

lemma pages_split: "pages (p, Suc i) = pages (p, i) \<union> pages (p + 2 ^ i, i)"
  by (auto simp: pages_def)

lemma pages_split_disjoint: "pages (p, i) \<inter> pages (p + 2 ^ i, i) = {}"
  by (auto simp: pages_def)

lemma pages_inj: "pages b = pages c \<Longrightarrow> b = c"
proof -
  assume eq: "pages b = pages c"
  have "card (pages b) = card (pages c)" using eq by simp
  then have "snd b = snd c" by (simp add: pages_def)
  moreover have "fst b \<in> pages c" "fst c \<in> pages b"
    using eq first_in_pages [of "fst b" "snd b"] first_in_pages [of "fst c" "snd c"] by simp_all
  ultimately show "b = c" by (intro prod_eqI) (simp_all add: pages_def)
qed

lemma fblocks_upd: "k < 21 \<Longrightarrow>
    fblocks (F(k := xs)) = {(p, j). (p, j) \<in> fblocks F \<and> j \<noteq> k} \<union> (\<lambda>p. (p, k)) ` set xs"
  by (auto simp: fblocks_def)

lemma fblocks_push: "k < 21 \<Longrightarrow> fblocks (F(k := p # F k)) = insert (p, k) (fblocks F)"
  by (auto simp: fblocks_def)

lemma fblocks_remove: "k < 21 \<Longrightarrow> distinct (F k) \<Longrightarrow>
    fblocks (F(k := remove1 p (F k))) = fblocks F - {(p, k)}"
  by (auto simp: fblocks_def set_remove1_eq split: if_splits)

lemma fblocks_pop: "k < 21 \<Longrightarrow> F k = p # ps \<Longrightarrow> p \<notin> set ps \<Longrightarrow>
    fblocks (F(k := ps)) = fblocks F - {(p, k)}"
  by (auto simp: fblocks_def split: if_splits)

subsection \<open>Tilings\<close>

lemma tilingD:
  assumes "tiling N X"
  shows "b \<in> X \<Longrightarrow> valid_block N b"
    and "b \<in> X \<Longrightarrow> c \<in> X \<Longrightarrow> b \<noteq> c \<Longrightarrow> pages b \<inter> pages c = {}"
    and "(\<Union>b\<in>X. pages b) = {..<N}"
  using assms by (auto simp: tiling_def)

lemma tiling_replace:
  assumes t: "tiling N (Y \<union> X)" and YX: "Y \<inter> X = {}"
    and val: "\<And>z. z \<in> Z \<Longrightarrow> valid_block N z"
    and dis: "\<And>y z. y \<in> Z \<Longrightarrow> z \<in> Z \<Longrightarrow> y \<noteq> z \<Longrightarrow> pages y \<inter> pages z = {}"
    and un: "(\<Union>z\<in>Z. pages z) = (\<Union>y\<in>Y. pages y)"
  shows "tiling N (Z \<union> X)" and "Z \<inter> X = {}"
proof -
  have sep: "pages z \<inter> pages x = {}" if "z \<in> Z" "x \<in> X" for z x
  proof -
    have "pages y \<inter> pages x = {}" if "y \<in> Y" for y
      using tilingD(2) [OF t, of y x] that \<open>x \<in> X\<close> YX by blast
    then have "(\<Union>y\<in>Y. pages y) \<inter> pages x = {}" by blast
    then show ?thesis using un \<open>z \<in> Z\<close> by blast
  qed
  show "Z \<inter> X = {}"
    using sep pages_nonempty by (metis Int_absorb disjoint_iff)
  have "pages b \<inter> pages c = {}" if "b \<in> Z \<union> X" "c \<in> Z \<union> X" "b \<noteq> c" for b c
    using that by (metis Int_commute Un_iff dis sep t tilingD(2))
  moreover have "(\<Union>b\<in>Z \<union> X. pages b) = {..<N}"
    using tilingD(3) [OF t] un by (simp add: UN_Un)
  moreover have "\<forall>b\<in>Z \<union> X. valid_block N b"
    using val tilingD(1) [OF t] by blast
  ultimately show "tiling N (Z \<union> X)"
    unfolding tiling_def by blast
qed

lemma tiling_split:
  assumes t: "tiling N (insert (p, Suc i) X)" and n: "(p, Suc i) \<notin> X"
  shows "tiling N (insert (p, i) (insert (p + 2 ^ i, i) X))"
    and "(p, i) \<notin> X" "(p + 2 ^ i, i) \<notin> X"
proof -
  have v: "valid_block N (p, Suc i)" using tilingD(1) [OF t] by simp
  have dv: "2 ^ i dvd p" using v by (auto simp: valid_block_def intro: dvd_pow2_mono)
  have t': "tiling N ({(p, Suc i)} \<union> X)" using t by simp
  have val: "valid_block N z" if "z \<in> {(p, i), (p + 2 ^ i, i)}" for z
    using that v dv by (auto simp: valid_block_def)
  have dis: "pages y \<inter> pages z = {}"
    if "y \<in> {(p, i), (p + 2 ^ i, i)}" "z \<in> {(p, i), (p + 2 ^ i, i)}" "y \<noteq> z" for y z
    using that pages_split_disjoint [of p i] by (auto simp: Int_commute)
  have un: "(\<Union>z\<in>{(p, i), (p + 2 ^ i, i)}. pages z) = (\<Union>y\<in>{(p, Suc i)}. pages y)"
    by (simp add: pages_split)
  note r = tiling_replace [OF t' _ val dis un]
  show "tiling N (insert (p, i) (insert (p + 2 ^ i, i) X))" using r(1) n by simp
  show "(p, i) \<notin> X" "(p + 2 ^ i, i) \<notin> X" using r(2) n by auto
qed

lemma xor_pow2_ne: "(p :: nat) XOR 2 ^ k \<noteq> p"
proof
  assume "p XOR 2 ^ k = p"
  then have "p XOR (p XOR 2 ^ k) = p XOR p" by simp
  then show False by (simp add: xor.assoc [symmetric])
qed

lemma xor_pow2_involution: "((p :: nat) XOR 2 ^ k) XOR 2 ^ k = p"
  by (simp add: xor.assoc)

lemma buddy_cases:
  assumes "2 ^ k dvd (p :: nat)"
  obtains "2 ^ Suc k dvd p" "p XOR 2 ^ k = p + 2 ^ k" "min p (p XOR 2 ^ k) = p"
  | "p XOR 2 ^ k = p - 2 ^ k" "2 ^ k \<le> p" "min p (p XOR 2 ^ k) = p - 2 ^ k"
    "2 ^ Suc k dvd p - 2 ^ k"
proof -
  obtain q where q: "p = 2 ^ k * q" using assms by (elim dvdE)
  show thesis
  proof (cases "even q")
    case True
    then obtain r where "q = 2 * r" by (elim evenE)
    then have "2 ^ Suc k dvd p" by (simp add: q)
    moreover have "p XOR 2 ^ k = p + 2 ^ k"
      using True by (simp add: xor_pow2_aligned assms) (simp add: q)
    ultimately show thesis by (intro that(1)) simp_all
  next
    case False
    then obtain r where r: "q = 2 * r + 1" by (elim oddE)
    have "p XOR 2 ^ k = p - 2 ^ k"
      using False by (simp add: xor_pow2_aligned assms) (simp add: q)
    moreover have "p - 2 ^ k = 2 ^ Suc k * r" "2 ^ k \<le> p"
      by (simp_all add: q r algebra_simps)
    ultimately show thesis by (intro that(2)) simp_all
  qed
qed

lemma tiling_merge:
  assumes t: "tiling N (insert (p, k) (insert (p XOR 2 ^ k, k) X))"
    and n: "(p, k) \<notin> X" "(p XOR 2 ^ k, k) \<notin> X" and k: "Suc k < 21"
  shows "tiling N (insert (min p (p XOR 2 ^ k), Suc k) X)"
    and "(min p (p XOR 2 ^ k), Suc k) \<notin> X"
proof -
  let ?q = "p XOR 2 ^ k"
  have v: "valid_block N (p, k)" "valid_block N (?q, k)" using tilingD(1) [OF t] by simp_all
  have dv: "2 ^ k dvd p" using v by (simp add: valid_block_def)
  have un: "pages (min p ?q, Suc k) = pages (p, k) \<union> pages (?q, k)"
    and val: "valid_block N (min p ?q, Suc k)"
    using dv by (cases rule: buddy_cases; use v k in \<open>auto simp: valid_block_def pages_def\<close>)+
  have "{(p, k), (?q, k)} \<inter> X = {}" using n by auto
  moreover have "tiling N ({(p, k), (?q, k)} \<union> X)" using t by simp
  ultimately show "tiling N (insert (min p ?q, Suc k) X)" "(min p ?q, Suc k) \<notin> X"
    using tiling_replace [of N "{(p, k), (?q, k)}" X "{(min p ?q, Suc k)}"] val un by auto
qed

subsection \<open>Well-formed states\<close>

lemma wf_listsD:
  assumes "wf_lists N F A"
  shows "N \<le> 2 ^ 20" "distinct (F k)" "fblocks F \<inter> A = {}" "tiling N (fblocks F \<union> A)"
    "coalesced F"
  using assms by (auto simp: wf_lists_def)

lemma wf_lists_fblock:
  assumes "wf_lists N F A" "(p, k) \<in> fblocks F \<union> A"
  shows "k < 21" "2 ^ k dvd p" "p + 2 ^ k \<le> N" "p < N"
proof -
  have "valid_block N (p, k)" using tilingD(1) [OF wf_listsD(4) [OF assms(1)] assms(2)] .
  then show "k < 21" "2 ^ k dvd p" "p + 2 ^ k \<le> N"
    by (simp_all add: valid_block_def)
  then show "p < N" using zero_less_power [of "2 :: nat" k] by linarith
qed

lemma wf_lists_list_bound: "wf_lists N F A \<Longrightarrow> k < 21 \<Longrightarrow> p \<in> set (F k) \<Longrightarrow> p < N"
  using wf_lists_fblock(4) [of N F A p k] by (auto simp: fblocks_def)

lemma wf_lists_disjoint:
  "wf_lists N F A \<Longrightarrow> b \<in> fblocks F \<union> A \<Longrightarrow> c \<in> fblocks F \<union> A \<Longrightarrow> b \<noteq> c \<Longrightarrow>
   pages b \<inter> pages c = {}"
  using tilingD(2) [OF wf_listsD(4)] by blast

lemma free_pages:
  assumes "wf_lists N F A"
  shows "(\<Union>b\<in>fblocks F. pages b) = {..<N} - (\<Union>b\<in>A. pages b)"
proof -
  note t = wf_listsD(4) [OF assms]
  have "pages b \<inter> pages c = {}" if "b \<in> fblocks F" "c \<in> A" for b c
    using tilingD(2) [OF t, of b c] wf_listsD(3) [OF assms] that by blast
  then have "(\<Union>b\<in>fblocks F. pages b) \<inter> (\<Union>b\<in>A. pages b) = {}" by blast
  moreover have "(\<Union>b\<in>fblocks F. pages b) \<union> (\<Union>b\<in>A. pages b) = {..<N}"
    using tilingD(3) [OF t] by (simp add: UN_Un)
  ultimately show ?thesis by blast
qed

lemma wf_lists_pop:
  assumes w: "wf_lists N F A" and k: "k < 21" and F: "F k = p # ps"
  shows "wf_lists N (F(k := ps)) (insert (p, k) A)" and "(p, k) \<notin> A"
proof -
  have d: "distinct (p # ps)" using wf_listsD(2) [OF w, of k] F by simp
  have fb: "fblocks (F(k := ps)) = fblocks F - {(p, k)}"
    using k F d by (intro fblocks_pop) auto
  have inf: "(p, k) \<in> fblocks F" using k F by (simp add: fblocks_def)
  show "(p, k) \<notin> A" using inf wf_listsD(3) [OF w] by blast
  have "coalesced (F(k := ps))"
    using wf_listsD(5) [OF w] F by (auto simp: coalesced_def)
  moreover have "fblocks F - {(p, k)} \<union> insert (p, k) A = fblocks F \<union> A"
    using inf by blast
  ultimately show "wf_lists N (F(k := ps)) (insert (p, k) A)"
    using w d unfolding wf_lists_def fb by auto
qed

lemma wf_lists_push_split:
  assumes w: "wf_lists N F (insert (p, Suc i) A)" and n: "(p, Suc i) \<notin> A"
  shows "wf_lists N (F(i := (p + 2 ^ i) # F i)) (insert (p, i) A)" and "(p, i) \<notin> A"
proof -
  let ?q = "p + 2 ^ i" and ?F = "F(i := (p + 2 ^ i) # F i)"
  have i: "i < 21" and dp: "2 ^ Suc i dvd p"
    using wf_lists_fblock(1,2) [OF w, of p "Suc i"] by auto
  have nf: "(p, Suc i) \<notin> fblocks F" using wf_listsD(3) [OF w] by blast
  have "fblocks F \<union> insert (p, Suc i) A = insert (p, Suc i) (fblocks F \<union> A)" by blast
  then have t: "tiling N (insert (p, Suc i) (fblocks F \<union> A))" using wf_listsD(4) [OF w] by simp
  have n': "(p, Suc i) \<notin> fblocks F \<union> A" using n nf by blast
  note s = tiling_split [OF t n']
  have fb: "fblocks ?F = insert (?q, i) (fblocks F)" using i by (rule fblocks_push)
  show "(p, i) \<notin> A" using s(2) by blast
  have q: "?q \<notin> set (F i)" using s(3) i by (auto simp: fblocks_def)
  have pf: "p \<notin> set (F i)" using s(2) i by (auto simp: fblocks_def)
  have ev: "even (p div 2 ^ i)" using dp by (auto elim!: dvdE)
  have "2 ^ i dvd p" using dp by (rule dvd_pow2_mono) simp
  then have x: "p XOR 2 ^ i = ?q" using ev by (simp add: xor_pow2_aligned)
  then have xq: "?q XOR 2 ^ i = p" by (metis xor_pow2_involution)
  have "coalesced ?F"
    unfolding coalesced_def
  proof (intro allI impI ballI)
    fix k r assume k: "k < 21" and r: "r \<in> set (?F k)"
    show "r XOR 2 ^ k \<notin> set (?F k)"
    proof (cases "k = i")
      case False
      then show ?thesis using wf_listsD(5) [OF w] k r by (auto simp: coalesced_def)
    next
      case True
      then consider "r = ?q" | "r \<in> set (F i)" using r by auto
      then show ?thesis
      proof cases
        case 1
        then show ?thesis using True xq pf by simp
      next
        case 2
        then have "r XOR 2 ^ i \<notin> set (F i)" using wf_listsD(5) [OF w] i by (simp add: coalesced_def)
        moreover have "r XOR 2 ^ i \<noteq> ?q" using xq pf 2 by (metis xor_pow2_involution)
        ultimately show ?thesis using True by simp
      qed
    qed
  qed
  moreover have "fblocks ?F \<inter> insert (p, i) A = {}"
    unfolding fb using s(2,3) wf_listsD(3) [OF w] by auto
  moreover have "fblocks ?F \<union> insert (p, i) A = insert (p, i) (insert (?q, i) (fblocks F \<union> A))"
    unfolding fb by blast
  ultimately show "wf_lists N ?F (insert (p, i) A)"
    using w s(1) q unfolding wf_lists_def by auto
qed

lemma asplit_wf:
  "wf_lists N F (insert (p, i) A) \<Longrightarrow> (p, i) \<notin> A \<Longrightarrow> order \<le> i \<Longrightarrow>
   wf_lists N (asplit order i F p) (insert (p, order) A) \<and> (p, order) \<notin> A"
proof (induction i arbitrary: F)
  case 0
  then show ?case by simp
next
  case (Suc i)
  show ?case
  proof (cases "order < Suc i")
    case True
    then have "order \<le> i" by simp
    with wf_lists_push_split [OF Suc.prems(1,2)] show ?thesis
      using True by (simp add: Suc.IH del: fun_upd_apply)
  next
    case False
    then show ?thesis using Suc.prems by (simp add: le_antisym)
  qed
qed

lemma wf_lists_merge_step:
  assumes w: "wf_lists N F (insert (p, k) A)" and n: "(p, k) \<notin> A"
    and k: "k < 21" and b: "p XOR 2 ^ k \<in> set (F k)"
  shows "wf_lists N (F(k := remove1 (p XOR 2 ^ k) (F k))) (insert (min p (p XOR 2 ^ k), Suc k) A)"
    and "(min p (p XOR 2 ^ k), Suc k) \<notin> A" and "Suc k < 21"
proof -
  let ?q = "p XOR 2 ^ k" and ?F = "F(k := remove1 (p XOR 2 ^ k) (F k))"
  have qf: "(?q, k) \<in> fblocks F" using k b by (simp add: fblocks_def)
  have dp: "2 ^ k dvd p" and pN: "p + 2 ^ k \<le> N" using wf_lists_fblock [OF w, of p k] by auto
  have qN: "?q + 2 ^ k \<le> N" using wf_lists_fblock(3) [OF w, of ?q k] qf by blast
  have N: "N \<le> 2 ^ 20" using w by (rule wf_listsD)
  from dp have "2 ^ Suc k \<le> N"
    by (cases rule: buddy_cases) (use pN qN in auto)
  then have "(2 :: nat) ^ Suc k \<le> 2 ^ 20" using N by linarith
  then have "Suc k \<le> 20" by (subst (asm) power_increasing_iff) simp_all
  then show k1: "Suc k < 21" by simp
  have fb: "fblocks ?F = fblocks F - {(?q, k)}"
    using k wf_listsD(2) [OF w] by (intro fblocks_remove)
  let ?X = "(fblocks F - {(?q, k)}) \<union> A"
  have nf: "(p, k) \<notin> fblocks F" "(?q, k) \<notin> A" "(p, k) \<noteq> (?q, k)"
    using wf_listsD(3) [OF w] qf xor_pow2_ne [of p k] by auto
  have "fblocks F \<union> insert (p, k) A = insert (p, k) (insert (?q, k) ?X)"
    using qf by blast
  then have t: "tiling N (insert (p, k) (insert (?q, k) ?X))" using wf_listsD(4) [OF w] by simp
  have n': "(p, k) \<notin> ?X" "(?q, k) \<notin> ?X" using n nf by auto
  note m = tiling_merge [OF t n' k1]
  show "(min p ?q, Suc k) \<notin> A" using m(2) by blast
  have "coalesced ?F"
    using wf_listsD(5) [OF w] unfolding coalesced_def by (auto dest: notin_set_remove1 split: if_splits)
  moreover have "fblocks ?F \<union> insert (min p ?q, Suc k) A = insert (min p ?q, Suc k) ?X"
    unfolding fb by blast
  moreover have "fblocks ?F \<inter> insert (min p ?q, Suc k) A = {}"
    unfolding fb using m(2) wf_listsD(3) [OF w] by auto
  ultimately show "wf_lists N ?F (insert (min p ?q, Suc k) A)"
    using w m(1) unfolding wf_lists_def by (auto simp: distinct_remove1)
qed

lemma wf_lists_push_free:
  assumes w: "wf_lists N F (insert (p, k) A)" and n: "(p, k) \<notin> A" and b: "p XOR 2 ^ k \<notin> set (F k)"
  shows "wf_lists N (F(k := p # F k)) A"
proof -
  have k: "k < 21" using wf_lists_fblock(1) [OF w, of p k] by simp
  have nf: "(p, k) \<notin> fblocks F" using wf_listsD(3) [OF w] by blast
  then have p: "p \<notin> set (F k)" using k by (simp add: fblocks_def)
  have fb: "fblocks (F(k := p # F k)) = insert (p, k) (fblocks F)"
    using k by (rule fblocks_push)
  have x: "r XOR 2 ^ k \<noteq> p" if "r \<in> set (F k)" for r
    using that b by (metis xor_pow2_involution)
  have "coalesced (F(k := p # F k))"
    using wf_listsD(5) [OF w] b x xor_pow2_ne [of p k] unfolding coalesced_def by auto
  moreover have "fblocks F \<union> insert (p, k) A = insert (p, k) (fblocks F) \<union> A" by blast
  ultimately show ?thesis
    using w n p wf_listsD(3) [OF w] unfolding wf_lists_def fb by auto
qed

lemma afree_wf:
  "wf_lists N F (insert (p, k) A) \<Longrightarrow> (p, k) \<notin> A \<Longrightarrow> wf_lists N (afree F p k) A"
proof (induction F p k rule: afree.induct)
  case (1 F p k)
  show ?case
  proof (cases "k < 21 \<and> p XOR 2 ^ k \<in> set (F k)")
    case True
    note m = wf_lists_merge_step [OF "1.prems" conjunct1 [OF True] conjunct2 [OF True]]
    show ?thesis
      using "1.IH" [OF True m(1,2)] True by (simp only: afree.simps [of F p k] if_True simp_thms)
  next
    case False
    moreover have "k < 21" using wf_lists_fblock(1) [OF "1.prems"(1), of p k] by simp
    ultimately show ?thesis
      using wf_lists_push_free [OF "1.prems"]
      by (simp only: afree.simps [of F p k] if_False simp_thms)
  qed
qed

subsection \<open>The state after initialisation\<close>

lemma tiling_extend:
  assumes t: "tiling off X" and d: "2 ^ k dvd off" and k: "k < 21"
  shows "tiling (off + 2 ^ k) (insert (off, k) X)"
proof -
  have sub: "pages b \<subseteq> {..<off}" if "b \<in> X" for b
    using tilingD(3) [OF t] that by blast
  have v: "valid_block (off + 2 ^ k) b" if "b \<in> insert (off, k) X" for b
    using that tilingD(1) [OF t] d k by (fastforce simp: valid_block_def)
  have new: "pages (off, k) \<inter> pages b = {}" if "b \<in> X" for b
  proof -
    have "pages (off, k) \<inter> {..<off} = {}" by (auto simp: pages_def)
    then show ?thesis using sub [OF that] by blast
  qed
  have dis: "pages b \<inter> pages c = {}"
    if "b \<in> insert (off, k) X" "c \<in> insert (off, k) X" "b \<noteq> c" for b c
    using that new tilingD(2) [OF t, of b c] by (metis Int_commute insert_iff)
  have "(\<Union>b\<in>insert (off, k) X. pages b) = pages (off, k) \<union> {..<off}"
    using tilingD(3) [OF t] by simp
  also have "\<dots> = {..<off + 2 ^ k}" by (auto simp: pages_def)
  finally show ?thesis unfolding tiling_def by (intro conjI ballI impI v dis)
qed

lemma ainit_tiling:
  assumes "tiling off (fblocks F)" "rem < 2 ^ k" "2 ^ k dvd off" "k \<le> 21"
    "\<forall>j<k. F j = []" "\<forall>j. length (F j) \<le> 1"
  shows "tiling (off + rem) (fblocks (ainit k rem off F)) \<and>
    (\<forall>j. length (ainit k rem off F j) \<le> 1)"
  using assms
proof (induction k arbitrary: rem off F)
  case 0
  then show ?case by simp
next
  case (Suc k)
  have d: "2 ^ k dvd off" using Suc.prems(3) by (rule dvd_pow2_mono) simp
  show ?case
  proof (cases "2 ^ k \<le> rem")
    case True
    have "fblocks (F(k := off # F k)) = insert (off, k) (fblocks F)"
      using Suc.prems(4) by (intro fblocks_push) simp
    then have t: "tiling (off + 2 ^ k) (fblocks (F(k := off # F k)))"
      using tiling_extend [OF Suc.prems(1) d] Suc.prems(4) by simp
    have "tiling (off + 2 ^ k + (rem - 2 ^ k))
        (fblocks (ainit k (rem - 2 ^ k) (off + 2 ^ k) (F(k := off # F k)))) \<and>
      (\<forall>j. length (ainit k (rem - 2 ^ k) (off + 2 ^ k) (F(k := off # F k)) j) \<le> 1)"
      using Suc.prems d by (intro Suc.IH t) auto
    then show ?thesis using True by simp
  next
    case False
    then show ?thesis using Suc.IH [OF Suc.prems(1) _ d] Suc.prems by simp
  qed
qed

lemma ainit_wf:
  assumes "N \<le> 2 ^ 20"
  shows "wf_lists N (ainit 21 N 0 (\<lambda>_. [])) {}"
proof -
  let ?F = "ainit 21 N 0 (\<lambda>_. [])"
  have "tiling 0 (fblocks (\<lambda>_. []))" by (simp add: tiling_def fblocks_def)
  then have t: "tiling N (fblocks ?F) \<and> (\<forall>j. length (?F j) \<le> 1)"
    using ainit_tiling [of 0 "\<lambda>_. []" N 21] assms by simp
  have one: "xs = [] \<or> (\<exists>x. xs = [x])" if "length xs \<le> 1" for xs :: "nat list"
    using that by (cases xs) auto
  have l: "?F j = [] \<or> (\<exists>x. ?F j = [x])" for j
    using t one by blast
  have "distinct (?F j)" for j
    using l [of j] by auto
  moreover have "coalesced ?F"
    unfolding coalesced_def
  proof (intro allI impI ballI)
    fix k p assume "p \<in> set (?F k)"
    then show "p XOR 2 ^ k \<notin> set (?F k)"
      using l [of k] xor_pow2_ne [of p k] by auto
  qed
  ultimately show ?thesis using assms t by (simp add: wf_lists_def)
qed

subsection \<open>A fully coalesced tiling is unique\<close>

text \<open>
  When nothing is allocated, every aligned block of the memory lies inside one free block: no
  sequence of requests and releases leaves the memory fragmented.
\<close>

lemma nested_block:
  assumes "2 ^ j dvd q" "2 ^ k dvd p" "j \<le> k" "q \<in> pages (p, k)"
  shows "pages (q, j) \<subseteq> pages (p, k)"
  using pow2_dvd_lt_le [of j q k p] assms by (auto simp: pages_def)

lemma coalesced_cover:
  assumes w: "wf_lists N F {}"
  shows "2 ^ j dvd q \<Longrightarrow> q + 2 ^ j \<le> N \<Longrightarrow> \<exists>b\<in>fblocks F. pages (q, j) \<subseteq> pages b"
proof (induction j arbitrary: q)
  case 0
  then have "q \<in> (\<Union>b\<in>fblocks F. pages b)" using free_pages [OF w] by simp
  then show ?case by (auto simp: pages_def)
next
  case (Suc j)
  let ?r = "q + 2 ^ j"
  have dq: "2 ^ j dvd q" using Suc.prems(1) by (rule dvd_pow2_mono) simp
  have dr: "2 ^ j dvd ?r" using dq by simp
  obtain p k where b1: "(p, k) \<in> fblocks F" and s1: "pages (q, j) \<subseteq> pages (p, k)"
    using Suc.IH [OF dq] Suc.prems(2) by auto
  obtain p' k' where b2: "(p', k') \<in> fblocks F" and s2: "pages (?r, j) \<subseteq> pages (p', k')"
    using Suc.IH [OF dr] Suc.prems(2) by auto
  have dp: "2 ^ k dvd p" "2 ^ k' dvd p'" using wf_lists_fblock(2) [OF w] b1 b2 by auto
  show ?case
  proof (cases "j < k \<or> j < k'")
    case True
    then show ?thesis
    proof
      assume "j < k"
      then have "pages (q, Suc j) \<subseteq> pages (p, k)"
        using s1 dp(1) Suc.prems(1) by (intro nested_block) auto
      then show ?thesis using b1 by blast
    next
      assume jk: "j < k'"
      have "?r \<in> pages (p', k')" using s2 by auto
      moreover have "p' \<le> q"
      proof (rule ccontr)
        assume "\<not> p' \<le> q"
        then have "q < p'" by simp
        moreover have "2 ^ Suc j dvd p'" using dvd_pow2_mono [OF dp(2), of "Suc j"] jk by simp
        ultimately have "q + 2 ^ Suc j \<le> p'"
          using Suc.prems(1) by (intro dvd_less_add_le)
        moreover have "q + 2 ^ j < q + 2 ^ Suc j" by simp
        ultimately have "?r < p'" by linarith
        then show False using \<open>?r \<in> pages (p', k')\<close> by (simp add: pages_def)
      qed
      ultimately have "q \<in> pages (p', k')" by (simp add: pages_def)
      then have "pages (q, Suc j) \<subseteq> pages (p', k')"
        using dp(2) Suc.prems(1) jk by (intro nested_block) auto
      then show ?thesis using b2 by blast
    qed
  next
    case False
    have card: "card (pages (x, i)) = 2 ^ i" for x i by (simp add: pages_def)
    have "(2 :: nat) ^ j \<le> 2 ^ k" "(2 :: nat) ^ j \<le> 2 ^ k'"
      using card_mono [OF _ s1] card_mono [OF _ s2] by (simp_all add: card)
    then have eq: "k = j" "k' = j" using False by (auto simp: power_increasing_iff)
    have "pages (q, j) = pages (p, k)" "pages (?r, j) = pages (p', k')"
      using s1 s2 unfolding eq by (simp_all add: card_subset_eq card)
    then have "p = q" "p' = ?r" using pages_inj by blast+
    then have "q \<in> set (F j)" "?r \<in> set (F j)" "j < 21"
      using b1 b2 eq by (auto simp: fblocks_def)
    moreover have "q XOR 2 ^ j = ?r"
      using Suc.prems(1) dq by (auto simp: xor_pow2_aligned elim!: dvdE)
    ultimately have False using wf_listsD(5) [OF w] unfolding coalesced_def by metis
    then show ?thesis ..
  qed
qed

lemma coalesced_unique_subset:
  assumes w: "wf_lists N F {}" and w': "wf_lists N G {}"
  shows "fblocks F \<subseteq> fblocks G"
proof
  fix b assume b: "b \<in> fblocks F"
  obtain p k where bk: "b = (p, k)" by (cases b)
  obtain c where c: "c \<in> fblocks G" "pages b \<subseteq> pages c"
    using coalesced_cover [OF w', of k p] wf_lists_fblock(2,3) [OF w, of p k] b bk by auto
  obtain d where d: "d \<in> fblocks F" "pages c \<subseteq> pages d"
    using coalesced_cover [OF w, of "snd c" "fst c"] wf_lists_fblock(2,3) [OF w', of "fst c" "snd c"] c
    by auto
  have "b = d"
    using wf_lists_disjoint [OF w, of b d] b d c pages_nonempty [of b] by blast
  then have "pages b = pages c" using c d by blast
  then show "b \<in> fblocks G" using c pages_inj by blast
qed

lemma coalesced_unique:
  "wf_lists N F {} \<Longrightarrow> wf_lists N G {} \<Longrightarrow> fblocks F = fblocks G"
  using coalesced_unique_subset by blast

lemma empty_room:
  assumes w: "wf_lists N F {}" and k: "k < 21" "2 ^ k \<le> N"
  shows "\<exists>j. k \<le> j \<and> j < 21 \<and> F j \<noteq> []"
proof -
  obtain c where c: "c \<in> fblocks F" "pages (0, k) \<subseteq> pages c"
    using coalesced_cover [OF w, of k 0] k by auto
  have "card (pages (0, k)) \<le> card (pages c)" using c(2) by (intro card_mono) simp_all
  then have "(2 :: nat) ^ k \<le> 2 ^ snd c" by (simp add: pages_def)
  then have "k \<le> snd c" by simp
  then show ?thesis using c(1) by (auto simp: fblocks_def)
qed

end
