(* ===== verification/Buddy_Lists.thy ===== *)
theory Buddy_Lists
  imports Buddy Buddy_Abs
begin

text \<open>
  The doubly linked free lists of \<open>lib/src/buddy.c\<close> as lists of page numbers: what the link
  fields in the memory must hold for a list of pages, and that hanging a node, taking the head
  off, searching and unlinking a node do to the list what they do to the pages.
\<close>

definition nd :: "u64 \<Rightarrow> nat \<Rightarrow> u64" where
  "nd B p = ofs B (4096 * p)"

fun dll :: "mem \<Rightarrow> u64 \<Rightarrow> u64 \<Rightarrow> u64 \<Rightarrow> nat list \<Rightarrow> bool" where
  "dll m B prev h [] \<longleftrightarrow> h = 0"
| "dll m B prev h (p # ps) \<longleftrightarrow>
     h = nd B p \<and> get64 m (nd B p) = prev \<and> dll m B (nd B p) (get64 m (nd B p + 8)) ps"

text \<open>The mapped region: \<open>S\<close> bytes at \<open>B\<close>, holding at least \<open>N\<close> pages, not wrapping.\<close>

definition base_ok :: "u64 \<Rightarrow> nat \<Rightarrow> nat \<Rightarrow> bool" where
  "base_ok B S N \<longleftrightarrow> B \<noteq> 0 \<and> unat B + S < 2 ^ 64 \<and> 4096 * N \<le> S \<and> N \<le> 2 ^ 20"

text \<open>A change of memory that stays within the bytes of \<open>X\<close>, or the pages of \<open>P\<close>.\<close>

definition bframe :: "u64 \<Rightarrow> nat set \<Rightarrow> mem \<Rightarrow> mem \<Rightarrow> bool" where
  "bframe B X m m' \<longleftrightarrow> (\<forall>x. loc B x \<notin> X \<longrightarrow> m' x = m x)"

definition page_bytes :: "nat set \<Rightarrow> nat set" where
  "page_bytes P = {y. y div 4096 \<in> P}"

definition pframe :: "u64 \<Rightarrow> nat set \<Rightarrow> mem \<Rightarrow> mem \<Rightarrow> bool" where
  "pframe B P m m' \<longleftrightarrow> (\<forall>x. loc B x div 4096 \<notin> P \<longrightarrow> m' x = m x)"

lemma pframe_bframe: "pframe B P m m' \<longleftrightarrow> bframe B (page_bytes P) m m'"
  by (simp add: pframe_def bframe_def page_bytes_def)

lemma bframe_refl [simp]: "bframe B X m m"
  by (simp add: bframe_def)

lemma bframe_trans: "bframe B X m m' \<Longrightarrow> bframe B X m' m'' \<Longrightarrow> bframe B X m m''"
  by (simp add: bframe_def)

lemma bframe_mono: "bframe B X m m' \<Longrightarrow> X \<subseteq> Y \<Longrightarrow> bframe B Y m m'"
  by (auto simp: bframe_def)

lemma bframe_get_bytes:
  assumes "bframe B X m m'" "{o' ..< o' + n} \<inter> X = {}" "o' + n \<le> 2 ^ 64"
  shows "get_bytes m' (ofs B o') n = get_bytes m (ofs B o') n"
  using assms by (intro agree_get_bytes [of B "- X"]) (auto simp: agree_def bframe_def)

lemma bframe_get64:
  "bframe B X m m' \<Longrightarrow> {o' ..< o' + 8} \<inter> X = {} \<Longrightarrow> o' + 8 \<le> 2 ^ 64 \<Longrightarrow>
   get64 m' (ofs B o') = get64 m (ofs B o')"
  by (simp add: get64_def bframe_get_bytes)

lemma bframe_put_bytes:
  assumes "o' + length bs \<le> 2 ^ 64" "{o' ..< o' + length bs} \<subseteq> X"
  shows "bframe B X m (put_bytes m (ofs B o') bs)"
  unfolding bframe_def
proof (intro allI impI put_bytes_outside_ofs assms(1))
  fix x assume "loc B x \<notin> X"
  with assms(2) show "loc B x < o' \<or> o' + length bs \<le> loc B x"
    by (meson atLeastLessThan_iff not_less subsetD)
qed

lemma bframe_put64:
  "o' + 8 \<le> 2 ^ 64 \<Longrightarrow> {o' ..< o' + 8} \<subseteq> X \<Longrightarrow> bframe B X m (put64 m (ofs B o') v)"
  unfolding put64_def by (rule bframe_put_bytes) simp_all

lemma pframe_refl [simp]: "pframe B P m m"
  by (simp add: pframe_def)

lemma pframe_trans: "pframe B P m m' \<Longrightarrow> pframe B Q m' m'' \<Longrightarrow> pframe B (P \<union> Q) m m''"
  by (simp add: pframe_def)

lemma pframe_mono: "pframe B P m m' \<Longrightarrow> P \<subseteq> Q \<Longrightarrow> pframe B Q m m'"
  by (auto simp: pframe_def)

subsection \<open>Node fields\<close>

lemma nd_inj: "p < 2 ^ 52 \<Longrightarrow> q < 2 ^ 52 \<Longrightarrow> nd B p = nd B q \<longleftrightarrow> p = q"
  unfolding nd_def by (subst ofs_inj) auto

lemma nd8: "nd B p + 8 = ofs B (4096 * p + 8)"
  by (simp add: nd_def)

lemma field_other:
  assumes "p < 2 ^ 20" "q < 2 ^ 20" "f \<le> 8" "g \<le> 8" "p \<noteq> q"
  shows "get64 (put64 m (ofs B (4096 * p + f)) v) (ofs B (4096 * q + g)) =
    get64 m (ofs B (4096 * q + g))"
proof (rule get64_put64_other)
  show "4096 * p + f + 8 \<le> 4096 * q + g \<or> 4096 * q + g + 8 \<le> 4096 * p + f"
  proof (cases "p < q")
    case True
    then have "4096 * (p + 1) \<le> 4096 * q" by (intro mult_le_mono2) simp
    then show ?thesis using assms by simp
  next
    case False
    then have "4096 * (q + 1) \<le> 4096 * p" using assms by (intro mult_le_mono2) simp
    then show ?thesis using assms by simp
  qed
qed (use assms in simp_all)

lemma field_next_prev:
  "p < 2 ^ 20 \<Longrightarrow> get64 (put64 m (nd B p) v) (nd B p + 8) = get64 m (nd B p + 8)"
  unfolding nd8 unfolding nd_def by (rule get64_put64_other) auto

lemma field_prev_next:
  "p < 2 ^ 20 \<Longrightarrow> get64 (put64 m (nd B p + 8) v) (nd B p) = get64 m (nd B p)"
  unfolding nd8 unfolding nd_def by (rule get64_put64_other) auto

lemma node_other:
  assumes "p < 2 ^ 20" "q < 2 ^ 20" "p \<noteq> q"
  shows "get64 (put64 m (nd B p) v) (nd B q) = get64 m (nd B q)"
    "get64 (put64 m (nd B p) v) (nd B q + 8) = get64 m (nd B q + 8)"
    "get64 (put64 m (nd B p + 8) v) (nd B q) = get64 m (nd B q)"
    "get64 (put64 m (nd B p + 8) v) (nd B q + 8) = get64 m (nd B q + 8)"
  using field_other [of p q 0 0] field_other [of p q 0 8] field_other [of p q 8 0]
    field_other [of p q 8 8] assms
  by (simp_all add: nd_def add.assoc)

lemmas node_simps = node_other field_next_prev field_prev_next get64_put64_same

lemma pframe_put64:
  assumes "p < 2 ^ 20" "p \<in> P"
  shows "pframe B P m (put64 m (nd B p) v)" "pframe B P m (put64 m (nd B p + 8) v)"
proof -
  have "put64 m (ofs B (4096 * p + f)) v x = m x" if "loc B x div 4096 \<notin> P" "f \<le> 8" for x f
  proof -
    have "loc B x div 4096 \<noteq> p" using assms that by blast
    then have "loc B x < 4096 * p + f \<or> 4096 * p + f + 8 \<le> loc B x"
      using that(2) by (cases "loc B x < 4096 * p") auto
    then show ?thesis
      unfolding put64_def using assms that(2) by (intro put_bytes_outside_ofs) auto
  qed
  from this [of _ 0] this [of _ 8]
  show "pframe B P m (put64 m (nd B p) v)" "pframe B P m (put64 m (nd B p + 8) v)"
    unfolding pframe_def nd8 by (simp_all add: nd_def)
qed

subsection \<open>Nodes of the mapped region\<close>

lemma base_okD:
  assumes "base_ok B S N"
  shows "B \<noteq> 0" "unat B + S < 2 ^ 64" "4096 * N \<le> S" "N \<le> 2 ^ 20" "S \<le> 2 ^ 64"
  using assms by (auto simp: base_ok_def)

lemma node_bound: "base_ok B S N \<Longrightarrow> p < N \<Longrightarrow> p < 2 ^ 20"
  using base_okD(4) [of B S N] by linarith

lemma nd_nonzero: "base_ok B S N \<Longrightarrow> p < N \<Longrightarrow> nd B p \<noteq> 0"
  unfolding nd_def using base_okD [of B S N] by (intro ofs_nonzero) auto

lemma node_mapped:
  assumes "vram_at m B S" "base_ok B S N" "p < N"
  shows "mapped m (nd B p) 8" "mapped m (nd B p + 8) 8"
proof -
  have "4096 * (p + 1) \<le> 4096 * N" using assms(3) by (intro mult_le_mono2) simp
  then have "4096 * p + 16 \<le> S" using base_okD(3) [OF assms(2)] by simp
  then have "4096 * p + 8 \<le> S" "4096 * p + 8 + 8 \<le> S" by simp_all
  then show "mapped m (nd B p) 8" "mapped m (nd B p + 8) 8"
    unfolding nd8 unfolding nd_def
    using vram_mapped [OF assms(1) _ base_okD(5) [OF assms(2)]] by blast+
qed

lemma node_access:
  assumes "vram_at m B S" "base_ok B S N" "p < N"
  shows "node_prev m (nd B p) = Some (get64 m (nd B p))"
    "node_next m (nd B p) = Some (get64 m (nd B p + 8))"
    "set_prev m (nd B p) v = Some (put64 m (nd B p) v)"
    "set_next m (nd B p) v = Some (put64 m (nd B p + 8) v)"
    "vram_at (put64 m (nd B p) v) B S" "vram_at (put64 m (nd B p + 8) v) B S"
  using node_mapped [OF assms] assms(1)
  by (simp_all add: node_prev_def node_next_def set_prev_def set_next_def load64_def store64_def
      vram_at_put64)

subsection \<open>Doubly linked lists\<close>

lemma dll_cong:
  "(\<And>p. p \<in> set ps \<Longrightarrow> get64 m' (nd B p) = get64 m (nd B p) \<and>
      get64 m' (nd B p + 8) = get64 m (nd B p + 8)) \<Longrightarrow>
   dll m' B pr h ps = dll m B pr h ps"
  by (induction ps arbitrary: pr h) auto

lemma dll_put_other:
  assumes "x < 2 ^ 20" "x \<notin> set ps" "set ps \<subseteq> {..<2 ^ 20}"
  shows "dll (put64 m (nd B x) v) B pr h ps = dll m B pr h ps"
    "dll (put64 m (nd B x + 8) v) B pr h ps = dll m B pr h ps"
proof -
  have "p < 2 ^ 20 \<and> x \<noteq> p" if "p \<in> set ps" for p using assms that by auto
  then show "dll (put64 m (nd B x) v) B pr h ps = dll m B pr h ps"
    "dll (put64 m (nd B x + 8) v) B pr h ps = dll m B pr h ps"
    using assms(1) by (auto intro!: dll_cong simp del: power_numeral simp: node_other)
qed

lemma dll_pframe:
  assumes fr: "pframe B P m m'" and dis: "set ps \<inter> P = {}" and bd: "set ps \<subseteq> {..<2 ^ 20}"
  shows "dll m' B pr h ps = dll m B pr h ps"
proof (rule dll_cong)
  fix p assume p: "p \<in> set ps"
  have p20: "p < 2 ^ 20" using p bd by auto
  have "get64 m' (ofs B (4096 * p + f)) = get64 m (ofs B (4096 * p + f))" if f: "f \<le> 8" for f
  proof (rule agree_get64)
    show "agree B {4096 * p ..< 4096 * p + 4096} m m'"
      unfolding agree_def
    proof (intro allI impI)
      fix x assume "loc B x \<in> {4096 * p ..< 4096 * p + 4096}"
      then have "loc B x div 4096 = p" by (intro div_nat_eqI) auto
      then show "m' x = m x" using fr p dis by (auto simp: pframe_def)
    qed
  qed (use f p20 in auto)
  from this [of 0] this [of 8]
  show "get64 m' (nd B p) = get64 m (nd B p) \<and> get64 m' (nd B p + 8) = get64 m (nd B p + 8)"
    unfolding nd8 by (simp add: nd_def)
qed

lemma dll_head_null:
  "dll m B pr h ps \<Longrightarrow> base_ok B S N \<Longrightarrow> set ps \<subseteq> {..<N} \<Longrightarrow> h = 0 \<longleftrightarrow> ps = []"
  by (cases ps) (auto simp: nd_nonzero)

lemma dll_reset_prev:
  assumes "dll m B pr h (p # ps)" "p \<notin> set ps" "set (p # ps) \<subseteq> {..<2 ^ 20}"
  shows "dll (put64 m (nd B p) pr') B pr' h (p # ps)"
  using assms by (auto simp: node_simps dll_put_other)

lemma dll_push:
  assumes ok: "base_ok B S N" and l: "dll m B 0 h ps" and p: "p < N" "p \<notin> set ps"
    and b: "set ps \<subseteq> {..<N}" and d: "distinct ps"
    and m2: "m2 = put64 (put64 m (nd B p) 0) (nd B p + 8) h"
  shows "dll (if h \<noteq> 0 then put64 m2 h (nd B p) else m2) B 0 (nd B p) (p # ps)"
proof -
  have bd: "x < 2 ^ 20" if "x = p \<or> x \<in> set ps" for x
    using that p b node_bound [OF ok] by auto
  then have l2: "dll m2 B 0 h ps"
    unfolding m2 using l p by (auto simp: dll_put_other subset_iff)
  have f: "get64 m2 (nd B p) = 0" "get64 m2 (nd B p + 8) = h"
    unfolding m2 using bd by (simp_all add: node_simps)
  show ?thesis
  proof (cases ps)
    case Nil
    then show ?thesis using l f by simp
  next
    case (Cons q qs)
    then have h: "h = nd B q" "h \<noteq> 0" using l nd_nonzero [OF ok] b by auto
    have "dll (put64 m2 (nd B q) (nd B p)) B (nd B p) h (q # qs)"
      using l2 d bd unfolding Cons by (intro dll_reset_prev) (auto simp: subset_iff)
    moreover have "get64 (put64 m2 (nd B q) (nd B p)) (nd B p) = 0"
      "get64 (put64 m2 (nd B q) (nd B p)) (nd B p + 8) = h"
      using f bd p(2) Cons by (auto simp: node_simps)
    ultimately show ?thesis using h Cons by simp
  qed
qed

lemma dll_middle:
  assumes "dll m B pr h (xs @ q # ys)"
  shows "get64 m (nd B q) = (if xs = [] then pr else nd B (last xs))"
    "dll m B (nd B q) (get64 m (nd B q + 8)) ys"
  using assms by (induction xs arbitrary: pr h) (auto split: if_splits)

lemma dll_find:
  assumes "base_ok B S N" "vram_at m B S" "dll m B pr h ps" "set ps \<subseteq> {..<N}" "q < 2 ^ 52"
  shows "find_temp m (nd B q) h = Some (if q \<in> set ps then nd B q else 0)"
  using assms(3,4)
proof (induction ps arbitrary: pr h)
  case Nil
  then show ?case by (subst find_temp.simps) (simp add: NULL_def)
next
  case (Cons p ps)
  have p: "p < N" "p < 2 ^ 52"
    using Cons.prems(2) node_bound [OF assms(1), of p] by auto
  have h: "h = nd B p" "h \<noteq> 0" using Cons.prems nd_nonzero [OF assms(1)] by auto
  have IH: "find_temp m (nd B q) (get64 m (nd B p + 8)) = Some (if q \<in> set ps then nd B q else 0)"
    using Cons.prems by (intro Cons.IH [of "nd B p"]) auto
  show ?case
    unfolding find_temp.simps [of m _ h] using h IH node_access(2) [OF assms(2,1) p(1)]
      nd_inj [of p q B] p(2) assms(5)
    by (auto simp: NULL_def)
qed

lemma dll_relink_head:
  assumes ok: "base_ok B S N" and l: "dll m B pr n ys" and d: "distinct ys" "set ys \<subseteq> {..<N}"
  shows "dll (if n \<noteq> 0 then put64 m n pr' else m) B pr' n ys"
proof (cases ys)
  case Nil
  then show ?thesis using l by simp
next
  case (Cons y zs)
  have "set (y # zs) \<subseteq> {..<2 ^ 20}" using d(2) node_bound [OF ok] unfolding Cons by auto
  then show ?thesis
    using l d nd_nonzero [OF ok, of y] dll_reset_prev [of m B pr n y zs pr'] unfolding Cons by auto
qed

lemma dll_unlink:
  assumes ok: "base_ok B S N"
  shows "dll m B pr h (xs @ q # ys) \<Longrightarrow> xs \<noteq> [] \<Longrightarrow> distinct (xs @ q # ys) \<Longrightarrow>
    set (xs @ q # ys) \<subseteq> {..<N} \<Longrightarrow> n = get64 m (nd B q + 8) \<Longrightarrow>
    m1 = put64 m (nd B (last xs) + 8) n \<Longrightarrow>
    dll (if n \<noteq> 0 then put64 m1 n (nd B (last xs)) else m1) B pr h (xs @ ys)"
proof (induction xs arbitrary: pr h)
  case Nil
  then show ?case by simp
next
  case (Cons x xs)
  let ?l = "last (x # xs)"
  let ?m2 = "if n \<noteq> 0 then put64 m1 n (nd B ?l) else m1"
  have bd: "z < 2 ^ 20" "z < N" if "z \<in> set (x # xs @ q # ys)" for z
    using Cons.prems(4) that node_bound [OF ok, of z] by auto
  have ly: "dll m B (nd B q) n ys" using dll_middle(2) [OF Cons.prems(1)] Cons.prems(5) by simp
  have lx: "?l \<in> set (x # xs)" by (rule last_in_set) simp
  have l1: "dll m1 B (nd B q) n ys"
    unfolding Cons.prems(6) using ly lx Cons.prems(3) bd
    by (subst dll_put_other(2)) (auto simp del: last.simps)
  have n: "n = 0 \<or> (\<exists>y\<in>set ys. n = nd B y \<and> y \<noteq> x \<and> y \<noteq> ?l)"
    using ly lx Cons.prems(3) by (cases ys) (auto simp del: last.simps)
  have "get64 m (nd B x) = pr" "h = nd B x" using Cons.prems(1) by simp_all
  moreover have gx: "get64 ?m2 (nd B x) = get64 m (nd B x)"
    unfolding Cons.prems(6) using n bd lx
    by (cases "?l = x") (auto simp: node_simps simp del: last.simps)
  ultimately have head: "h = nd B x \<and> get64 ?m2 (nd B x) = pr" by simp
  show ?case
  proof (cases "xs = []")
    case True
    have "get64 ?m2 (nd B x + 8) = n"
      unfolding Cons.prems(6) using n bd True by (auto simp: node_simps)
    moreover have "dll ?m2 B (nd B x) n ys"
      using dll_relink_head [OF ok l1] Cons.prems(3,4) True by auto
    ultimately show ?thesis using head True by simp
  next
    case False
    then have l: "?l = last xs" "last xs \<noteq> x" using Cons.prems(3) last_in_set [OF False] by auto
    have "get64 ?m2 (nd B x + 8) = get64 m (nd B x + 8)"
      unfolding Cons.prems(6) l(1) using n bd l(2) last_in_set [OF False]
      by (auto simp: node_simps)
    moreover have "dll ?m2 B (nd B x) (get64 m (nd B x + 8)) (xs @ ys)"
      unfolding l(1) using Cons.prems l(1) False by (intro Cons.IH) auto
    ultimately show ?thesis using head by simp
  qed
qed

end
