(* ===== verification/Buddy_Supply.thy ===== *)
theory Buddy_Supply
  imports Buddy_Abs
begin

text \<open>
  How many requests the free lists can still meet.  On the level of pages an allocation takes the smallest
  block that is large enough and splits it down; the supply of an order is the number of blocks of this order
  that can be split off, and an allocation lowers it by what the new block covers, or by one.
\<close>

definition aalloc :: "freelists \<Rightarrow> nat \<Rightarrow> (nat \<times> freelists) option" where
  "aalloc F k = (case find (\<lambda>j. F j \<noteq> []) [k..<21] of None \<Rightarrow> None
     | Some j \<Rightarrow> Some (hd (F j), asplit k j (F(j := tl (F j))) (hd (F j))))"

definition avail :: "freelists \<Rightarrow> nat \<Rightarrow> nat" where
  "avail F i = (\<Sum>j = i..<21. length (F j) * 2 ^ (j - i))"

definition cost :: "nat \<Rightarrow> nat \<Rightarrow> nat" where
  "cost k i = (if i \<le> k then 2 ^ (k - i) else 1)"

lemma find_upt_eq:
  assumes "k \<le> j" "j < n" "P j" "\<And>i. k \<le> i \<Longrightarrow> i < j \<Longrightarrow> \<not> P i"
  shows "find P [k..<n] = Some j"
  using assms by (auto simp: find_Some_iff intro!: exI [of _ "j - k"])

lemma find_upt_SomeD:
  assumes "find P [k..<n] = Some j"
  shows "k \<le> j" "j < n" "P j" "\<And>i. k \<le> i \<Longrightarrow> i < j \<Longrightarrow> \<not> P i"
proof -
  obtain l where l: "l < n - k" "P (k + l)" "j = k + l" "\<forall>i<l. \<not> P (k + i)"
    using assms by (auto simp: find_Some_iff)
  then show "k \<le> j" "j < n" "P j" by simp_all
  show "\<not> P i" if "k \<le> i" "i < j" for i using l(3,4) that le_Suc_ex [OF that(1)] by auto
qed

lemma avail_upd:
  assumes "j < 21"
  shows "avail (F(j := xs)) i + (if i \<le> j then length (F j) * 2 ^ (j - i) else 0) =
    avail F i + (if i \<le> j then length xs * 2 ^ (j - i) else 0)"
proof (cases "i \<le> j")
  case True
  then have "avail G i = length (G j) * 2 ^ (j - i) + (\<Sum>l\<in>{i..<21} - {j}. length (G l) * 2 ^ (l - i))" for G
    unfolding avail_def using assms by (intro sum.remove) auto
  moreover have "(\<Sum>l\<in>{i..<21} - {j}. length ((F(j := xs)) l) * 2 ^ (l - i)) = (\<Sum>l\<in>{i..<21} - {j}. length (F l) * 2 ^ (l - i))"
    by (intro sum.cong) auto
  ultimately show ?thesis using True by simp
next
  case False
  then show ?thesis by (auto simp: avail_def intro!: sum.cong)
qed

lemma avail_asplit:
  assumes "k \<le> j" "j < 21"
  shows "avail (asplit k j F p) i + (if i \<le> j then cost k i else 0) = avail F i + (if i \<le> j then 2 ^ (j - i) else 0)"
  using assms
proof (induction j arbitrary: F)
  case 0
  then show ?case by (simp add: cost_def)
next
  case (Suc j)
  show ?case
  proof (cases "k = Suc j")
    case True
    then show ?thesis by (simp add: cost_def)
  next
    case False
    define G where "G = F(j := (p + 2 ^ j) # F j)"
    have kj: "k \<le> j" "j < 21" using Suc.prems False by simp_all
    have e: "asplit k (Suc j) F p = asplit k j G p" using kj(1) by (simp add: G_def)
    have u: "avail G i = avail F i + (if i \<le> j then 2 ^ (j - i) else 0)"
      using avail_upd [OF kj(2), of F "(p + 2 ^ j) # F j" i] by (simp add: G_def split: if_splits)
    note IH = Suc.IH [OF kj, of G]
    consider "i \<le> j" | "i = Suc j" | "Suc j < i" by linarith
    then show ?thesis unfolding e using IH u kj(1) by cases (simp_all add: cost_def Suc_diff_le)
  qed
qed

lemma avail_nonempty:
  assumes "0 < avail F i"
  shows "\<exists>j. i \<le> j \<and> j < 21 \<and> F j \<noteq> []"
proof (rule ccontr)
  assume "\<not> ?thesis"
  then have "avail F i = 0" by (auto simp: avail_def)
  then show False using assms by simp
qed

lemma aalloc_eq:
  assumes "k \<le> j" "j < 21" "F j = p # ps" "\<And>i. k \<le> i \<Longrightarrow> i < j \<Longrightarrow> F i = []"
  shows "aalloc F k = Some (p, asplit k j (F(j := ps)) p)"
proof -
  have "find (\<lambda>j. F j \<noteq> []) [k..<21] = Some j" using assms by (intro find_upt_eq) auto
  then show ?thesis using assms(3) by (simp add: aalloc_def)
qed

lemma aallocE:
  assumes "aalloc F k = Some (p, F')"
  obtains j ps where "k \<le> j" "j < 21" "F j = p # ps" "\<And>i. k \<le> i \<Longrightarrow> i < j \<Longrightarrow> F i = []"
    "F' = asplit k j (F(j := ps)) p"
proof -
  obtain j where j: "find (\<lambda>j. F j \<noteq> []) [k..<21] = Some j" "p = hd (F j)" "F' = asplit k j (F(j := tl (F j))) (hd (F j))"
    using assms by (auto simp: aalloc_def split: option.splits)
  then show thesis using find_upt_SomeD [OF j(1)] by (intro that [of j "tl (F j)"]) auto
qed

text \<open>A request for order \<open>k\<close> is met when something of this order or a larger one can be split off.\<close>

lemma aalloc_met:
  assumes "0 < avail F i" "k \<le> i"
  shows "\<exists>j. k \<le> j \<and> j < 21 \<and> F j \<noteq> []"
  using avail_nonempty [OF assms(1)] assms(2) order_trans by blast

lemma aalloc_avail:
  assumes "aalloc F k = Some (p, F')"
  shows "avail F i \<le> avail F' i + cost k i" "avail F' 0 + 2 ^ k = avail F 0"
proof -
  obtain j ps where j: "k \<le> j" "j < 21" "F j = p # ps" "F' = asplit k j (F(j := ps)) p"
    using assms by (rule aallocE)
  have "avail F i \<le> avail F' i + cost k i \<and> avail F' i + (if i \<le> j then cost k i else 0) = avail F i" for i
    using avail_asplit [OF j(1,2), of "F(j := ps)" p i] avail_upd [OF j(2), of F ps i] j(3,4)
    by (cases "i \<le> j") simp_all
  from this [of i] this [of 0] show "avail F i \<le> avail F' i + cost k i" "avail F' 0 + 2 ^ k = avail F 0"
    by (simp_all add: cost_def)
qed

text \<open>The blocks of an initial state are the binary digits of its number of pages.\<close>

lemma avail_ainit:
  assumes "rem < 2 ^ k" "k \<le> 21"
  shows "avail (ainit k rem off F) i = avail F i + rem div 2 ^ i"
  using assms
proof (induction k arbitrary: rem off F)
  case (Suc k)
  show ?case
  proof (cases "2 ^ k \<le> rem")
    case False
    then show ?thesis using Suc by simp
  next
    case True
    define G where "G = F(k := off # F k)"
    have "avail G i = avail F i + (if i \<le> k then 2 ^ (k - i) else 0)"
      using avail_upd [of k F "off # F k" i] Suc.prems(2) by (simp add: G_def split: if_splits)
    moreover have "avail (ainit k (rem - 2 ^ k) (off + 2 ^ k) G) i = avail G i + (rem - 2 ^ k) div 2 ^ i"
      using Suc.prems by (intro Suc.IH) auto
    moreover have "(if i \<le> k then 2 ^ (k - i) else 0) + (rem - 2 ^ k) div 2 ^ i = rem div 2 ^ i"
    proof (cases "i \<le> k")
      case i: True
      then have "rem = rem - 2 ^ k + 2 ^ (k - i) * 2 ^ i" using True by (simp flip: power_add)
      then have "rem div 2 ^ i = 2 ^ (k - i) + (rem - 2 ^ k) div 2 ^ i" by (metis div_mult_self1 power_not_zero zero_neq_numeral)
      then show ?thesis using i by simp
    next
      case False
      then have "rem < 2 ^ i" using Suc.prems(1) power_increasing [of "Suc k" i "2 :: nat"] by simp
      then show ?thesis using False by simp
    qed
    ultimately show ?thesis using True by (simp add: G_def)
  qed
qed simp

text \<open>
  Single pages come from the smallest blocks, so \<open>s\<close> blocks of an order survive as long as more pages than
  these blocks have are free.
\<close>

lemma avail_page:
  assumes a: "aalloc F 0 = Some (p, F')" and i: "i < 21" and s: "s \<le> avail F i" "s * 2 ^ i < avail F 0"
  shows "s \<le> avail F' i"
proof -
  obtain j ps where j: "j < 21" "F j = p # ps" "\<And>l. l < j \<Longrightarrow> F l = []" "F' = asplit 0 j (F(j := ps)) p"
    using a by (rule aallocE) auto
  have e: "avail F' i + (if i \<le> j then cost 0 i else 0) = avail F i"
    using avail_asplit [of 0 j "F(j := ps)" p i] avail_upd [OF j(1), of F ps i] j(1,2,4) by (cases "i \<le> j") simp_all
  show ?thesis
  proof (cases "i \<le> j")
    case False
    then show ?thesis using e s by simp
  next
    case True
    have "avail F 0 = (\<Sum>l = i..<21. length (F l) * 2 ^ l)"
      unfolding avail_def using j(3) True i by (intro sum.mono_neutral_cong_right) auto
    also have "\<dots> = (\<Sum>l = i..<21. length (F l) * 2 ^ (l - i) * 2 ^ i)"
      by (intro sum.cong) (simp_all flip: power_add)
    also have "\<dots> = avail F i * 2 ^ i" by (simp add: avail_def sum_distrib_right)
    finally have "s < avail F i" using s(2) by simp
    then show ?thesis using e True by (auto simp: cost_def split: if_splits)
  qed
qed


end
