(* ===== verification/Buddy_Ops.thy ===== *)
theory Buddy_Ops
  imports Buddy_Lists Buddy_Supply
begin

text \<open>
  Correctness of \<open>buddy_init\<close>, \<open>buddy_alloc\<close> and \<open>buddy_free\<close>: under the invariant
  \<open>binv\<close> each of them returns, changes the free lists as the page-level functions of
  \<open>Buddy_Abs\<close> do, keeps the invariant and writes to free pages only.
\<close>

definition binv ::
  "u64 \<Rightarrow> nat \<Rightarrow> nat \<Rightarrow> buddy_allocator \<Rightarrow> mem \<Rightarrow> freelists \<Rightarrow> block set \<Rightarrow> bool" where
  "binv B S N alloc m F A \<longleftrightarrow> base_ok B S N \<and> vram_at m B S \<and> vram_base alloc = B \<and>
     wf_lists N F A \<and> (\<forall>k<21. dll m B 0 (free_list alloc k) (F k))"

definition used_pages :: "block set \<Rightarrow> nat set" where
  "used_pages A = (\<Union>b\<in>A. pages b)"

lemma binvD:
  assumes "binv B S N alloc m F A"
  shows "base_ok B S N" "vram_at m B S" "vram_base alloc = B" "wf_lists N F A"
    "k < 21 \<Longrightarrow> dll m B 0 (free_list alloc k) (F k)"
  using assms by (auto simp: binv_def)

subsection \<open>Words and pages\<close>

lemma block_bytes_nat: "block_bytes k = word_of_nat (4096 * 2 ^ k)"
  by (simp add: block_bytes_def PAGE_SIZE_def push_bit_eq_mult)

lemma unat_block_bytes: "k < 52 \<Longrightarrow> unat (block_bytes k) = 4096 * 2 ^ k"
proof -
  assume "k < 52"
  then have "(2 :: nat) ^ k < 2 ^ 52" by (intro power_strict_increasing) auto
  then show ?thesis unfolding block_bytes_nat by (intro unat_of_nat64) simp
qed

lemma nd_add_block: "nd B p + block_bytes k = nd B (p + 2 ^ k)"
  by (simp add: nd_def block_bytes_nat algebra_simps)

lemma nd_offset: "word_of_nat (4096 * p) + B = nd B p"
  by (simp add: nd_def)

lemma nd_minus_base: "nd B p - B = word_of_nat (4096 * p)"
  by (simp add: nd_def)

lemma page_div: "p < 2 ^ 52 \<Longrightarrow> unat (word_of_nat (4096 * p) div PAGE_SIZE :: u64) = p"
proof -
  assume "p < 2 ^ 52"
  then have "unat (word_of_nat (4096 * p) :: u64) = 4096 * p" by (intro unat_of_nat64) simp
  then show ?thesis by (simp add: unat_div PAGE_SIZE_def)
qed

lemma xor_block:
  assumes "p < 2 ^ 52" "k < 52"
  shows "(word_of_nat (4096 * p) :: u64) XOR block_bytes k = word_of_nat (4096 * (p XOR 2 ^ k))"
proof -
  have k: "(2 :: nat) ^ k < 2 ^ 52" using assms(2) by (intro power_strict_increasing) auto
  have u: "unat (word_of_nat (4096 * p) :: u64) = 4096 * p"
    using assms(1) by (intro unat_of_nat64) simp
  have "unat ((word_of_nat (4096 * p) :: u64) XOR block_bytes k) = 4096 * p XOR 4096 * 2 ^ k"
    unfolding unat_xor64 u unat_block_bytes [OF assms(2)] ..
  also have "\<dots> = 4096 * (p XOR 2 ^ k)"
    using xor_scale_nat [of p 12 "2 ^ k"] by (simp add: mult.commute)
  finally have "word_of_nat (unat ((word_of_nat (4096 * p) :: u64) XOR block_bytes k)) =
      (word_of_nat (4096 * (p XOR 2 ^ k)) :: u64)" by simp
  then show ?thesis by (simp del: of_nat_mult)
qed

lemma xor_bound: "p < 2 ^ n \<Longrightarrow> k < n \<Longrightarrow> (p :: nat) XOR 2 ^ k < 2 ^ n"
proof -
  assume "p < 2 ^ n" "k < n"
  then have "take_bit n p = p" "take_bit n (2 ^ k :: nat) = 2 ^ k"
    by (simp_all add: take_bit_nat_eq_self)
  then have "take_bit n (p XOR 2 ^ k) = p XOR 2 ^ k" by (simp add: take_bit_xor)
  then show ?thesis by (metis take_bit_nat_less_exp)
qed

lemma min_of_nat64:
  assumes "a < 2 ^ 64" "b < 2 ^ 64"
  shows "min (word_of_nat a :: u64) (word_of_nat b) = word_of_nat (min a b)"
  using assms by (simp add: min_def word_le_nat_alt unat_of_nat64)

lemma small_order: "k < 21 \<Longrightarrow> unat (word_of_nat k :: u8) = k"
  by (simp add: unat_of_nat)

lemma first_page_free:
  assumes w: "wf_lists N F A" and b: "b \<in> A" and x: "x \<in> pages b" and k: "k < 21"
  shows "x \<notin> set (F k)"
proof
  assume "x \<in> set (F k)"
  then have "(x, k) \<in> fblocks F" using k by (simp add: fblocks_def)
  then have "pages (x, k) \<inter> pages b = {}"
    using wf_lists_disjoint [OF w, of "(x, k)" b] b wf_listsD(3) [OF w] by blast
  then show False using x first_in_pages [of x k] by blast
qed

lemma list_pages_free:
  assumes "wf_lists N F A" "k < 21"
  shows "set (F k) \<subseteq> {..<N} - used_pages A"
proof
  fix p assume "p \<in> set (F k)"
  then have "(p, k) \<in> fblocks F" using assms by (simp add: fblocks_def)
  then have "p \<in> (\<Union>b\<in>fblocks F. pages b)" using first_in_pages by blast
  then show "p \<in> {..<N} - used_pages A" using free_pages [OF assms(1)] by (simp add: used_pages_def)
qed

lemma pending_pages_free:
  assumes "wf_lists N F (insert b A)" "b \<notin> A"
  shows "pages b \<subseteq> {..<N} - used_pages A"
proof -
  have "pages b \<inter> pages c = {}" if "c \<in> A" for c
    using wf_lists_disjoint [OF assms(1), of b c] assms(2) that by blast
  moreover have "pages b \<subseteq> {..<N}"
    using tilingD(3) [OF wf_listsD(4) [OF assms(1)]] by blast
  ultimately show ?thesis unfolding used_pages_def by blast
qed

subsection \<open>Hanging a node into a list\<close>

lemma push_node_dll:
  assumes ok: "base_ok B S N" and v: "vram_at m B S" and p: "p < N" and k: "k < 21"
    and l: "\<And>j. j < 21 \<Longrightarrow> dll m B 0 (free_list alloc j) (F j)"
    and b: "\<And>j. j < 21 \<Longrightarrow> set (F j) \<subseteq> {..<N} \<and> p \<notin> set (F j)"
    and d: "distinct (F k)"
    and dis: "\<And>j. j < 21 \<Longrightarrow> j \<noteq> k \<Longrightarrow> set (F j) \<inter> set (F k) = {}"
  obtains m' where
    "push_node alloc m k (nd B p) = Some (alloc\<lparr>free_list := (free_list alloc)(k := nd B p)\<rparr>, m')"
    "\<And>j. j < 21 \<Longrightarrow> dll m' B 0 (((free_list alloc)(k := nd B p)) j) ((F(k := p # F k)) j)"
    "vram_at m' B S" "pframe B (insert p (set (F k))) m m'"
proof -
  let ?h = "free_list alloc k"
  define m2 where "m2 = put64 (put64 m (nd B p) 0) (nd B p + 8) ?h"
  define m3 where "m3 = (if ?h \<noteq> 0 then put64 m2 ?h (nd B p) else m2)"
  note acc = node_access [OF _ ok]
  have v1: "vram_at (put64 m (nd B p) 0) B S" using acc(5) [OF v p] .
  have v2: "vram_at m2 B S" unfolding m2_def using acc(6) [OF v1 p] .
  have h: "?h = 0 \<or> (\<exists>q\<in>set (F k). ?h = nd B q \<and> q < N)"
    using l [OF k] b [OF k] by (cases "F k") auto
  have v3: "vram_at m3 B S" unfolding m3_def using h v2 acc(5) [OF v2] by auto
  have last: "(if ?h \<noteq> NULL then set_prev m2 ?h (nd B p) else Some m2) = Some m3"
    unfolding m3_def NULL_def using h acc(3) [OF v2] by auto
  have "push_node alloc m k (nd B p) = Some (alloc\<lparr>free_list := (free_list alloc)(k := nd B p)\<rparr>, m3)"
    unfolding push_node_def
    using acc(3) [OF v p] acc(4) [OF v1 p] last k
    by (simp add: fl_get_def fl_set_def BUDDY_MAX_ORDER_def NULL_def m2_def [symmetric]
        split del: if_split)
  moreover have fr: "pframe B (insert p (set (F k))) m m3"
  proof -
    have "pframe B (insert p (set (F k))) m (put64 m (nd B p) 0)"
      using node_bound [OF ok p] by (intro pframe_put64) auto
    moreover have "pframe B (insert p (set (F k))) (put64 m (nd B p) 0) m2"
      unfolding m2_def using node_bound [OF ok p] by (intro pframe_put64) auto
    moreover have "pframe B (insert p (set (F k))) m2 m3"
      unfolding m3_def using h node_bound [OF ok] by (auto intro!: pframe_put64)
    ultimately show ?thesis by (auto simp: pframe_def)
  qed
  moreover have "dll m3 B 0 (((free_list alloc)(k := nd B p)) j) ((F(k := p # F k)) j)" if j: "j < 21" for j
  proof (cases "j = k")
    case True
    have "dll m3 B 0 (nd B p) (p # F k)"
      unfolding m3_def using b [OF k] by (intro dll_push [OF ok l [OF k] p _ _ d m2_def]) auto
    then show ?thesis using True by simp
  next
    case False
    have "set (F j) \<subseteq> {..<2 ^ 20}" using b [OF j] node_bound [OF ok] by auto
    moreover have "set (F j) \<inter> insert p (set (F k)) = {}" using b [OF j] dis [OF j False] by auto
    ultimately show ?thesis using dll_pframe [OF fr] l [OF j] False by simp
  qed
  ultimately show thesis using v3 by (rule_tac that) auto
qed

subsection \<open>Initialisation\<close>

lemma buddy_init_loop_refines:
  assumes ok: "base_ok B S N" and "vram_at m B S" "k \<le> 21"
    "\<And>j. j < 21 \<Longrightarrow> dll m B 0 (free_list alloc j) (F j)"
    "\<And>j. j < k \<Longrightarrow> F j = []" "\<And>j p. j < 21 \<Longrightarrow> p \<in> set (F j) \<Longrightarrow> p < off"
    "off + rem = N" "sub < 4096"
  shows "\<exists>alloc' m'. buddy_init_loop B k alloc m (word_of_nat (4096 * rem + sub))
        (word_of_nat (4096 * off)) = Some (alloc', m') \<and>
      (\<forall>j<21. dll m' B 0 (free_list alloc' j) (ainit k rem off F j)) \<and> vram_at m' B S \<and>
      vram_base alloc' = vram_base alloc \<and> page_order alloc' = page_order alloc \<and>
      pframe B {..<N} m m'"
  using assms(2-)
proof (induction k arbitrary: alloc m F rem off)
  case 0
  then show ?case by simp
next
  case (Suc k)
  have N20: "N \<le> 2 ^ 20" using base_okD(4) [OF ok] .
  have k: "k < 52" "k < 21" using Suc.prems(2) by simp_all
  have ur: "unat (word_of_nat (4096 * rem + sub) :: u64) = 4096 * rem + sub"
    using Suc.prems(6,7) N20 by (intro unat_of_nat64) simp
  have cmp: "block_bytes k \<le> word_of_nat (4096 * rem + sub) \<longleftrightarrow> 2 ^ k \<le> rem"
    unfolding word_le_nat_alt unat_block_bytes [OF k(1)] ur using Suc.prems(7) by linarith
  show ?case
  proof (cases "2 ^ k \<le> rem")
    case False
    have "\<exists>alloc' m'. buddy_init_loop B k alloc m (word_of_nat (4096 * rem + sub))
        (word_of_nat (4096 * off)) = Some (alloc', m') \<and>
      (\<forall>j<21. dll m' B 0 (free_list alloc' j) (ainit k rem off F j)) \<and> vram_at m' B S \<and>
      vram_base alloc' = vram_base alloc \<and> page_order alloc' = page_order alloc \<and>
      pframe B {..<N} m m'"
      using Suc.prems by (intro Suc.IH) auto
    then show ?thesis using False cmp by (simp add: Let_def del: of_nat_add of_nat_mult)
  next
    case True
    have off: "off < N" using True Suc.prems(6) zero_less_power [of "2 :: nat" k] by linarith
    have Fk: "F k = []" using Suc.prems(4) by simp
    have bnd: "set (F j) \<subseteq> {..<N} \<and> off \<notin> set (F j)" if "j < 21" for j
      using Suc.prems(5) [OF that] off by fastforce
    obtain m1 where p1: "push_node alloc m k (nd B off) =
          Some (alloc\<lparr>free_list := (free_list alloc)(k := nd B off)\<rparr>, m1)"
      and l1: "\<And>j. j < 21 \<Longrightarrow>
          dll m1 B 0 (((free_list alloc)(k := nd B off)) j) ((F(k := off # F k)) j)"
      and v1: "vram_at m1 B S" and f1: "pframe B (insert off (set (F k))) m m1"
      using push_node_dll [OF ok Suc.prems(1) off k(2) Suc.prems(3) bnd] Fk by auto
    let ?a1 = "alloc\<lparr>free_list := (free_list alloc)(k := nd B off)\<rparr>"
    let ?F1 = "F(k := off # F k)"
    have rem': "word_of_nat (4096 * rem + sub) - block_bytes k =
        (word_of_nat (4096 * (rem - 2 ^ k) + sub) :: u64)"
      unfolding block_bytes_nat using True by (simp add: of_nat_diff algebra_simps)
    have off': "word_of_nat (4096 * off) + block_bytes k = (word_of_nat (4096 * (off + 2 ^ k)) :: u64)"
      unfolding block_bytes_nat by (simp add: algebra_simps)
    have "\<exists>alloc' m'. buddy_init_loop B k ?a1 m1 (word_of_nat (4096 * (rem - 2 ^ k) + sub))
        (word_of_nat (4096 * (off + 2 ^ k))) = Some (alloc', m') \<and>
      (\<forall>j<21. dll m' B 0 (free_list alloc' j) (ainit k (rem - 2 ^ k) (off + 2 ^ k) ?F1 j)) \<and>
      vram_at m' B S \<and> vram_base alloc' = vram_base ?a1 \<and> page_order alloc' = page_order ?a1 \<and>
      pframe B {..<N} m1 m'"
    proof (rule Suc.IH [OF v1])
      show "dll m1 B 0 (free_list ?a1 j) (?F1 j)" if "j < 21" for j using l1 [OF that] by simp
      show "p < off + 2 ^ k" if "j < 21" "p \<in> set (?F1 j)" for j p
        using that Suc.prems(5) [of j p] by (auto split: if_splits)
    qed (use Suc.prems True in auto)
    moreover have "pframe B {..<N} m m1" using f1 off Fk by (auto intro: pframe_mono)
    ultimately show ?thesis
      using True cmp p1 rem' off' nd_offset [of off B]
      by (auto simp: Let_def add.commute pframe_def simp del: of_nat_add of_nat_mult)
  qed
qed

theorem buddy_init_correct:
  assumes ok: "base_ok B S N" and v: "vram_at m B S" and sz: "vsize = word_of_nat (4096 * N + sub)"
    and sub: "sub < 4096"
  obtains alloc m' where "buddy_init m B vsize = Some (0, alloc, m')"
    "binv B S N alloc m' (ainit 21 N 0 (\<lambda>_. [])) {}" "page_order alloc = (\<lambda>_. 0)"
    "pframe B {..<N} m m'"
proof -
  let ?a = "\<lparr>free_list = (\<lambda>_. NULL), page_order = (\<lambda>_. 0), vram_base = B\<rparr>"
  have "\<exists>alloc' m'. buddy_init_loop B 21 ?a m (word_of_nat (4096 * N + sub))
        (word_of_nat (4096 * 0)) = Some (alloc', m') \<and>
      (\<forall>j<21. dll m' B 0 (free_list alloc' j) (ainit 21 N 0 (\<lambda>_. []) j)) \<and> vram_at m' B S \<and>
      vram_base alloc' = vram_base ?a \<and> page_order alloc' = page_order ?a \<and>
      pframe B {..<N} m m'"
    using sub by (intro buddy_init_loop_refines [OF ok v]) (auto simp: NULL_def)
  then obtain alloc' m' where r: "buddy_init_loop B 21 ?a m vsize 0 = Some (alloc', m')"
    and l: "\<forall>j<21. dll m' B 0 (free_list alloc' j) (ainit 21 N 0 (\<lambda>_. []) j)"
    and v': "vram_at m' B S" and b: "vram_base alloc' = B" and po: "page_order alloc' = (\<lambda>_. 0)"
    and f: "pframe B {..<N} m m'"
    unfolding sz by auto
  have "buddy_init m B vsize = Some (0, alloc', m')"
    using r by (simp add: buddy_init_def BUDDY_MAX_ORDER_def)
  moreover have "binv B S N alloc' m' (ainit 21 N 0 (\<lambda>_. [])) {}"
    unfolding binv_def using ok v' b ainit_wf [OF base_okD(4) [OF ok]] l by simp
  ultimately show thesis using po f by (rule that)
qed

subsection \<open>Allocation\<close>

lemma find_order_spec:
  "order \<le> 21 \<Longrightarrow> order \<le> find_order sz order \<and> find_order sz order \<le> 21 \<and>
    (find_order sz order < 21 \<longrightarrow> unat sz \<le> 4096 * 2 ^ find_order sz order) \<and>
    (\<forall>j. order \<le> j \<and> j < find_order sz order \<longrightarrow> 4096 * 2 ^ j < unat sz)"
proof (induction sz order rule: find_order.induct)
  case (1 sz order)
  show ?case
  proof (cases "order < BUDDY_MAX_ORDER \<and> \<not> block_bytes order \<ge> sz")
    case True
    have o: "order < 21" using True by (simp add: BUDDY_MAX_ORDER_def)
    have lt: "4096 * 2 ^ order < unat sz"
      using True unat_block_bytes [of order] o by (simp add: word_le_nat_alt)
    have "j = order \<or> Suc order \<le> j" if "order \<le> j" for j using that by auto
    then show ?thesis
      using "1.IH" [OF True] o lt unfolding find_order.simps [of sz order] if_P [OF True] by fastforce
  next
    case False
    have "unat sz \<le> 4096 * 2 ^ order" if "order < 21"
      using False that unat_block_bytes [of order]
      by (simp add: BUDDY_MAX_ORDER_def word_le_nat_alt)
    then show ?thesis
      using "1.prems" unfolding find_order.simps [of sz order] if_not_P [OF False] by auto
  qed
qed

lemma find_nonempty_spec:
  "i \<le> 21 \<Longrightarrow> i \<le> find_nonempty alloc i \<and> find_nonempty alloc i \<le> 21 \<and>
    (find_nonempty alloc i < 21 \<longrightarrow> free_list alloc (find_nonempty alloc i) \<noteq> 0) \<and>
    (\<forall>j. i \<le> j \<and> j < find_nonempty alloc i \<longrightarrow> free_list alloc j = 0)"
proof (induction alloc i rule: find_nonempty.induct)
  case (1 alloc i)
  show ?case
  proof (cases "i < BUDDY_MAX_ORDER \<and> free_list alloc i = NULL")
    case True
    have o: "i < 21" "free_list alloc i = 0"
      using True by (simp_all add: BUDDY_MAX_ORDER_def NULL_def)
    have "j = i \<or> Suc i \<le> j" if "i \<le> j" for j using that by auto
    then show ?thesis
      using "1.IH" [OF True] o unfolding find_nonempty.simps [of alloc i] if_P [OF True]
      by fastforce
  next
    case False
    then show ?thesis
      using "1.prems" unfolding find_nonempty.simps [of alloc i] if_not_P [OF False]
      by (auto simp: BUDDY_MAX_ORDER_def NULL_def)
  qed
qed

lemma lists_disjoint:
  assumes w: "wf_lists N F A" and "j < 21" "k < 21" "j \<noteq> k"
  shows "set (F j) \<inter> set (F k) = {}"
proof -
  have "p \<notin> set (F k)" if "p \<in> set (F j)" for p
  proof
    assume "p \<in> set (F k)"
    then have "(p, j) \<in> fblocks F" "(p, k) \<in> fblocks F" using that assms by (simp_all add: fblocks_def)
    then have "pages (p, j) \<inter> pages (p, k) = {}"
      using wf_lists_disjoint [OF w, of "(p, j)" "(p, k)"] assms(4) by simp
    then show False using first_in_pages [of p j] first_in_pages [of p k] by blast
  qed
  then show ?thesis by blast
qed

lemma push_node_binv:
  assumes i: "binv B S N alloc m F A" and b: "b \<in> A" "p \<in> pages b" and k: "k < 21"
  obtains m' where
    "push_node alloc m k (nd B p) = Some (alloc\<lparr>free_list := (free_list alloc)(k := nd B p)\<rparr>, m')"
    "\<And>j. j < 21 \<Longrightarrow> dll m' B 0 (((free_list alloc)(k := nd B p)) j) ((F(k := p # F k)) j)"
    "vram_at m' B S" "pframe B (insert p (set (F k))) m m'"
proof (rule push_node_dll [of B S N m p k alloc F])
  note w = binvD(4) [OF i]
  show "p < N" using tilingD(3) [OF wf_listsD(4) [OF w]] b by blast
  show "set (F j) \<subseteq> {..<N} \<and> p \<notin> set (F j)" if "j < 21" for j
    using first_page_free [OF w b that] wf_lists_list_bound [OF w that] by blast
  show "distinct (F k)" using w by (rule wf_listsD)
  show "set (F j) \<inter> set (F k) = {}" if "j < 21" "j \<noteq> k" for j
    using lists_disjoint [OF w that(1) k that(2)] .
qed (use binvD [OF i] k that in auto)

lemma split_down_refines:
  assumes "binv B S N alloc m F (insert (p, i) A)" "(p, i) \<notin> A" "order \<le> i"
  shows "\<exists>alloc' m'. split_down order i alloc m (nd B p) = Some (alloc', m') \<and>
    binv B S N alloc' m' (asplit order i F p) (insert (p, order) A) \<and>
    page_order alloc' = page_order alloc \<and> pframe B ({..<N} - used_pages A) m m'"
  using assms
proof (induction i arbitrary: alloc m F)
  case 0
  then show ?case by simp
next
  case (Suc i)
  show ?case
  proof (cases "order < Suc i")
    case False
    then have "order = Suc i" using Suc.prems(3) by simp
    then show ?thesis using Suc.prems(1) by simp
  next
    case True
    note w = binvD(4) [OF Suc.prems(1)]
    have i: "i < 21" using wf_lists_fblock(1) [OF w, of p "Suc i"] by simp
    let ?q = "p + 2 ^ i"
    have q: "?q \<in> pages (p, Suc i)" by (simp add: pages_def)
    obtain m1 where p1: "push_node alloc m i (nd B ?q) =
          Some (alloc\<lparr>free_list := (free_list alloc)(i := nd B ?q)\<rparr>, m1)"
      and l1: "\<And>j. j < 21 \<Longrightarrow>
          dll m1 B 0 (((free_list alloc)(i := nd B ?q)) j) ((F(i := ?q # F i)) j)"
      and v1: "vram_at m1 B S" and f1: "pframe B (insert ?q (set (F i))) m m1"
      using push_node_binv [OF Suc.prems(1) insertI1 q i] by blast
    let ?a1 = "alloc\<lparr>free_list := (free_list alloc)(i := nd B ?q)\<rparr>"
    have i1: "binv B S N ?a1 m1 (F(i := ?q # F i)) (insert (p, i) A)"
      using binvD(1-3) [OF Suc.prems(1)] v1 l1 wf_lists_push_split(1) [OF w Suc.prems(2)]
      by (simp add: binv_def)
    have "?q \<in> {..<N} - used_pages A"
      using pending_pages_free [OF w Suc.prems(2)] q by blast
    moreover have "set (F i) \<subseteq> {..<N} - used_pages A"
      using list_pages_free [OF w i] by (auto simp: used_pages_def)
    ultimately have f: "pframe B ({..<N} - used_pages A) m m1"
      using f1 by (auto intro: pframe_mono)
    have "order \<le> i" using True by simp
    then obtain alloc' m' where
      r: "split_down order i ?a1 m1 (nd B p) = Some (alloc', m')"
      "binv B S N alloc' m' (asplit order i (F(i := ?q # F i)) p) (insert (p, order) A)"
      "page_order alloc' = page_order ?a1" "pframe B ({..<N} - used_pages A) m1 m'"
      using Suc.IH [OF i1 wf_lists_push_split(2) [OF w Suc.prems(2)]] by blast
    have "pframe B ({..<N} - used_pages A) m m'" using f r(4) by (simp add: pframe_def)
    then show ?thesis using True p1 r by (simp add: nd_add_block)
  qed
qed

lemma pop_binv:
  assumes i: "binv B S N alloc m F A" and k: "k < 21" and ne: "free_list alloc k \<noteq> 0"
  obtains p ps m' where "F k = p # ps" "free_list alloc k = nd B p" "p < N"
    "node_next m (nd B p) = Some (get64 m (nd B p + 8))"
    "(if get64 m (nd B p + 8) \<noteq> NULL then set_prev m (get64 m (nd B p + 8)) NULL else Some m) = Some m'"
    "binv B S N (alloc\<lparr>free_list := (free_list alloc)(k := get64 m (nd B p + 8))\<rparr>) m'
       (F(k := ps)) (insert (p, k) A)"
    "pframe B ({..<N} - used_pages A) m m'"
proof -
  note ok = binvD(1) [OF i] and v = binvD(2) [OF i] and w = binvD(4) [OF i] and l = binvD(5) [OF i]
  obtain p ps where F: "F k = p # ps" using l [OF k] ne by (cases "F k") auto
  have sub: "set (F k) \<subseteq> {..<N}" using wf_lists_list_bound [OF w k] by blast
  have h: "free_list alloc k = nd B p" and p: "p < N" using l [OF k] F sub by auto
  have d: "distinct (p # ps)" using wf_listsD(2) [OF w, of k] F by simp
  let ?n = "get64 m (nd B p + 8)"
  define m' where "m' = (if ?n \<noteq> 0 then put64 m ?n 0 else m)"
  have lp: "dll m B (nd B p) ?n ps" using l [OF k] F by simp
  have n: "?n = 0 \<or> (\<exists>q\<in>set (F k). ?n = nd B q \<and> q < N)" using lp sub F by (cases ps) auto
  have st: "(if ?n \<noteq> NULL then set_prev m ?n NULL else Some m) = Some m'"
    unfolding m'_def NULL_def using n node_access(3) [OF v ok] by auto
  have v': "vram_at m' B S" unfolding m'_def using n v node_access(5) [OF v ok] by auto
  have f: "pframe B (set (F k)) m m'"
    unfolding m'_def using n node_bound [OF ok] by (auto intro!: pframe_put64)
  have "dll m' B 0 (((free_list alloc)(k := ?n)) j) ((F(k := ps)) j)" if j: "j < 21" for j
  proof (cases "j = k")
    case True
    then show ?thesis
      unfolding m'_def using dll_relink_head [OF ok lp, of 0] d sub F by simp
  next
    case False
    have "set (F j) \<subseteq> {..<2 ^ 20}" using wf_lists_list_bound [OF w j] node_bound [OF ok] by blast
    then show ?thesis
      using dll_pframe [OF f lists_disjoint [OF w j k False]] l [OF j] False by simp
  qed
  then have "binv B S N (alloc\<lparr>free_list := (free_list alloc)(k := ?n)\<rparr>) m' (F(k := ps)) (insert (p, k) A)"
    using ok v' binvD(3) [OF i] wf_lists_pop(1) [OF w k F] by (simp add: binv_def)
  moreover have "pframe B ({..<N} - used_pages A) m m'"
    using f list_pages_free [OF w k] by (rule pframe_mono)
  ultimately show thesis
    using F h p node_access(2) [OF v ok p] st by (intro that) auto
qed

theorem buddy_alloc_correct:
  assumes i: "binv B S N alloc m F A" and order: "order = find_order sz 0"
    and room: "order < 21" "\<exists>j. order \<le> j \<and> j < 21 \<and> F j \<noteq> []"
  obtains p F' alloc' m' where
    "buddy_alloc alloc m sz = Some (word_of_nat (4096 * p), alloc', m')"
    "binv B S N alloc' m' F' (insert (p, order) A)" "(p, order) \<notin> A"
    "page_order alloc' = (page_order alloc)(p := word_of_nat order)"
    "pframe B ({..<N} - used_pages A) m m'" "unat sz \<le> 4096 * 2 ^ order" "aalloc F order = Some (p, F')"
proof -
  let ?i = "find_nonempty alloc order"
  note fn = find_nonempty_spec [of order alloc]
  note ok = binvD(1) [OF i] and w = binvD(4) [OF i]
  have null: "free_list alloc j = 0 \<longleftrightarrow> F j = []" if "j < 21" for j
    using dll_head_null [OF binvD(5) [OF i that] ok] wf_lists_list_bound [OF w that] by blast
  have i21: "?i < 21" "order \<le> ?i" "free_list alloc ?i \<noteq> 0"
    using fn room null by (metis le_neq_implies_less less_or_eq_imp_le not_less)+
  obtain p ps m1 where F: "F ?i = p # ps" and h: "free_list alloc ?i = nd B p" and p: "p < N"
    and nx: "node_next m (nd B p) = Some (get64 m (nd B p + 8))"
    and st: "(if get64 m (nd B p + 8) \<noteq> NULL then set_prev m (get64 m (nd B p + 8)) NULL else Some m) = Some m1"
    and i1: "binv B S N (alloc\<lparr>free_list := (free_list alloc)(?i := get64 m (nd B p + 8))\<rparr>) m1
       (F(?i := ps)) (insert (p, ?i) A)"
    and f1: "pframe B ({..<N} - used_pages A) m m1"
    using pop_binv [OF i i21(1,3)] by metis
  let ?a1 = "alloc\<lparr>free_list := (free_list alloc)(?i := get64 m (nd B p + 8))\<rparr>"
  have nA: "(p, ?i) \<notin> A" using wf_lists_pop(2) [OF w i21(1) F] .
  obtain a2 m2 where s: "split_down order ?i ?a1 m1 (nd B p) = Some (a2, m2)"
    and i2: "binv B S N a2 m2 (asplit order ?i (F(?i := ps)) p) (insert (p, order) A)"
    and po: "page_order a2 = page_order ?a1" and f2: "pframe B ({..<N} - used_pages A) m1 m2"
    using split_down_refines [OF i1 nA i21(2)] by blast
  let ?a3 = "a2\<lparr>page_order := (page_order a2)(p := word_of_nat order)\<rparr>"
  have p52: "p < 2 ^ 52" "p < BUDDY_TOTAL_PAGES"
    using node_bound [OF ok p] by (simp_all add: BUDDY_TOTAL_PAGES_def)
  have i3: "binv B S N ?a3 m2 (asplit order ?i (F(?i := ps)) p) (insert (p, order) A)"
    using i2 by (simp add: binv_def)
  have "buddy_alloc alloc m sz = Some (word_of_nat (4096 * p), ?a3, m2)"
    unfolding buddy_alloc_def order [symmetric] Let_def
    using room(1) i21 h nx st s p52 binvD(3) [OF i2] page_div [OF p52(1)]
    by (simp add: BUDDY_MAX_ORDER_def fl_get_def fl_set_def po_set_def nd_minus_base
        split del: if_split del: of_nat_mult)
  moreover have "(p, order) \<notin> A"
    using asplit_wf [OF binvD(4) [OF i1] nA i21(2)] by simp
  moreover have "pframe B ({..<N} - used_pages A) m m2" using f1 f2 by (simp add: pframe_def)
  moreover have "unat sz \<le> 4096 * 2 ^ order" using find_order_spec [of 0 sz] room(1) order by simp
  moreover have "aalloc F order = Some (p, asplit order ?i (F(?i := ps)) p)"
    using fn null room(1) i21(1) by (intro aalloc_eq [where F = F, OF i21(2,1) F]) auto
  ultimately show thesis using i3 po by (intro that) auto
qed

theorem buddy_alloc_full:
  assumes i: "binv B S N alloc m F A" and order: "order = find_order sz 0"
    and full: "order = 21 \<or> (\<forall>j. order \<le> j \<and> j < 21 \<longrightarrow> F j = [])"
  shows "buddy_alloc alloc m sz = Some (-1, alloc, m)"
proof (cases "order = 21")
  case True
  then show ?thesis by (simp add: buddy_alloc_def order [symmetric] BUDDY_MAX_ORDER_def)
next
  case False
  have o: "order \<le> 21" using find_order_spec [of 0 sz] order by simp
  have "free_list alloc j = 0" if "order \<le> j" "j < 21" for j
    using full False that binvD(5) [OF i that(2)] by auto
  then have "find_nonempty alloc order = 21"
    using find_nonempty_spec [OF o, of alloc] by (metis le_neq_implies_less)
  then show ?thesis
    using False by (simp add: buddy_alloc_def order [symmetric] BUDDY_MAX_ORDER_def Let_def)
qed

subsection \<open>Release\<close>

lemma hang_back_eq_push:
  assumes "push_node alloc m k node = Some r" "k < 21"
    "mapped m (node + 8) 8"
  shows "hang_back alloc m k node = Some r"
proof -
  have "node_next m1 node = Some h"
    if "set_prev m node NULL = Some m0" "set_next m0 node h = Some m1" for m0 m1 h
    using that assms(3)
    by (auto simp: node_next_def set_prev_def set_next_def store64_def load64_def mapped_put64
        get64_put64_same split: if_splits)
  then show ?thesis
    using assms(1,2) unfolding push_node_def hang_back_def
    by (auto simp: Option.bind_eq_Some_conv fl_get_def fl_set_def BUDDY_MAX_ORDER_def
        split del: if_split)
qed

lemma unlink_binv:
  assumes i: "binv B S N alloc m F A" and k: "k < 21" and q: "q \<in> set (F k)"
  obtains alloc' m' where "unlink alloc m k (nd B q) = Some (alloc', m')"
    "\<And>j. j < 21 \<Longrightarrow> dll m' B 0 (free_list alloc' j) ((F(k := remove1 q (F k))) j)"
    "vram_at m' B S" "vram_base alloc' = B" "page_order alloc' = page_order alloc"
    "pframe B ({..<N} - used_pages A) m m'"
proof -
  note ok = binvD(1) [OF i] and v = binvD(2) [OF i] and w = binvD(4) [OF i] and l = binvD(5) [OF i]
  obtain xs ys where F: "F k = xs @ q # ys" "q \<notin> set xs" using split_list_first [OF q] by auto
  have sub: "set (F k) \<subseteq> {..<N}" using wf_lists_list_bound [OF w k] by blast
  have d: "distinct (xs @ q # ys)" using wf_listsD(2) [OF w, of k] F by simp
  have rem: "remove1 q (F k) = xs @ ys" using F by (simp add: remove1_append)
  have qN: "q < N" using q sub by blast
  let ?n = "get64 m (nd B q + 8)" and ?pr = "get64 m (nd B q)"
  have lk: "dll m B 0 (free_list alloc k) (xs @ q # ys)" using l [OF k] F by simp
  have pr: "?pr = (if xs = [] then 0 else nd B (last xs))" using dll_middle(1) [OF lk] .
  have ly: "dll m B (nd B q) ?n ys" using dll_middle(2) [OF lk] .
  have n: "?n = 0 \<or> (\<exists>y\<in>set ys. ?n = nd B y \<and> y \<noteq> q \<and> y < N)"
    using ly d sub F by (cases ys) auto
  have lx: "last xs \<in> set (F k) \<and> last xs < N \<and> last xs \<noteq> q" if "xs \<noteq> []"
    using last_in_set [OF that] F sub d by auto
  define m1 where "m1 = (if xs = [] then m else put64 m (nd B (last xs) + 8) ?n)"
  define a1 where "a1 = (if xs = [] then alloc\<lparr>free_list := (free_list alloc)(k := ?n)\<rparr> else alloc)"
  define m2 where "m2 = (if ?n \<noteq> 0 then put64 m1 ?n ?pr else m1)"
  have v1: "vram_at m1 B S" unfolding m1_def using v lx node_access(6) [OF v ok] by auto
  have v2: "vram_at m2 B S" unfolding m2_def using v1 n node_access(5) [OF v1 ok] by auto
  have same: "get64 m1 (nd B q) = ?pr" "get64 m1 (nd B q + 8) = ?n"
    unfolding m1_def using lx node_bound [OF ok] qN by (auto simp: node_simps)
  have s1: "(if ?pr \<noteq> NULL then do { m \<leftarrow> set_next m ?pr ?n; Some (alloc, m) }
      else do { alloc \<leftarrow> fl_set alloc k ?n; Some (alloc, m) }) = Some (a1, m1)"
    unfolding pr m1_def a1_def NULL_def fl_set_def using k lx nd_nonzero [OF ok] node_access(4) [OF v ok]
    by (auto simp: BUDDY_MAX_ORDER_def)
  have s2: "(if ?n \<noteq> NULL then set_prev m1 ?n ?pr else Some m1) = Some m2"
    unfolding m2_def NULL_def using n node_access(3) [OF v1 ok] by auto
  have "unlink alloc m k (nd B q) = Some (a1, m2)"
    unfolding unlink_def using node_access(1,2) [OF v ok qN] node_access(1,2) [OF v1 ok qN] s1 s2 same
    by (simp split del: if_split)
  moreover have f: "pframe B (set (F k)) m m2"
  proof -
    have "pframe B (set (F k)) m m1"
      unfolding m1_def using lx node_bound [OF ok] by (auto intro!: pframe_put64)
    moreover have "pframe B (set (F k)) m1 m2"
      unfolding m2_def using n F node_bound [OF ok] by (auto intro!: pframe_put64)
    ultimately show ?thesis by (simp add: pframe_def)
  qed
  moreover have "dll m2 B 0 (free_list a1 j) ((F(k := remove1 q (F k))) j)" if j: "j < 21" for j
  proof (cases "j = k")
    case False
    have "set (F j) \<subseteq> {..<2 ^ 20}" using wf_lists_list_bound [OF w j] node_bound [OF ok] by blast
    then show ?thesis
      using dll_pframe [OF f lists_disjoint [OF w j k False]] l [OF j] False by (simp add: a1_def)
  next
    case True
    have b: "set (xs @ q # ys) \<subseteq> {..<N}" using sub F by simp
    show ?thesis
    proof (cases "xs = []")
      case True
      then show ?thesis
        using dll_relink_head [OF ok ly, of 0] d b \<open>j = k\<close> rem pr
        by (simp add: m2_def m1_def a1_def split: if_splits)
    next
      case False
      then show ?thesis
        using dll_unlink [OF ok lk False d b refl refl] \<open>j = k\<close> rem pr
        by (simp add: m2_def m1_def a1_def split: if_splits)
    qed
  qed
  moreover have "pframe B ({..<N} - used_pages A) m m2"
    using f list_pages_free [OF w k] by (rule pframe_mono)
  moreover have "vram_base a1 = B" "page_order a1 = page_order alloc"
    using binvD(3) [OF i] by (simp_all add: a1_def)
  ultimately show thesis using v2 by (intro that [of a1 m2])
qed

text \<open>What a call does first: it finds the order of the block, and whether its buddy is free.\<close>

lemma buddy_free_branches:
  assumes i: "binv B S N alloc m F (insert (p, k) A)" and po: "page_order alloc p = word_of_nat k"
  shows "buddy_free alloc m (word_of_nat (4096 * p)) =
    (if p XOR 2 ^ k \<in> set (F k) then do {
       (alloc, m) \<leftarrow> unlink alloc m k (nd B (p XOR 2 ^ k));
       alloc \<leftarrow> po_set alloc (word_of_nat (4096 * min p (p XOR 2 ^ k)) div PAGE_SIZE) (word_of_nat (k + 1));
       (_, alloc, m) \<leftarrow> buddy_free alloc m (word_of_nat (4096 * min p (p XOR 2 ^ k)));
       Some (0, alloc, m) }
     else do {
       (alloc, m) \<leftarrow> hang_back alloc m k (nd B p);
       Some (0, alloc, m) })"
proof -
  note ok = binvD(1) [OF i] and v = binvD(2) [OF i] and w = binvD(4) [OF i]
  have k: "k < 21" and p: "p < N" using wf_lists_fblock [OF w, of p k] by auto
  let ?q = "p XOR 2 ^ k"
  have p20: "p < 2 ^ 20" using node_bound [OF ok p] .
  then have p52: "p < 2 ^ 52" by simp
  have q52: "?q < 2 ^ 52" using xor_bound [of p 52 k] p52 k by simp
  have find: "find_temp m (nd B ?q) (free_list alloc k) = Some (if ?q \<in> set (F k) then nd B ?q else 0)"
    using dll_find [OF ok v binvD(5) [OF i k] _ q52] wf_lists_list_bound [OF w k] by blast
  have start: "po_get alloc (word_of_nat (4096 * p) div PAGE_SIZE) = Some (word_of_nat k)"
    using page_div [OF p52] p20 po by (simp add: po_get_def BUDDY_TOTAL_PAGES_def)
  have off: "word_of_nat (4096 * p) XOR block_bytes k = (word_of_nat (4096 * ?q) :: u64)"
    using xor_block [OF p52] k by simp
  have mo: "min (word_of_nat (4096 * p)) (word_of_nat (4096 * ?q)) = (word_of_nat (4096 * min p ?q) :: u64)"
    using min_of_nat64 [of "4096 * p" "4096 * ?q"] p52 q52 by (simp add: min_def del: of_nat_mult)
  have nz: "nd B ?q \<noteq> 0" if "?q \<in> set (F k)" using nd_nonzero [OF ok wf_lists_list_bound [OF w k that]] .
  show ?thesis
    unfolding buddy_free.simps [of alloc m] using k nz
    by (simp add: start small_order [OF k] off nd_offset find binvD(3) [OF i] NULL_def mo fl_get_def BUDDY_MAX_ORDER_def Let_def
        del: of_nat_mult of_nat_Suc)
qed

text \<open>A block whose buddy is in use is hung into the list of its order.\<close>

lemma hang_back_binv:
  assumes i: "binv B S N alloc m F (insert (p, k) A)" and n: "(p, k) \<notin> A" and q: "p XOR 2 ^ k \<notin> set (F k)"
  obtains alloc' m' where "hang_back alloc m k (nd B p) = Some (alloc', m')" "binv B S N alloc' m' (F(k := p # F k)) A"
    "page_order alloc' = page_order alloc" "pframe B ({..<N} - used_pages A) m m'"
proof -
  note ok = binvD(1) [OF i] and v = binvD(2) [OF i] and w = binvD(4) [OF i]
  have k: "k < 21" and p: "p < N" using wf_lists_fblock [OF w, of p k] by auto
  obtain m1 where p1: "push_node alloc m k (nd B p) = Some (alloc\<lparr>free_list := (free_list alloc)(k := nd B p)\<rparr>, m1)"
    and l1: "\<And>j. j < 21 \<Longrightarrow> dll m1 B 0 (((free_list alloc)(k := nd B p)) j) ((F(k := p # F k)) j)"
    and v1: "vram_at m1 B S" and f1: "pframe B (insert p (set (F k))) m m1"
    using push_node_binv [OF i insertI1 first_in_pages k] by blast
  let ?a1 = "alloc\<lparr>free_list := (free_list alloc)(k := nd B p)\<rparr>"
  have "hang_back alloc m k (nd B p) = Some (?a1, m1)"
    using hang_back_eq_push [OF p1 k node_mapped(2) [OF v ok p]] .
  moreover have "binv B S N ?a1 m1 (F(k := p # F k)) A"
    using ok v1 l1 binvD(3) [OF i] wf_lists_push_free [OF w n q] by (simp add: binv_def)
  moreover have "{..<N} - used_pages (insert (p, k) A) \<subseteq> {..<N} - used_pages A" by (auto simp: used_pages_def)
  then have "insert p (set (F k)) \<subseteq> {..<N} - used_pages A"
    using pending_pages_free [OF w n] list_pages_free [OF w k] first_in_pages [of p k] by blast
  then have "pframe B ({..<N} - used_pages A) m m1" by (rule pframe_mono [OF f1])
  ultimately show thesis by (intro that [of ?a1 m1]) simp_all
qed

text \<open>A free buddy is taken out of its list, and the two are one block of the next order.\<close>

lemma merge_binv:
  assumes i: "binv B S N alloc m F (insert (p, k) A)" and n: "(p, k) \<notin> A" and q: "p XOR 2 ^ k \<in> set (F k)"
  obtains alloc1 alloc2 m' where "unlink alloc m k (nd B (p XOR 2 ^ k)) = Some (alloc1, m')"
    "po_set alloc1 (word_of_nat (4096 * min p (p XOR 2 ^ k)) div PAGE_SIZE) (word_of_nat (k + 1)) = Some alloc2"
    "binv B S N alloc2 m' (F(k := remove1 (p XOR 2 ^ k) (F k))) (insert (min p (p XOR 2 ^ k), Suc k) A)"
    "page_order alloc2 = (page_order alloc)(min p (p XOR 2 ^ k) := word_of_nat (Suc k))"
    "pframe B ({..<N} - used_pages A) m m'"
proof -
  note ok = binvD(1) [OF i] and w = binvD(4) [OF i]
  let ?q = "p XOR 2 ^ k" let ?r = "min p ?q"
  have k: "k < 21" using wf_lists_fblock [OF w, of p k] by auto
  obtain a1 m1 where u: "unlink alloc m k (nd B ?q) = Some (a1, m1)"
    and l1: "\<And>j. j < 21 \<Longrightarrow> dll m1 B 0 (free_list a1 j) ((F(k := remove1 ?q (F k))) j)"
    and v1: "vram_at m1 B S" and b1: "vram_base a1 = B" and po1: "page_order a1 = page_order alloc"
    and f1: "pframe B ({..<N} - used_pages (insert (p, k) A)) m m1"
    using unlink_binv [OF i k q] by blast
  let ?a2 = "a1\<lparr>page_order := (page_order a1)(?r := word_of_nat (Suc k))\<rparr>"
  have "?q < N" using wf_lists_list_bound [OF w k q] .
  then have r: "?r < 2 ^ 20" using node_bound [OF ok] by (simp add: min_less_iff_disj)
  have "po_set a1 (word_of_nat (4096 * ?r) div PAGE_SIZE) (word_of_nat (k + 1)) = Some ?a2"
    using page_div [of ?r] r by (simp add: po_set_def BUDDY_TOTAL_PAGES_def del: of_nat_mult)
  moreover have "binv B S N ?a2 m1 (F(k := remove1 ?q (F k))) (insert (?r, Suc k) A)"
    using ok v1 l1 b1 wf_lists_merge_step(1) [OF w n k q] by (simp add: binv_def)
  moreover have "pframe B ({..<N} - used_pages A) m m1" using f1 by (rule pframe_mono) (auto simp: used_pages_def)
  ultimately show thesis using u po1 by (intro that [of a1 m1 ?a2]) simp_all
qed

theorem buddy_free_correct:
  assumes "binv B S N alloc m F (insert (p, k) A)" "(p, k) \<notin> A"
    "page_order alloc p = word_of_nat k"
  shows "\<exists>alloc' m'. buddy_free alloc m (word_of_nat (4096 * p)) = Some (0, alloc', m') \<and>
    binv B S N alloc' m' (afree F p k) A \<and>
    (\<forall>x. x \<notin> {..<N} - used_pages A \<longrightarrow> page_order alloc' x = page_order alloc x) \<and>
    pframe B ({..<N} - used_pages A) m m'"
  using assms
proof (induction F p k arbitrary: alloc m rule: afree.induct)
  case (1 F p k)
  note i = "1.prems"(1) and n = "1.prems"(2)
  note w = binvD(4) [OF i] and br = buddy_free_branches [OF i "1.prems"(3)]
  have k: "k < 21" using wf_lists_fblock [OF w, of p k] by auto
  let ?q = "p XOR 2 ^ k" let ?r = "min p ?q"
  show ?case
  proof (cases "?q \<in> set (F k)")
    case False
    obtain a1 m1 where h: "hang_back alloc m k (nd B p) = Some (a1, m1)" "binv B S N a1 m1 (F(k := p # F k)) A"
      "page_order a1 = page_order alloc" "pframe B ({..<N} - used_pages A) m m1"
      by (rule hang_back_binv [OF i n False]) (rule that)
    have "afree F p k = F(k := p # F k)" using False by (subst afree.simps) simp
    then show ?thesis using False h br by (simp del: fun_upd_apply of_nat_mult)
  next
    case True
    then have c: "k < 21 \<and> ?q \<in> set (F k)" using k by simp
    note ms = wf_lists_merge_step(2) [OF w n k True]
    obtain a1 a2 m1 where u: "unlink alloc m k (nd B ?q) = Some (a1, m1)"
      "po_set a1 (word_of_nat (4096 * ?r) div PAGE_SIZE) (word_of_nat (k + 1)) = Some a2"
      and i2: "binv B S N a2 m1 (F(k := remove1 ?q (F k))) (insert (?r, Suc k) A)"
      and po: "page_order a2 = (page_order alloc)(?r := word_of_nat (Suc k))"
      and f1: "pframe B ({..<N} - used_pages A) m m1"
      by (rule merge_binv [OF i n True]) (rule that)
    have po2: "page_order a2 ?r = word_of_nat (Suc k)" by (simp add: po)
    obtain alloc' m' where
      r: "buddy_free a2 m1 (word_of_nat (4096 * ?r)) = Some (0, alloc', m')"
        "binv B S N alloc' m' (afree (F(k := remove1 ?q (F k))) ?r (Suc k)) A"
        "\<forall>x. x \<notin> {..<N} - used_pages A \<longrightarrow> page_order alloc' x = page_order a2 x"
        "pframe B ({..<N} - used_pages A) m1 m'"
      using "1.IH" [OF c i2 ms po2] by blast
    have "buddy_free alloc m (word_of_nat (4096 * p)) = Some (0, alloc', m')"
      using br True u r(1) by (simp del: of_nat_mult of_nat_Suc)
    moreover have "afree F p k = afree (F(k := remove1 ?q (F k))) ?r (Suc k)" using c by (subst afree.simps) simp
    moreover have "pframe B ({..<N} - used_pages A) m m'" using f1 r(4) by (simp add: pframe_def)
    moreover have "?r \<in> {..<N} - used_pages A"
      using pending_pages_free [OF binvD(4) [OF i2] ms] first_in_pages [of ?r "Suc k"] by blast
    ultimately show ?thesis using r(2,3) po by auto
  qed
qed

end
