(* ===== verification/Slab_Lists.thy ===== *)
theory Slab_Lists
  imports Slab Buddy_Ops
begin

text \<open>
  The slots of a slab cache: the singly linked list of free slots in the memory as a list of
  byte offsets, the slots of a page, and what the loops of \<open>lib/src/slab_cache.c\<close> do to the
  list: threading the slots of a fresh page, and taking the slots of one page out.
\<close>

fun sll :: "mem \<Rightarrow> u64 \<Rightarrow> u64 \<Rightarrow> nat list \<Rightarrow> bool" where
  "sll m B h [] \<longleftrightarrow> h = 0"
| "sll m B h (x # xs) \<longleftrightarrow> h = ofs B x \<and> sll m B (get64 m (ofs B x)) xs"

definition slots_of :: "nat \<Rightarrow> nat \<Rightarrow> nat set" where
  "slots_of osz P = (\<lambda>i. 4096 * P + i * osz) ` {..<4096 div osz}"

definition slot_bytes :: "nat \<Rightarrow> nat set \<Rightarrow> nat set" where
  "slot_bytes osz X = (\<Union>x\<in>X. {x ..< x + osz})"

definition cnt :: "nat list \<Rightarrow> nat \<Rightarrow> nat" where
  "cnt L P = length (filter (\<lambda>x. x div 4096 = P) L)"

text \<open>Slots of pages below \<open>N\<close> that do not overlap.\<close>

definition slot_set :: "nat \<Rightarrow> nat \<Rightarrow> nat set \<Rightarrow> bool" where
  "slot_set N osz X \<longleftrightarrow> (\<forall>x\<in>X. \<exists>P<N. x \<in> slots_of osz P)"

subsection \<open>Slots\<close>

lemma slots_of_page:
  assumes "x \<in> slots_of osz P" "8 \<le> osz"
  shows "4096 * P \<le> x" "x + osz \<le> 4096 * P + 4096" "x div 4096 = P"
proof -
  obtain i where i: "i < 4096 div osz" "x = 4096 * P + i * osz"
    using assms by (auto simp: slots_of_def)
  have "(i + 1) * osz \<le> (4096 div osz) * osz" using i(1) by (intro mult_le_mono1) simp
  also have "\<dots> \<le> 4096" by (rule div_times_less_eq_dividend)
  finally have le: "i * osz + osz \<le> 4096" by simp
  then show "4096 * P \<le> x" "x + osz \<le> 4096 * P + 4096" using i(2) by simp_all
  then show "x div 4096 = P" using assms(2) by (intro div_nat_eqI) auto
qed

lemma slots_of_disjoint:
  assumes "x \<in> slots_of osz P" "y \<in> slots_of osz Q" "x \<noteq> y" "8 \<le> osz"
  shows "x + osz \<le> y \<or> y + osz \<le> x"
proof (cases "P = Q")
  case True
  obtain i j where ij: "x = 4096 * P + i * osz" "y = 4096 * P + j * osz"
    using assms True by (auto simp: slots_of_def)
  then have "i \<noteq> j" using assms by auto
  then have "(i + 1) * osz \<le> j * osz \<or> (j + 1) * osz \<le> i * osz"
    by (metis Suc_eq_plus1 less_eq_Suc_le linorder_neqE_nat mult_le_mono1)
  then show ?thesis using ij by auto
next
  case False
  then consider "P + 1 \<le> Q" | "Q + 1 \<le> P" by linarith
  then show ?thesis
  proof cases
    case 1
    then have "4096 * (P + 1) \<le> 4096 * Q" by (rule mult_le_mono2)
    then show ?thesis
      using slots_of_page(2) [OF assms(1,4)] slots_of_page(1) [OF assms(2,4)] by simp
  next
    case 2
    then have "4096 * (Q + 1) \<le> 4096 * P" by (rule mult_le_mono2)
    then show ?thesis
      using slots_of_page(2) [OF assms(2,4)] slots_of_page(1) [OF assms(1,4)] by simp
  qed
qed

lemma card_slots_of: "0 < osz \<Longrightarrow> card (slots_of osz P) = 4096 div osz"
  unfolding slots_of_def by (subst card_image) (auto simp: inj_on_def)

lemma finite_slots_of [simp]: "finite (slots_of osz P)"
  by (simp add: slots_of_def)

lemma cnt_le:
  assumes "distinct L" "set L \<subseteq> (\<Union>P\<in>X. slots_of osz P)" "8 \<le> osz"
  shows "cnt L P \<le> 4096 div osz"
    and "cnt L P = 4096 div osz \<Longrightarrow> slots_of osz P \<subseteq> set L"
proof -
  let ?F = "{x \<in> set L. x div 4096 = P}"
  have c: "cnt L P = card ?F"
    unfolding cnt_def using assms(1) distinct_length_filter [of L] by (simp add: Int_def conj_commute)
  have sub: "?F \<subseteq> slots_of osz P" using assms(2,3) slots_of_page(3) by fastforce
  have o: "0 < osz" using assms(3) by simp
  show "cnt L P \<le> 4096 div osz"
    unfolding c card_slots_of [OF o, of P, symmetric] using sub by (intro card_mono) auto
  assume "cnt L P = 4096 div osz"
  then have "?F = slots_of osz P"
    using sub by (intro card_subset_eq) (simp_all add: c card_slots_of [OF o])
  then show "slots_of osz P \<subseteq> set L" by blast
qed

lemma page_of_nat:
  assumes "x < 2 ^ 64"
  shows "page_of (word_of_nat x) = word_of_nat (4096 * (x div 4096))"
proof -
  have m: "PAGE_SIZE - 1 = (mask 12 :: u64)" by (simp add: PAGE_SIZE_def mask_eq_exp_minus_1)
  have "page_of (word_of_nat x) = push_bit 12 (drop_bit 12 (word_of_nat x))"
    unfolding page_of_def m by (simp add: bit_eq_iff bit_simps) auto
  also have "\<dots> = word_of_nat (4096 * (x div 4096))"
  proof -
    have u: "unat (word_of_nat x :: u64) = x" using assms by (rule unat_of_nat64)
    have "unat (drop_bit 12 (word_of_nat x :: u64)) = x div 4096"
      unfolding unat_drop_bit_eq u by (simp add: drop_bit_eq_div)
    then have "word_of_nat (unat (drop_bit 12 (word_of_nat x :: u64))) = (word_of_nat (x div 4096) :: u64)"
      by simp
    then have "drop_bit 12 (word_of_nat x :: u64) = word_of_nat (x div 4096)"
      by (simp only: of_nat_unat ucast_id)
    then show ?thesis by (simp add: push_bit_eq_mult)
  qed
  finally show ?thesis .
qed

subsection \<open>The list of free slots\<close>

text \<open>Link fields that do not overlap and lie below \<open>S\<close>.\<close>

definition sep :: "nat \<Rightarrow> nat set \<Rightarrow> bool" where
  "sep S X \<longleftrightarrow> (\<forall>x\<in>X. x + 8 \<le> S) \<and> (\<forall>x\<in>X. \<forall>y\<in>X. x \<noteq> y \<longrightarrow> x + 8 \<le> y \<or> y + 8 \<le> x)"

lemma sepD:
  "sep S X \<Longrightarrow> x \<in> X \<Longrightarrow> x + 8 \<le> S"
  "sep S X \<Longrightarrow> x \<in> X \<Longrightarrow> y \<in> X \<Longrightarrow> x \<noteq> y \<Longrightarrow> x + 8 \<le> y \<or> y + 8 \<le> x"
  unfolding sep_def by blast+

lemma sep_mono: "sep S X \<Longrightarrow> Y \<subseteq> X \<Longrightarrow> sep S Y"
  unfolding sep_def by (simp add: subset_iff)

lemma sep_le: "sep S X \<Longrightarrow> S \<le> T \<Longrightarrow> sep T X"
  unfolding sep_def by (meson le_trans)

lemma sll_cong:
  "(\<And>x. x \<in> set L \<Longrightarrow> get64 m' (ofs B x) = get64 m (ofs B x)) \<Longrightarrow> sll m' B h L = sll m B h L"
  by (induction L arbitrary: h) auto

lemma sll_bframe:
  assumes "bframe B X m m'" "\<And>x. x \<in> set L \<Longrightarrow> {x ..< x + 8} \<inter> X = {}"
    "\<And>x. x \<in> set L \<Longrightarrow> x + 8 \<le> 2 ^ 64"
  shows "sll m' B h L = sll m B h L"
  using assms by (intro sll_cong bframe_get64) auto

lemma sll_put_other:
  assumes "sep (2 ^ 64) (insert x (set L))" "x \<notin> set L"
  shows "sll (put64 m (ofs B x) v) B h L = sll m B h L"
proof (rule sll_cong)
  fix y assume y: "y \<in> set L"
  then have "x \<noteq> y" using assms(2) by auto
  then show "get64 (put64 m (ofs B x) v) (ofs B y) = get64 m (ofs B y)"
    using y sepD(1) [OF assms(1), of x] sepD(1) [OF assms(1), of y] sepD(2) [OF assms(1), of x y]
    by (intro get64_put64_other) auto
qed

lemma sll_drop_head: "sll m B h (K @ x # R) \<Longrightarrow> sll m B (get64 m (ofs B x)) R"
  by (induction K arbitrary: h) auto

lemma sll_remove:
  assumes "sll m B h (K @ x # R)" "K \<noteq> []" "distinct (K @ x # R)"
    "sep (2 ^ 64) (set (K @ x # R))"
  shows "sll (put64 m (ofs B (last K)) (get64 m (ofs B x))) B h (K @ R)"
  using assms
proof (induction K arbitrary: h)
  case Nil
  then show ?case by simp
next
  case (Cons k K)
  show ?case
  proof (cases "K = []")
    case True
    have "sll (put64 m (ofs B k) (get64 m (ofs B x))) B (get64 m (ofs B x)) R"
    proof (subst sll_put_other)
      show "sep (2 ^ 64) (insert k (set R))" by (rule sep_mono [OF Cons.prems(4)]) auto
    qed (use Cons.prems(1,3) True in auto)
    then show ?thesis using Cons.prems(1) True by (simp add: get64_put64_same)
  next
    case False
    have l: "last K \<in> set K" "last K \<noteq> k" using False Cons.prems(3) last_in_set [OF False] by auto
    have "k + 8 \<le> last K \<or> last K + 8 \<le> k" "k + 8 \<le> 2 ^ 64" "last K + 8 \<le> 2 ^ 64"
      using l sepD [OF Cons.prems(4)] by auto
    then have "get64 (put64 m (ofs B (last K)) (get64 m (ofs B x))) (ofs B k) = get64 m (ofs B k)"
      by (intro get64_put64_other) auto
    moreover have "sll (put64 m (ofs B (last K)) (get64 m (ofs B x))) B (get64 m (ofs B k)) (K @ R)"
      using Cons.prems(1,3) False sep_mono [OF Cons.prems(4), of "set (K @ x # R)"]
      by (intro Cons.IH) auto
    ultimately show ?thesis using Cons.prems(1) False by simp
  qed
qed

lemma slot_mapped:
  "vram_at m B S \<Longrightarrow> base_ok B S N \<Longrightarrow> x + 8 \<le> S \<Longrightarrow> mapped m (ofs B x) 8"
  using vram_mapped base_okD(5) by blast

lemma slot_nonzero: "base_ok B S N \<Longrightarrow> x < S \<Longrightarrow> ofs B x \<noteq> 0"
  using base_okD(1,2) [of B S N] by (intro ofs_nonzero) auto

lemma sll_head_null:
  "sll m B h L \<Longrightarrow> base_ok B S N \<Longrightarrow> (\<And>x. x \<in> set L \<Longrightarrow> x < S) \<Longrightarrow> h = 0 \<longleftrightarrow> L = []"
  by (cases L) (auto simp: slot_nonzero)

lemma page_range:
  assumes ok: "base_ok B S N" and P: "P < N" and x: "x < S"
  shows "nd B P \<le> ofs B x \<and> ofs B x < nd B P + PAGE_SIZE \<longleftrightarrow> x div 4096 = P"
proof -
  have le: "4096 * P + 4096 \<le> S" using P base_okD(3) [OF ok] by linarith
  have hi: "nd B P + PAGE_SIZE = ofs B (4096 * P + 4096)" by (simp add: nd_def PAGE_SIZE_def)
  have u: "unat (nd B P) = unat B + 4096 * P" "unat (ofs B x) = unat B + x"
    "unat (nd B P + PAGE_SIZE) = unat B + (4096 * P + 4096)"
    unfolding hi unfolding nd_def using le x base_okD(2) [OF ok] by (intro unat_ofs; linarith)+
  have "4096 * P \<le> x \<and> x < 4096 * P + 4096 \<longleftrightarrow> x div 4096 = P" by auto
  then show ?thesis unfolding word_le_nat_alt word_less_nat_alt u by simp
qed

subsection \<open>The loops over the list\<close>

lemma page_slots_bframe:
  assumes "x \<in> slots_of osz P" "8 \<le> osz" "P < 2 ^ 20"
  shows "bframe B (page_bytes {P}) m (put64 m (ofs B x) v)"
proof (rule bframe_put64)
  note r = slots_of_page [OF assms(1,2)]
  show "x + 8 \<le> 2 ^ 64" using r(2) assms by simp
  show "{x..<x + 8} \<subseteq> page_bytes {P}"
  proof
    fix y assume "y \<in> {x..<x + 8}"
    then have "y div 4096 = P" using r(1,2) assms(2) by (intro div_nat_eqI) auto
    then show "y \<in> page_bytes {P}" by (simp add: page_bytes_def)
  qed
qed

lemma thread_slots_list:
  assumes ok: "base_ok B S N" and P: "P < N" and osz: "8 \<le> osz"
  shows "vram_at m B S \<Longrightarrow> i + n \<le> 4096 div osz \<Longrightarrow> sll m B h L \<Longrightarrow>
    sep S (set L \<union> (\<lambda>j. 4096 * P + j * osz) ` {i ..< i + n}) \<Longrightarrow>
    set L \<inter> (\<lambda>j. 4096 * P + j * osz) ` {i ..< i + n} = {} \<Longrightarrow>
    \<exists>m' h'. thread_slots (nd B P) (word_of_nat osz) i n m h = Some (m', h') \<and>
      sll m' B h' (rev (map (\<lambda>j. 4096 * P + j * osz) [i ..< i + n]) @ L) \<and>
      vram_at m' B S \<and> bframe B (page_bytes {P}) m m'"
proof (induction n arbitrary: i m h L)
  case 0
  then show ?case by simp
next
  case (Suc n)
  let ?f = "\<lambda>j. 4096 * P + j * osz"
  let ?x = "?f i" and ?m1 = "put64 m (ofs B (?f i)) h"
  have xs: "?x \<in> slots_of osz P" using Suc.prems(2) by (auto simp: slots_of_def)
  have S64: "S \<le> 2 ^ 64" using base_okD(5) [OF ok] .
  have x8: "?x + 8 \<le> S" by (rule sepD(1) [OF Suc.prems(4)]) auto
  have mp: "mapped m (ofs B ?x) 8" using slot_mapped [OF Suc.prems(1) ok x8] .
  have node: "nd B P + word_of_nat i * word_of_nat osz = ofs B ?x" by (simp add: nd_def)
  have sep64: "sep (2 ^ 64) (insert ?x (set L))"
  proof -
    have "insert ?x (set L) \<subseteq> set L \<union> ?f ` {i ..< i + Suc n}" by auto
    from sep_le [OF sep_mono [OF Suc.prems(4) this] S64] show ?thesis .
  qed
  have "?x \<in> ?f ` {i ..< i + Suc n}" by (rule imageI) simp
  then have xL: "?x \<notin> set L" using Suc.prems(5) by blast
  have l1: "sll ?m1 B (ofs B ?x) (?x # L)"
    using sll_put_other [OF sep64 xL] Suc.prems(3) by (simp add: get64_put64_same)
  have v1: "vram_at ?m1 B S" using Suc.prems(1) mp by (simp add: vram_at_put64)
  have sub: "set (?x # L) \<union> ?f ` {Suc i ..< Suc i + n} \<subseteq> set L \<union> ?f ` {i ..< i + Suc n}"
    by auto
  have dis: "set (?x # L) \<inter> ?f ` {Suc i ..< Suc i + n} = {}"
    using Suc.prems(5) osz by auto
  have le: "Suc i + n \<le> 4096 div osz" using Suc.prems(2) by simp
  obtain m' h' where r: "thread_slots (nd B P) (word_of_nat osz) (Suc i) n ?m1 (ofs B ?x) = Some (m', h')"
      "sll m' B h' (rev (map ?f [Suc i ..< Suc i + n]) @ ?x # L)" "vram_at m' B S"
      "bframe B (page_bytes {P}) ?m1 m'"
    using Suc.IH [OF v1 le l1 sep_mono [OF Suc.prems(4) sub] dis] by blast
  have "bframe B (page_bytes {P}) m ?m1"
    using page_slots_bframe [OF xs osz node_bound [OF ok P]] .
  then have "bframe B (page_bytes {P}) m m'" using r(4) by (rule bframe_trans)
  moreover have "rev (map ?f [i ..< i + Suc n]) @ L = rev (map ?f [Suc i ..< Suc i + n]) @ ?x # L"
    by (subst upt_rec) simp
  moreover have "thread_slots (nd B P) (word_of_nat osz) i (Suc n) m h = Some (m', h')"
    unfolding thread_slots.simps node Let_def using r(1) mp by (simp only: store64_def if_True bind.bind_lunit)
  ultimately show ?case using r(2,3) by metis
qed

lemma slot_bytes_put64:
  "x \<in> X \<Longrightarrow> x + 8 \<le> 2 ^ 64 \<Longrightarrow> bframe B (slot_bytes 8 X) m (put64 m (ofs B x) v)"
  by (rule bframe_put64) (auto simp: slot_bytes_def)

text \<open>Taking the slot behind \<open>last K\<close> out of a list.\<close>

lemma relink_over:
  assumes ok: "base_ok B S N" and v: "vram_at m B S" and l: "sll m B head (K @ x # R)" "sll m B (get64 m (ofs B x)) R"
    and K: "K \<noteq> []" "distinct (K @ x # R)" "sep S (set (K @ x # R))"
    and m1: "m1 = put64 m (ofs B (last K)) (get64 m (ofs B x))"
  shows "mapped m (ofs B (last K)) 8" "ofs B (last K) \<noteq> 0" "vram_at m1 B S" "sll m1 B head (K @ R)" "sll m1 B (get64 m (ofs B x)) R"
    "bframe B (slot_bytes 8 (set (K @ x # R))) m m1"
proof -
  have S64: "S \<le> 2 ^ 64" using base_okD(5) [OF ok] .
  have sep64: "sep (2 ^ 64) (set (K @ x # R))" using sep_le [OF K(3) S64] .
  have k: "last K \<in> set K" using K(1) by simp
  then have l8: "last K + 8 \<le> S" "last K < S" using sepD(1) [OF K(3), of "last K"] by auto
  show mp: "mapped m (ofs B (last K)) 8" using slot_mapped [OF v ok l8(1)] .
  show "ofs B (last K) \<noteq> 0" using slot_nonzero [OF ok l8(2)] .
  show "vram_at m1 B S" using v mp by (simp add: vram_at_put64 m1)
  show "sll m1 B head (K @ R)" unfolding m1 using sll_remove [OF l(1) K(1,2) sep64] .
  show "sll m1 B (get64 m (ofs B x)) R"
    unfolding m1
  proof (subst sll_put_other)
    show "sep (2 ^ 64) (insert (last K) (set R))" by (rule sep_mono [OF sep64]) (use k in auto)
  qed (use K(2) k l(2) in auto)
  show "bframe B (slot_bytes 8 (set (K @ x # R))) m m1"
    unfolding m1 using k l8 S64 by (intro slot_bytes_put64) auto
qed

lemma purge_list:
  assumes ok: "base_ok B S N" and P: "P < N"
  shows "vram_at m B S \<Longrightarrow> sll m B head (K @ R) \<Longrightarrow> sll m B fcurr R \<Longrightarrow>
    fprev = (if K = [] then 0 else ofs B (last K)) \<Longrightarrow> distinct (K @ R) \<Longrightarrow> sep S (set (K @ R)) \<Longrightarrow>
    \<exists>h' m'. purge (nd B P) (nd B P + PAGE_SIZE) fprev fcurr head m = Some (h', m') \<and>
      sll m' B h' (K @ filter (\<lambda>x. x div 4096 \<noteq> P) R) \<and> vram_at m' B S \<and>
      bframe B (slot_bytes 8 (set (K @ R))) m m'"
proof (induction R arbitrary: K m head fcurr fprev)
  case Nil
  then show ?case by (subst purge.simps) (simp add: NULL_def)
next
  case (Cons x R)
  have x: "x + 8 \<le> S" "x < S" using sepD(1) [OF Cons.prems(6), of x] by simp_all
  have fc: "fcurr = ofs B x" "ofs B x \<noteq> 0" using Cons.prems(3) slot_nonzero [OF ok x(2)] by auto
  let ?n = "get64 m (ofs B x)"
  have ld: "load64 m fcurr = Some ?n"
    using slot_mapped [OF Cons.prems(1) ok x(1)] fc by (simp add: load64_def)
  have rest: "sll m B ?n R" using Cons.prems(3) by simp
  note unf = purge.simps [of "nd B P" _ fprev fcurr]
  consider (out) "x div 4096 \<noteq> P" | (first) "x div 4096 = P" "K = []" | (mid) "x div 4096 = P" "K \<noteq> []"
    by blast
  then show ?case
  proof cases
    case out
    have "purge (nd B P) (nd B P + PAGE_SIZE) fprev fcurr head m =
        purge (nd B P) (nd B P + PAGE_SIZE) fcurr ?n head m"
      unfolding unf using ld fc page_range [OF ok P x(2)] out by (auto simp: NULL_def)
    then show ?thesis
      using Cons.IH [of m head "K @ [x]" ?n fcurr] Cons.prems rest fc out by simp
  next
    case first
    have "purge (nd B P) (nd B P + PAGE_SIZE) fprev fcurr head m =
        purge (nd B P) (nd B P + PAGE_SIZE) fprev ?n ?n m"
      unfolding unf using ld fc page_range [OF ok P x(2)] first Cons.prems(4)
      by (simp add: NULL_def)
    moreover have "\<exists>h' m'. purge (nd B P) (nd B P + PAGE_SIZE) fprev ?n ?n m = Some (h', m') \<and>
      sll m' B h' ([] @ filter (\<lambda>x. x div 4096 \<noteq> P) R) \<and> vram_at m' B S \<and>
      bframe B (slot_bytes 8 (set ([] @ R))) m m'"
      using Cons.prems rest first sep_mono [OF Cons.prems(6), of "set R"]
      by (intro Cons.IH) auto
    ultimately show ?thesis
      using first by (auto elim!: bframe_mono simp: slot_bytes_def)
  next
    case mid
    let ?m1 = "put64 m (ofs B (last K)) ?n"
    note re = relink_over [OF ok Cons.prems(1,2) rest mid(2) Cons.prems(5,6) refl]
    have "purge (nd B P) (nd B P + PAGE_SIZE) fprev fcurr head m =
        purge (nd B P) (nd B P + PAGE_SIZE) fprev ?n head ?m1"
      unfolding unf using ld fc page_range [OF ok P x(2)] mid Cons.prems(4) re(1,2)
      by (simp add: NULL_def store64_def)
    moreover have sub: "slot_bytes 8 (set (K @ R)) \<subseteq> slot_bytes 8 (set (K @ x # R))"
      by (auto simp: slot_bytes_def)
    moreover have "sep S (set (K @ R))" by (rule sep_mono [OF Cons.prems(6)]) auto
    moreover have "distinct (K @ R)" using Cons.prems(5) by simp
    ultimately obtain h' m' where
      "purge (nd B P) (nd B P + PAGE_SIZE) fprev fcurr head m = Some (h', m')"
      "sll m' B h' (K @ filter (\<lambda>x. x div 4096 \<noteq> P) R)" "vram_at m' B S"
      "bframe B (slot_bytes 8 (set (K @ R))) ?m1 m'"
      using Cons.IH [of ?m1 head K ?n fprev] Cons.prems(4) re(3-5) by auto
    moreover from this(4) have "bframe B (slot_bytes 8 (set (K @ x # R))) m m'"
      using bframe_trans [OF re(6) bframe_mono [OF _ sub]] by blast
    ultimately show ?thesis using mid by auto
  qed
qed

end
