(* ===== verification/Slab_Ops.thy ===== *)
theory Slab_Ops
  imports Slab_Lists
begin

text \<open>
  Correctness of the slab caches: the invariant of a cache over its list of free slots and its
  list of pages, and what growing, allocating, freeing and giving a page back do to the two
  lists, with the buddy allocator below them.
\<close>

definition meta_of :: "nat \<Rightarrow> nat list \<Rightarrow> nat \<Rightarrow> slab_page_meta" where
  "meta_of osz L P = \<lparr>page_offset = word_of_nat (4096 * P), free_count = word_of_nat (cnt L P),
     total_slots = word_of_nat (4096 div osz)\<rparr>"

definition sinv ::
  "u64 \<Rightarrow> nat \<Rightarrow> nat \<Rightarrow> slab_cache \<Rightarrow> mem \<Rightarrow> nat list \<Rightarrow> nat list \<Rightarrow> bool" where
  "sinv B N osz c m L Ps \<longleftrightarrow> object_size c = word_of_nat osz \<and> 8 \<le> osz \<and> osz \<le> 4096 \<and>
     sll m B (slot_list c) L \<and> distinct L \<and> set L \<subseteq> (\<Union>P\<in>set Ps. slots_of osz P) \<and>
     distinct Ps \<and> set Ps \<subseteq> {..<N} \<and> metas c = map (meta_of osz L) Ps"

definition slab_pages :: "nat list \<Rightarrow> block set" where
  "slab_pages Ps = (\<lambda>P. (P, 0)) ` set Ps"

lemma sinvD:
  assumes "sinv B N osz c m L Ps"
  shows "object_size c = word_of_nat osz" "8 \<le> osz" "osz \<le> 4096" "sll m B (slot_list c) L"
    "distinct L" "set L \<subseteq> (\<Union>P\<in>set Ps. slots_of osz P)" "distinct Ps" "set Ps \<subseteq> {..<N}"
    "metas c = map (meta_of osz L) Ps"
  using assms by (auto simp: sinv_def)

lemma sinv_slot:
  assumes "sinv B N osz c m L Ps" "x \<in> set L"
  shows "x div 4096 \<in> set Ps" "x \<in> slots_of osz (x div 4096)"
proof -
  obtain P where "P \<in> set Ps" "x \<in> slots_of osz P" using sinvD(6) [OF assms(1)] assms(2) by auto
  moreover from this have "x div 4096 = P" using slots_of_page(3) sinvD(2) [OF assms(1)] by blast
  ultimately show "x div 4096 \<in> set Ps" "x \<in> slots_of osz (x div 4096)" by simp_all
qed

lemma slots_sep:
  assumes "base_ok B S N" "8 \<le> osz" "X \<subseteq> (\<Union>P\<in>Q. slots_of osz P)" "Q \<subseteq> {..<N}"
  shows "sep S X"
  unfolding sep_def
proof (intro conjI ballI impI)
  fix x assume "x \<in> X"
  then obtain P where P: "x \<in> slots_of osz P" "P < N" using assms(3,4) by blast
  have "4096 * (P + 1) \<le> 4096 * N" using P(2) by (intro mult_le_mono2) simp
  then show "x + 8 \<le> S"
    using slots_of_page(2) [OF P(1) assms(2)] base_okD(3) [OF assms(1)] assms(2) by simp
  fix y assume "y \<in> X" and ne: "x \<noteq> y"
  then obtain R where R: "y \<in> slots_of osz R" using assms(3) by blast
  show "x + 8 \<le> y \<or> y + 8 \<le> x"
    using slots_of_disjoint [OF P(1) R ne assms(2)] assms(2) by linarith
qed

lemma sinv_sep: "base_ok B S N \<Longrightarrow> sinv B N osz c m L Ps \<Longrightarrow> sep S (set L)"
  by (rule slots_sep [OF _ sinvD(2) sinvD(6) sinvD(8)])

lemma slot_in_page:
  assumes "x \<in> slots_of osz P" "8 \<le> osz" "n \<le> osz"
  shows "{x ..< x + n} \<subseteq> page_bytes {P}"
proof
  fix y assume "y \<in> {x ..< x + n}"
  then have "y div 4096 = P"
    using slots_of_page [OF assms(1,2)] assms(3) by (intro div_nat_eqI) auto
  then show "y \<in> page_bytes {P}" by (simp add: page_bytes_def)
qed

lemma page_bytes_mono: "P \<subseteq> Q \<Longrightarrow> page_bytes P \<subseteq> page_bytes Q"
  unfolding page_bytes_def by (rule Collect_mono) (simp add: subset_iff)

lemma page_bytes_disjoint: "P \<inter> Q = {} \<Longrightarrow> page_bytes P \<inter> page_bytes Q = {}"
  unfolding page_bytes_def Collect_conj_eq [symmetric] by (simp add: disjoint_iff)

lemma sinv_bframe_slots:
  assumes ok: "base_ok B S N" and i: "sinv B N osz c m L Ps" and f: "bframe B X m m'"
    and d: "slot_bytes 8 (set L) \<inter> X = {}"
  shows "sinv B N osz c m' L Ps"
proof -
  have "sll m' B (slot_list c) L = sll m B (slot_list c) L"
  proof (rule sll_bframe [OF f])
    fix x assume x: "x \<in> set L"
    then have "{x ..< x + 8} \<subseteq> slot_bytes 8 (set L)" unfolding slot_bytes_def by blast
    then show "{x ..< x + 8} \<inter> X = {}" using d by blast
    show "x + 8 \<le> 2 ^ 64" using sepD(1) [OF sinv_sep [OF ok i] x] base_okD(5) [OF ok] by simp
  qed
  then show ?thesis using i by (simp add: sinv_def)
qed

lemma slot_bytes_pages:
  assumes "sinv B N osz c m L Ps"
  shows "slot_bytes 8 (set L) \<subseteq> page_bytes (set Ps)"
proof -
  have "{x ..< x + 8} \<subseteq> page_bytes (set Ps)" if x: "x \<in> set L" for x
    using slot_in_page [OF sinv_slot(2) [OF assms x] sinvD(2) [OF assms] sinvD(2) [OF assms]]
      page_bytes_mono [of "{x div 4096}" "set Ps"] sinv_slot(1) [OF assms x] by blast
  then show ?thesis unfolding slot_bytes_def by blast
qed

lemma sinv_bframe:
  assumes ok: "base_ok B S N" and i: "sinv B N osz c m L Ps" and f: "bframe B X m m'"
    and d: "page_bytes (set Ps) \<inter> X = {}"
  shows "sinv B N osz c m' L Ps"
  using slot_bytes_pages [OF i] d by (intro sinv_bframe_slots [OF ok i f]) blast

lemma used_pages_slab: "slab_pages Ps \<subseteq> A \<Longrightarrow> set Ps \<subseteq> used_pages A"
  by (force simp: slab_pages_def used_pages_def pages_def)

lemma slab_free_pages_disjoint:
  "slab_pages Ps \<subseteq> A \<Longrightarrow> page_bytes (set Ps) \<inter> page_bytes ({..<N} - used_pages A) = {}"
  using used_pages_slab [of Ps A] by (intro page_bytes_disjoint) blast

subsection \<open>Descriptors\<close>

lemma find_meta_index:
  assumes "distinct Ps" "set Ps \<subseteq> {..<2 ^ 20}" "i < length Ps"
  shows "find_meta (word_of_nat (4096 * (Ps ! i))) (map (meta_of osz L) Ps) = Some i"
  using assms
proof (induction Ps arbitrary: i)
  case Nil
  then show ?case by simp
next
  case (Cons P Ps)
  show ?case
  proof (cases i)
    case 0
    then show ?thesis by (simp add: meta_of_def)
  next
    case (Suc j)
    then have j: "j < length Ps" using Cons.prems by simp
    then have "Ps ! j \<in> set Ps" by simp
    then have "P \<noteq> Ps ! j" "P < 2 ^ 20" "Ps ! j < 2 ^ 20" using Cons.prems by auto
    then have "4096 * P \<noteq> 4096 * (Ps ! j)" "4096 * P < 2 ^ 64" "4096 * (Ps ! j) < 2 ^ 64" by auto
    then have "(word_of_nat (4096 * P) :: u64) \<noteq> word_of_nat (4096 * (Ps ! j))"
      using ofs_inj [of "4096 * P" "4096 * (Ps ! j)" 0] by simp
    then show ?thesis
      using Suc Cons.IH [of j] Cons.prems j by (simp add: meta_of_def del: of_nat_mult)
  qed
qed

lemma find_meta_slot:
  assumes ok: "base_ok B S N" and d: "distinct Ps" "set Ps \<subseteq> {..<N}"
    and x: "x div 4096 \<in> set Ps"
  obtains i where "i < length Ps" "Ps ! i = x div 4096"
    "\<And>L. find_meta (page_of (word_of_nat x)) (map (meta_of osz L) Ps) = Some i"
proof -
  obtain i where i: "i < length Ps" "Ps ! i = x div 4096" using x by (auto simp: in_set_conv_nth)
  have "x div 4096 < 2 ^ 20" using x d(2) node_bound [OF ok] by blast
  then have "x < 2 ^ 64" by simp
  moreover have "set Ps \<subseteq> {..<2 ^ 20}" using d(2) node_bound [OF ok] by auto
  ultimately have "find_meta (page_of (word_of_nat x)) (map (meta_of osz L) Ps) = Some i" for L
    using find_meta_index [OF d(1) _ i(1)] i(2) page_of_nat by simp
  then show thesis using i that by blast
qed

lemma cnt_Cons: "cnt (x # L) P = (if x div 4096 = P then Suc (cnt L P) else cnt L P)"
  by (simp add: cnt_def)

lemma metas_update:
  assumes "distinct Ps" "i < length Ps"
    "\<And>Q. Q \<in> set Ps \<Longrightarrow> Q \<noteq> Ps ! i \<Longrightarrow> meta_of osz L' Q = meta_of osz L Q"
  shows "(map (meta_of osz L) Ps)[i := meta_of osz L' (Ps ! i)] = map (meta_of osz L') Ps"
proof (rule nth_equalityI)
  fix j assume "j < length ((map (meta_of osz L) Ps)[i := meta_of osz L' (Ps ! i)])"
  then have j: "j < length Ps" by simp
  show "(map (meta_of osz L) Ps)[i := meta_of osz L' (Ps ! i)] ! j = map (meta_of osz L') Ps ! j"
  proof (cases "j = i")
    case True
    then show ?thesis using assms(2) by simp
  next
    case False
    then have "Ps ! j \<noteq> Ps ! i" using assms(1,2) j by (simp add: nth_eq_iff_index_eq)
    then show ?thesis using assms(3) [of "Ps ! j"] j False by simp
  qed
qed simp

lemma metas_pop:
  assumes "distinct Ps" "i < length Ps" "Ps ! i = x div 4096"
  shows "(map (meta_of osz (x # L)) Ps)
      [i := (meta_of osz (x # L) (Ps ! i))\<lparr>free_count := free_count (meta_of osz (x # L) (Ps ! i)) - 1\<rparr>] =
    map (meta_of osz L) Ps"
proof -
  have "(meta_of osz (x # L) (Ps ! i))\<lparr>free_count := free_count (meta_of osz (x # L) (Ps ! i)) - 1\<rparr> =
      meta_of osz L (Ps ! i)" using assms(3) by (simp add: meta_of_def cnt_Cons)
  then show ?thesis
    using metas_update [OF assms(1,2), of osz L "x # L"] assms(3) by (simp add: meta_of_def cnt_Cons)
qed

lemma metas_push:
  assumes "distinct Ps" "i < length Ps" "Ps ! i = x div 4096"
  shows "(map (meta_of osz L) Ps)
      [i := (meta_of osz L (Ps ! i))\<lparr>free_count := free_count (meta_of osz L (Ps ! i)) + 1\<rparr>] =
    map (meta_of osz (x # L)) Ps"
proof -
  have "(meta_of osz L (Ps ! i))\<lparr>free_count := free_count (meta_of osz L (Ps ! i)) + 1\<rparr> =
      meta_of osz (x # L) (Ps ! i)" using assms(3) by (simp add: meta_of_def cnt_Cons)
  then show ?thesis
    using metas_update [OF assms(1,2), of osz "x # L" L] assms(3)
    by (simp add: meta_of_def cnt_Cons add.commute)
qed

subsection \<open>Growing a cache\<close>

definition page_slots :: "nat \<Rightarrow> nat \<Rightarrow> nat list" where
  "page_slots osz P = rev (map (\<lambda>j. 4096 * P + j * osz) [0 ..< 4096 div osz])"

lemma set_page_slots: "set (page_slots osz P) = slots_of osz P"
  by (simp add: page_slots_def slots_of_def atLeast0LessThan)

lemma distinct_page_slots: "0 < osz \<Longrightarrow> distinct (page_slots osz P)"
  by (simp add: page_slots_def distinct_map inj_on_def)

lemma cnt_append: "cnt (xs @ ys) P = cnt xs P + cnt ys P"
  by (simp add: cnt_def)

lemma cnt_page_slots:
  assumes "8 \<le> osz"
  shows "cnt (page_slots osz P) Q = (if Q = P then 4096 div osz else 0)"
proof -
  have "x div 4096 = P" if "x \<in> set (page_slots osz P)" for x
    using that slots_of_page(3) [OF _ assms] by (simp add: set_page_slots)
  then have "filter (\<lambda>x. x div 4096 = Q) (page_slots osz P) = (if Q = P then page_slots osz P else [])"
    by (auto simp: filter_id_conv filter_empty_conv)
  then show ?thesis by (simp add: cnt_def page_slots_def)
qed

lemma cnt_none: "P \<notin> set Ps \<Longrightarrow> sinv B N osz c m L Ps \<Longrightarrow> cnt L P = 0"
  using sinv_slot(1) by (fastforce simp: cnt_def filter_empty_conv)

lemma find_order_page: "find_order PAGE_SIZE 0 = 0"
  by (subst find_order.simps) (simp add: block_bytes_def PAGE_SIZE_def)

lemma slots_total:
  assumes "8 \<le> osz" "osz \<le> 4096"
  shows "(ucast (PAGE_SIZE div word_of_nat osz :: u64) :: u16) = word_of_nat (4096 div osz)"
    "unat (word_of_nat (4096 div osz) :: u16) = 4096 div osz" "word_of_nat osz \<noteq> (0 :: u64)"
proof -
  have o: "unat (word_of_nat osz :: u64) = osz" using assms by (intro unat_of_nat64) simp
  have le: "4096 div osz \<le> 512" using div_le_mono2 [OF _ assms(1), of 4096] by simp
  have u: "unat (PAGE_SIZE div word_of_nat osz :: u64) = 4096 div osz"
    by (simp add: unat_div o PAGE_SIZE_def)
  show t: "unat (word_of_nat (4096 div osz) :: u16) = 4096 div osz"
    using le by (simp add: unat_of_nat)
  have "unat (ucast (PAGE_SIZE div word_of_nat osz :: u64) :: u16) = 4096 div osz"
    using le u by (simp add: unsigned_ucast_eq take_bit_nat_eq_self)
  then show "(ucast (PAGE_SIZE div word_of_nat osz :: u64) :: u16) = word_of_nat (4096 div osz)"
    using t by (simp add: word_unat_eq_iff)
  show "word_of_nat osz \<noteq> (0 :: u64)" using o assms by auto
qed

definition has_room :: "freelists \<Rightarrow> bool" where
  "has_room F \<longleftrightarrow> (\<exists>j<21. F j \<noteq> [])"

lemma slab_grow_full:
  assumes "binv B S N (buddy s) (vmem s) F A" "\<not> has_room F"
  shows "slab_grow c s = Some (-1, c, s)"
  using buddy_alloc_full [OF assms(1) refl, of PAGE_SIZE] assms(2)
  by (simp add: find_order_page has_room_def slab_grow_def)

lemma page_not_minus1: "p < 2 ^ 20 \<Longrightarrow> word_of_nat (4096 * p) \<noteq> (-1 :: u64)"
proof
  assume p: "p < 2 ^ 20" and e: "word_of_nat (4096 * p) = (-1 :: u64)"
  have "word_of_nat (4096 * p) = (word_of_nat (2 ^ 64 - 1) :: u64)" using e by simp
  then have "4096 * p = 2 ^ 64 - 1"
    using ofs_inj [of "4096 * p" "2 ^ 64 - 1" 0] p by simp
  then show False using p by simp
qed

lemma alloc_page:
  assumes i: "binv B S N b m F A" and room: "has_room F"
  obtains P F' b' m' where "buddy_alloc b m PAGE_SIZE = Some (word_of_nat (4096 * P), b', m')"
    "binv B S N b' m' F' (insert (P, 0) A)" "(P, 0) \<notin> A" "P < N" "P \<notin> used_pages A"
    "page_order b' = (page_order b)(P := 0)" "pframe B ({..<N} - used_pages A) m m'" "aalloc F 0 = Some (P, F')"
proof -
  have rm: "\<exists>j. 0 \<le> j \<and> j < 21 \<and> F j \<noteq> []" using room by (simp add: has_room_def)
  have "(0 :: nat) < 21" by simp
  then obtain P F' b' m' where r: "buddy_alloc b m PAGE_SIZE = Some (word_of_nat (4096 * P), b', m')"
    "binv B S N b' m' F' (insert (P, 0) A)" "(P, 0) \<notin> A"
    "page_order b' = (page_order b)(P := word_of_nat 0)" "pframe B ({..<N} - used_pages A) m m'" "aalloc F 0 = Some (P, F')"
    by (rule buddy_alloc_correct [OF i find_order_page [symmetric] _ rm]) (rule that)
  have "P \<in> {..<N} - used_pages A"
    using pending_pages_free [OF binvD(4) [OF r(2)] r(3)] first_in_pages [of P 0] by blast
  then show thesis using r by (intro that) auto
qed

lemma slab_grow_nomem:
  assumes i: "binv B S N (buddy s) (vmem s) F A" and room: "has_room F" and nm: "\<not> fst (malloc s)"
  obtains F' s' where "slab_grow c s = Some (-1, c, s')" "binv B S N (buddy s') (vmem s') F' A"
    "mallocs s' = mallocs (snd (malloc s))"
    "\<forall>x. x \<notin> {..<N} - used_pages A \<longrightarrow> page_order (buddy s') x = page_order (buddy s) x"
    "pframe B ({..<N} - used_pages A) (vmem s) (vmem s')"
proof -
  obtain P F1 b1 m1 where a: "buddy_alloc (buddy s) (vmem s) PAGE_SIZE = Some (word_of_nat (4096 * P), b1, m1)"
    and i1: "binv B S N b1 m1 F1 (insert (P, 0) A)" and P: "(P, 0) \<notin> A" "P < N" "P \<notin> used_pages A"
    and po: "page_order b1 = (page_order (buddy s))(P := 0)"
    and f1: "pframe B ({..<N} - used_pages A) (vmem s) m1"
    by (rule alloc_page [OF i room]) (rule that)
  have po0: "page_order b1 P = word_of_nat 0" by (simp add: po)
  obtain b2 m2 where fr: "buddy_free b1 m1 (word_of_nat (4096 * P)) = Some (0, b2, m2)"
    and i2: "binv B S N b2 m2 (afree F1 P 0) A"
    and po2: "\<forall>x. x \<notin> {..<N} - used_pages A \<longrightarrow> page_order b2 x = page_order b1 x"
    and f2: "pframe B ({..<N} - used_pages A) m1 m2"
    using buddy_free_correct [OF i1 P(1) po0] by blast
  obtain bs where mc: "mallocs s = False # bs" using nm by (auto simp: malloc_def split: list.splits)
  let ?s = "s\<lparr>buddy := b2, vmem := m2, mallocs := bs\<rparr>"
  have "slab_grow c s = Some (-1, c, ?s)"
    unfolding slab_grow_def using a fr mc page_not_minus1 [OF node_bound [OF binvD(1) [OF i] P(2)]]
    by (simp add: malloc_def Let_def del: of_nat_mult)
  moreover have "pframe B ({..<N} - used_pages A) (vmem s) m2" using f1 f2 by (simp add: pframe_def)
  ultimately show thesis
    using i2 po po2 P mc by (intro that [of ?s]) (auto simp: malloc_def)
qed

text \<open>Writes outside the free pages do not disturb the buddy allocator.\<close>

lemma binv_bframe:
  assumes i: "binv B S N b m F A" and f: "bframe B X m m'" and v: "vram_at m' B S"
    and d: "X \<inter> page_bytes ({..<N} - used_pages A) = {}"
  shows "binv B S N b m' F A"
proof -
  let ?Q = "- ({..<N} - used_pages A)"
  have "X \<subseteq> page_bytes ?Q" using d by (auto simp: page_bytes_def)
  then have p: "pframe B ?Q m m'" unfolding pframe_bframe by (rule bframe_mono [OF f])
  have "dll m' B 0 (free_list b k) (F k)" if k: "k < 21" for k
  proof (subst dll_pframe [OF p])
    show "set (F k) \<inter> ?Q = {}" using list_pages_free [OF binvD(4) [OF i] k] by blast
    show "set (F k) \<subseteq> {..<2 ^ 20}"
      using wf_lists_list_bound [OF binvD(4) [OF i] k] node_bound [OF binvD(1) [OF i]] by blast
  qed (rule binvD(5) [OF i k])
  then show ?thesis using i v by (simp add: binv_def)
qed

lemma used_insert_page: "used_pages (insert (P, 0) A) = insert P (used_pages A)"
  by (auto simp: used_pages_def pages_def)

lemma metas_grow:
  assumes i: "sinv B N osz c m L Ps" and P: "P \<notin> set Ps"
  shows "\<lparr>page_offset = word_of_nat (4096 * P), free_count = word_of_nat (4096 div osz),
      total_slots = word_of_nat (4096 div osz)\<rparr> # metas c =
    map (meta_of osz (page_slots osz P @ L)) (P # Ps)"
proof -
  have "meta_of osz (page_slots osz P @ L) Q = meta_of osz L Q" if "Q \<in> set Ps" for Q
    using that P cnt_page_slots [OF sinvD(2) [OF i], of P Q] by (auto simp: meta_of_def cnt_append)
  then show ?thesis
    using sinvD(9) [OF i] cnt_none [OF P i] cnt_page_slots [OF sinvD(2) [OF i], of P P]
    by (simp add: cnt_append meta_of_def)
qed

lemma fresh_page_slots:
  assumes ok: "base_ok B S N" and i: "sinv B N osz c m L Ps" and P: "P < N" "P \<notin> set Ps"
  shows "sep S (set L \<union> slots_of osz P)" "set L \<inter> slots_of osz P = {}"
proof -
  have "set L \<union> slots_of osz P \<subseteq> (\<Union>P\<in>set (P # Ps). slots_of osz P)"
    using sinvD(6) [OF i] by auto
  moreover have "set (P # Ps) \<subseteq> {..<N}" using sinvD(8) [OF i] P by simp
  ultimately show "sep S (set L \<union> slots_of osz P)" using slots_sep [OF ok sinvD(2) [OF i]] by blast
  show "set L \<inter> slots_of osz P = {}"
    using sinv_slot(1) [OF i] slots_of_page(3) [OF _ sinvD(2) [OF i]] P(2) by blast
qed

lemma thread_page:
  assumes ok: "base_ok B S N" and v: "vram_at m B S" and P: "P < N" "P \<notin> set Ps"
    and i: "sinv B N osz c m L Ps"
  obtains m' h' where
    "thread_slots (nd B P) (word_of_nat osz) 0 (4096 div osz) m (slot_list c) = Some (m', h')"
    "sll m' B h' (page_slots osz P @ L)" "vram_at m' B S" "bframe B (page_bytes {P}) m m'"
proof -
  have s: "slots_of osz P = (\<lambda>j. 4096 * P + j * osz) ` {0 ..< 0 + 4096 div osz}"
    by (simp add: slots_of_def atLeast0LessThan)
  note fr = fresh_page_slots [OF ok i P, unfolded s]
  have le: "0 + 4096 div osz \<le> 4096 div osz" by simp
  show thesis
    using thread_slots_list [OF ok P(1) sinvD(2) [OF i] v le sinvD(4) [OF i] fr] that
    unfolding page_slots_def by auto
qed

lemma slab_grow_ok:
  assumes i: "binv B S N (buddy s) (vmem s) F A" and room: "has_room F" and mc: "fst (malloc s)"
    and si: "sinv B N osz c (vmem s) L Ps" and sub: "slab_pages Ps \<subseteq> A"
  obtains P F' c' s' where "slab_grow c s = Some (0, c', s')"
    "binv B S N (buddy s') (vmem s') F' (insert (P, 0) A)" "(P, 0) \<notin> A" "P < N" "P \<notin> used_pages A"
    "sinv B N osz c' (vmem s') (page_slots osz P @ L) (P # Ps)"
    "page_order (buddy s') = (page_order (buddy s))(P := marker c)"
    "marker c' = marker c" "mallocs s' = mallocs (snd (malloc s))"
    "pframe B ({..<N} - used_pages A) (vmem s) (vmem s')" "aalloc F 0 = Some (P, F')"
proof -
  note ok = binvD(1) [OF i] and os = sinvD(2,3) [OF si]
  obtain P F1 b1 m1 where a: "buddy_alloc (buddy s) (vmem s) PAGE_SIZE = Some (word_of_nat (4096 * P), b1, m1)"
    and i1: "binv B S N b1 m1 F1 (insert (P, 0) A)" and P: "(P, 0) \<notin> A" "P < N" "P \<notin> used_pages A"
    and po: "page_order b1 = (page_order (buddy s))(P := 0)"
    and f1: "pframe B ({..<N} - used_pages A) (vmem s) m1" and al: "aalloc F 0 = Some (P, F1)"
    by (rule alloc_page [OF i room]) (rule that)
  have PPs: "P \<notin> set Ps" using P(3) used_pages_slab [OF sub] by blast
  have si1: "sinv B N osz c m1 L Ps"
    using sinv_bframe [OF ok si f1 [unfolded pframe_bframe] slab_free_pages_disjoint [OF sub]] .
  obtain m2 h2 where th: "thread_slots (nd B P) (word_of_nat osz) 0 (4096 div osz) m1 (slot_list c) = Some (m2, h2)"
    and l2: "sll m2 B h2 (page_slots osz P @ L)" and v2: "vram_at m2 B S"
    and f2: "bframe B (page_bytes {P}) m1 m2"
    by (rule thread_page [OF ok binvD(2) [OF i1] P(2) PPs si1]) (rule that)
  define b2 where "b2 = b1\<lparr>page_order := (page_order b1)(P := marker c)\<rparr>"
  define meta where "meta = \<lparr>page_offset = word_of_nat (4096 * P) :: u64,
      free_count = word_of_nat (4096 div osz), total_slots = word_of_nat (4096 div osz)\<rparr>"
  define c' where "c' = c\<lparr>metas := meta # metas c, slot_list := h2\<rparr>"
  define s' where "s' = (snd (malloc s))\<lparr>buddy := b2, vmem := m2\<rparr>"
  have P20: "P < 2 ^ 20" using node_bound [OF ok P(2)] .
  then have ps: "po_set b1 (word_of_nat (4096 * P) div PAGE_SIZE) (marker c) = Some b2"
    using page_div [of P] by (simp add: po_set_def b2_def BUDDY_TOTAL_PAGES_def del: of_nat_mult)
  have mal: "malloc (s\<lparr>buddy := b1, vmem := m1\<rparr>) = (True, (snd (malloc s))\<lparr>buddy := b1, vmem := m1\<rparr>)"
    using mc by (auto simp: malloc_def split: list.splits)
  have base: "vram_base b2 = B" using binvD(3) [OF i1] by (simp add: b2_def)
  have "slab_grow c s = Some (0, c', s')"
    unfolding slab_grow_def using a page_not_minus1 [OF P20] th ps mal slots_total [OF os] base
    by (simp add: sinvD(1) [OF si] nd_offset c'_def s'_def meta_def Let_def del: of_nat_mult)
  moreover have "binv B S N (buddy s') (vmem s') F1 (insert (P, 0) A)"
  proof -
    have "page_bytes {P} \<inter> page_bytes ({..<N} - used_pages (insert (P, 0) A)) = {}"
      by (rule page_bytes_disjoint) (simp add: used_insert_page)
    from binv_bframe [OF i1 f2 v2 this] show ?thesis by (simp add: binv_def s'_def b2_def)
  qed
  moreover have "sinv B N osz c' (vmem s') (page_slots osz P @ L) (P # Ps)"
    using si1 l2 metas_grow [OF si1 PPs] P(2) PPs fresh_page_slots(2) [OF ok si1 P(2) PPs]
      distinct_page_slots [of osz P] os
    by (auto simp: sinv_def c'_def s'_def meta_def set_page_slots simp del: of_nat_mult list.map)
  moreover have "pframe B ({..<N} - used_pages A) (vmem s) (vmem s')"
  proof -
    have "page_bytes {P} \<subseteq> page_bytes ({..<N} - used_pages A)"
      using P by (intro page_bytes_mono) simp
    then show ?thesis
      using f1 bframe_mono [OF f2] bframe_trans unfolding pframe_bframe s'_def by simp
  qed
  moreover have "page_order (buddy s') = (page_order (buddy s))(P := marker c)"
    by (simp add: s'_def b2_def po)
  ultimately show thesis using P al by (intro that [of c' s' F1 P]) (simp_all add: c'_def s'_def)
qed

subsection \<open>Allocation\<close>

text \<open>The slots of a cache that are handed out.\<close>

definition live_slots :: "nat \<Rightarrow> nat list \<Rightarrow> nat list \<Rightarrow> nat set" where
  "live_slots osz L Ps = (\<Union>P\<in>set Ps. slots_of osz P) - set L"

lemma live_slots_pop:
  assumes "sinv B N osz c m (x # L) Ps"
  shows "live_slots osz L Ps = insert x (live_slots osz (x # L) Ps)" "x \<notin> live_slots osz (x # L) Ps"
  using sinvD(5,6) [OF assms] by (auto simp: live_slots_def)

lemma live_slots_grow:
  assumes "sinv B N osz c m L Ps" "P \<notin> set Ps"
  shows "live_slots osz (page_slots osz P @ L) (P # Ps) = live_slots osz L Ps"
proof -
  have "(\<Union>Q\<in>set Ps. slots_of osz Q) \<inter> slots_of osz P = {}"
    using slots_of_page(3) [OF _ sinvD(2) [OF assms(1)]] assms(2) by blast
  then show ?thesis by (auto simp: live_slots_def set_page_slots)
qed

lemma slab_pop:
  assumes ok: "base_ok B S N" and v: "vram_at (vmem s) B S" and b: "vram_base (buddy s) = B"
    and si: "sinv B N osz c (vmem s) (x # L) Ps"
  obtains c' where "slab_alloc c s = Some (word_of_nat x, c', s)" "sinv B N osz c' (vmem s) L Ps"
    "marker c' = marker c"
proof -
  obtain i where j: "i < length Ps" "Ps ! i = x div 4096"
    and fm: "\<And>L. find_meta (page_of (word_of_nat x)) (map (meta_of osz L) Ps) = Some i"
    using find_meta_slot [OF ok sinvD(7,8) [OF si]] sinv_slot(1) [OF si] by (metis list.set_intros(1))
  have x8: "x + 8 \<le> S" using sepD(1) [OF sinv_sep [OF ok si]] by simp
  have h: "slot_list c = ofs B x" using sinvD(4) [OF si] by simp
  have nz: "ofs B x \<noteq> 0" using slot_nonzero [OF ok] x8 by simp
  have ld: "load64 (vmem s) (ofs B x) = Some (get64 (vmem s) (ofs B x))"
    using slot_mapped [OF v ok x8] by (simp add: load64_def)
  define c' where "c' = c\<lparr>slot_list := get64 (vmem s) (ofs B x), metas := map (meta_of osz L) Ps\<rparr>"
  have "slab_alloc c s = Some (word_of_nat x, c', s)"
    unfolding slab_alloc_def using h nz ld b j fm metas_pop [OF sinvD(7) [OF si] j, of osz L]
    by (simp add: NULL_def Let_def sinvD(9) [OF si] c'_def)
  moreover have "sinv B N osz c' (vmem s) L Ps" using si by (simp add: sinv_def c'_def)
  ultimately show thesis by (intro that [of c']) (simp_all add: c'_def)
qed

lemma page_slots_nonempty:
  assumes "8 \<le> osz" "osz \<le> 4096"
  shows "page_slots osz P \<noteq> []"
proof -
  have "1 \<le> 4096 div osz" using div_le_mono2 [OF _ assms(2), of 4096] assms(1) by simp
  then show ?thesis by (simp add: page_slots_def)
qed

lemma slab_alloc_grow:
  assumes "slot_list c = 0" "slab_grow c s = Some (0, c', s')" "slot_list c' \<noteq> 0"
  shows "slab_alloc c s = slab_alloc c' s'"
  using assms by (simp add: slab_alloc_def NULL_def)

theorem slab_alloc_cases:
  assumes i: "binv B S N (buddy s) (vmem s) F A"
    and si: "sinv B N osz c (vmem s) L Ps" and sub: "slab_pages Ps \<subseteq> A"
  obtains (fail) s' F' where "slab_alloc c s = Some (-1, c, s')"
    "L = []" "\<not> has_room F \<or> \<not> fst (malloc s)"
    "binv B S N (buddy s') (vmem s') F' A" "sinv B N osz c (vmem s') L Ps"
    "\<forall>x. x \<notin> {..<N} - used_pages A \<longrightarrow> page_order (buddy s') x = page_order (buddy s) x"
    "pframe B ({..<N} - used_pages A) (vmem s) (vmem s')"
  | (ok) x c' s' F' L' Ps' where "slab_alloc c s = Some (word_of_nat x, c', s')"
    "binv B S N (buddy s') (vmem s') F' (A \<union> slab_pages Ps')" "sinv B N osz c' (vmem s') L' Ps'"
    "live_slots osz L' Ps' = insert x (live_slots osz L Ps)" "x \<notin> live_slots osz L Ps"
    "set Ps \<subseteq> set Ps'" "(set Ps' - set Ps) \<inter> used_pages A = {}"
    "page_order (buddy s') = (\<lambda>P. if P \<in> set Ps' - set Ps then marker c else page_order (buddy s) P)"
    "marker c' = marker c" "pframe B ({..<N} - used_pages A) (vmem s) (vmem s')"
    "F' = F \<or> (\<exists>P. aalloc F 0 = Some (P, F'))"
proof -
  note okb = binvD(1) [OF i]
  have null: "slot_list c = 0 \<longleftrightarrow> L = []"
    using sll_head_null [OF sinvD(4) [OF si] okb] sepD(1) [OF sinv_sep [OF okb si]] by fastforce
  show thesis
  proof (cases L)
    case (Cons x L')
    note six = si [unfolded Cons]
    obtain c' where "slab_alloc c s = Some (word_of_nat x, c', s)" "sinv B N osz c' (vmem s) L' Ps"
      "marker c' = marker c"
      by (rule slab_pop [OF okb binvD(2,3) [OF i] six]) (rule that)
    then show thesis
      using i sub live_slots_pop [OF six] unfolding Cons [symmetric]
      by (intro ok [of x c' s F Ps L']) (simp_all add: sup_absorb1)
  next
    case Nil
    then have z: "slot_list c = 0" using null by simp
    consider (full) "\<not> has_room F" | (nomem) "has_room F" "\<not> fst (malloc s)"
      | (grow) "has_room F" "fst (malloc s)" by blast
    then show thesis
    proof cases
      case full
      have "slab_alloc c s = Some (-1, c, s)"
        using slab_grow_full [OF i full] z by (simp add: slab_alloc_def NULL_def)
      then show thesis using i si full Nil by (intro fail [of s F]) simp_all
    next
      case nomem
      obtain F' s' where g: "slab_grow c s = Some (-1, c, s')" "binv B S N (buddy s') (vmem s') F' A"
        "\<forall>x. x \<notin> {..<N} - used_pages A \<longrightarrow> page_order (buddy s') x = page_order (buddy s) x"
        "pframe B ({..<N} - used_pages A) (vmem s) (vmem s')"
        by (rule slab_grow_nomem [OF i nomem]) (rule that)
      have "slab_alloc c s = Some (-1, c, s')" using g z by (simp add: slab_alloc_def NULL_def)
      moreover have "sinv B N osz c (vmem s') L Ps"
        using sinv_bframe [OF okb si g(4) [unfolded pframe_bframe] slab_free_pages_disjoint [OF sub]] .
      ultimately show thesis using g nomem Nil by (intro fail) simp_all
    next
      case grow
      obtain P F' c1 s1 where g: "slab_grow c s = Some (0, c1, s1)"
        "binv B S N (buddy s1) (vmem s1) F' (insert (P, 0) A)" "(P, 0) \<notin> A" "P < N" "P \<notin> used_pages A"
        "sinv B N osz c1 (vmem s1) (page_slots osz P @ L) (P # Ps)"
        "page_order (buddy s1) = (page_order (buddy s))(P := marker c)"
        "marker c1 = marker c" "pframe B ({..<N} - used_pages A) (vmem s) (vmem s1)" "aalloc F 0 = Some (P, F')"
        by (rule slab_grow_ok [OF i grow si sub]) (rule that)
      have PPs: "P \<notin> set Ps" using g(5) used_pages_slab [OF sub] by blast
      obtain x L' where x: "page_slots osz P @ L = x # L'"
        using page_slots_nonempty [OF sinvD(2,3) [OF si]] Nil by (cases "page_slots osz P") auto
      note six = g(6) [unfolded x]
      obtain c' where p: "slab_alloc c1 s1 = Some (word_of_nat x, c', s1)"
        "sinv B N osz c' (vmem s1) L' (P # Ps)" "marker c' = marker c1"
        by (rule slab_pop [OF okb binvD(2,3) [OF g(2)] six]) (rule that)
      have "slot_list c1 \<noteq> 0"
        using sll_head_null [OF sinvD(4) [OF six] okb] sepD(1) [OF sinv_sep [OF okb six]] by fastforce
      then have "slab_alloc c s = Some (word_of_nat x, c', s1)"
        using slab_alloc_grow [OF z g(1)] p(1) by simp
      moreover have "A \<union> slab_pages (P # Ps) = insert (P, 0) A" using sub by (auto simp: slab_pages_def)
      ultimately show thesis
        using p g PPs live_slots_pop [OF six] live_slots_grow [OF si PPs] unfolding x
        by (intro ok [of x c' s1 F' "P # Ps" L']) (auto simp: fun_eq_iff)
    qed
  qed
qed

subsection \<open>Release\<close>

lemma take_drop_remove1:
  "distinct Ps \<Longrightarrow> i < length Ps \<Longrightarrow> take i Ps @ drop (Suc i) Ps = remove1 (Ps ! i) Ps"
proof (induction Ps arbitrary: i)
  case Nil
  then show ?case by simp
next
  case (Cons P Ps)
  then show ?case by (cases i) auto
qed

lemma meta_of_filter: "Q \<noteq> P \<Longrightarrow> meta_of osz (filter (\<lambda>x. x div 4096 \<noteq> P) L) Q = meta_of osz L Q"
proof -
  assume "Q \<noteq> P"
  then have "filter (\<lambda>x. x div 4096 = Q) (filter (\<lambda>x. x div 4096 \<noteq> P) L) = filter (\<lambda>x. x div 4096 = Q) L"
    by (auto simp: filter_filter intro!: filter_cong)
  then show ?thesis by (simp add: meta_of_def cnt_def)
qed

lemma metas_drop:
  assumes "distinct Ps" "i < length Ps" "Ps ! i = P"
  shows "take i (map (meta_of osz L) Ps) @ drop (Suc i) (map (meta_of osz L) Ps) =
    map (meta_of osz (filter (\<lambda>x. x div 4096 \<noteq> P) L)) (remove1 P Ps)"
proof -
  have "take i (map (meta_of osz L) Ps) @ drop (Suc i) (map (meta_of osz L) Ps) =
      map (meta_of osz L) (remove1 P Ps)"
    using take_drop_remove1 [OF assms(1,2)] assms(3) by (simp add: take_map drop_map flip: map_append)
  also have "\<dots> = map (meta_of osz (filter (\<lambda>x. x div 4096 \<noteq> P) L)) (remove1 P Ps)"
    using assms(1) by (intro map_cong refl meta_of_filter [symmetric]) auto
  finally show ?thesis .
qed

lemma live_slots_shrink:
  assumes "sinv B N osz c m L Ps" "slots_of osz P \<subseteq> set L"
  shows "live_slots osz (filter (\<lambda>x. x div 4096 \<noteq> P) L) (remove1 P Ps) = live_slots osz L Ps"
proof -
  have "x div 4096 = Q" if "x \<in> slots_of osz Q" for x Q
    using that slots_of_page(3) sinvD(2) [OF assms(1)] by blast
  then show ?thesis using assms(2) sinvD(7) [OF assms(1)] by (auto simp: live_slots_def)
qed

lemma slab_shrink_correct:
  assumes i: "binv B S N (buddy s) (vmem s) F A" and si: "sinv B N osz c (vmem s) L Ps"
    and sub: "slab_pages Ps \<subseteq> A" and j: "j < length Ps" "Ps ! j = P"
    and A': "A' = A - {(P, 0)}"
  obtains c' s' F' where "slab_shrink c s j = Some (c', s')"
    "binv B S N (buddy s') (vmem s') F' A'"
    "sinv B N osz c' (vmem s') (filter (\<lambda>x. x div 4096 \<noteq> P) L) (remove1 P Ps)"
    "marker c' = marker c"
    "\<forall>x. x \<notin> {..<N} - used_pages A' \<longrightarrow> page_order (buddy s') x = page_order (buddy s) x"
    "bframe B (slot_bytes 8 (set L) \<union> page_bytes ({..<N} - used_pages A')) (vmem s) (vmem s')"
proof -
  note ok = binvD(1) [OF i]
  let ?L = "filter (\<lambda>x. x div 4096 \<noteq> P) L" and ?Ps = "remove1 P Ps"
  have PPs: "P \<in> set Ps" using j by auto
  have P: "P < N" "P < 2 ^ 20" using PPs sinvD(8) [OF si] node_bound [OF ok] by auto
  have PA: "insert (P, 0) A' = A" using PPs sub by (auto simp: slab_pages_def A')
  have nA: "(P, 0) \<notin> A'" by (simp add: A')
  have sub': "slab_pages ?Ps \<subseteq> A'"
    using sub sinvD(7) [OF si] by (auto simp: slab_pages_def A')
  have dsub: "distinct ([] @ L)" "sep S (set ([] @ L))" using sinvD(5) [OF si] sinv_sep [OF ok si] by auto
  have l: "sll (vmem s) B (slot_list c) ([] @ L)" using sinvD(4) [OF si] by simp
  obtain h1 m1 where pu: "purge (nd B P) (nd B P + PAGE_SIZE) NULL (slot_list c) (slot_list c) (vmem s) = Some (h1, m1)"
    and l1: "sll m1 B h1 ?L" and v1: "vram_at m1 B S" and f1: "bframe B (slot_bytes 8 (set L)) (vmem s) m1"
    using purge_list [OF ok P(1) binvD(2) [OF i] l sinvD(4) [OF si] _ dsub, of NULL] by (auto simp: NULL_def)
  have dis: "slot_bytes 8 (set L) \<inter> page_bytes ({..<N} - used_pages A) = {}"
    using slot_bytes_pages [OF si] slab_free_pages_disjoint [OF sub] by blast
  define b1 where "b1 = (buddy s)\<lparr>page_order := (page_order (buddy s))(P := 0)\<rparr>"
  define c' where "c' = c\<lparr>slot_list := h1, metas := map (meta_of osz ?L) ?Ps\<rparr>"
  have i1: "binv B S N b1 m1 F (insert (P, 0) A')"
    using binv_bframe [OF i f1 v1 dis] unfolding PA by (simp add: binv_def b1_def)
  have po0: "page_order b1 P = word_of_nat 0" by (simp add: b1_def)
  obtain b2 m2 where fr: "buddy_free b1 m1 (word_of_nat (4096 * P)) = Some (0, b2, m2)"
    and i2: "binv B S N b2 m2 (afree F P 0) A'"
    and po2: "\<forall>x. x \<notin> {..<N} - used_pages A' \<longrightarrow> page_order b2 x = page_order b1 x"
    and f2: "pframe B ({..<N} - used_pages A') m1 m2"
    using buddy_free_correct [OF i1 nA po0] by blast
  have "set ?L \<subseteq> (\<Union>P\<in>set ?Ps. slots_of osz P)"
  proof
    fix x assume "x \<in> set ?L"
    then have "x \<in> set L" "x div 4096 \<noteq> P" by auto
    then show "x \<in> (\<Union>P\<in>set ?Ps. slots_of osz P)"
      using sinv_slot [OF si, of x] sinvD(7) [OF si] by auto
  qed
  then have "sinv B N osz c' m1 ?L ?Ps"
    using si l1 set_remove1_subset [of P Ps] unfolding sinv_def c'_def by auto
  from sinv_bframe [OF ok this f2 [unfolded pframe_bframe] slab_free_pages_disjoint [OF sub']]
  have si2: "sinv B N osz c' m2 ?L ?Ps" .
  have ps: "po_set (buddy s) (word_of_nat (4096 * P) div PAGE_SIZE) 0 = Some b1"
    using page_div [of P] P(2) by (simp add: po_set_def b1_def BUDDY_TOTAL_PAGES_def del: of_nat_mult)
  have off: "page_offset (metas c ! j) = word_of_nat (4096 * P)"
    using j by (simp add: sinvD(9) [OF si] meta_of_def del: of_nat_mult)
  have md: "take j (metas c) @ drop (Suc j) (metas c) = map (meta_of osz ?L) ?Ps"
    unfolding sinvD(9) [OF si] by (rule metas_drop [OF sinvD(7) [OF si] j])
  have "slab_shrink c s j = Some (c', s\<lparr>buddy := b2, vmem := m2\<rparr>)"
    unfolding slab_shrink_def Let_def off binvD(3) [OF i] nd_offset using pu fr ps md
    by (simp add: c'_def del: of_nat_mult)
  moreover have "bframe B (slot_bytes 8 (set L) \<union> page_bytes ({..<N} - used_pages A')) (vmem s) m2"
    using bframe_mono [OF f1 Un_upper1] bframe_mono [OF f2 [unfolded pframe_bframe] Un_upper2]
    by (rule bframe_trans)
  moreover have "P \<in> {..<N} - used_pages A'"
    using pending_pages_free [OF binvD(4) [OF i1] nA] first_in_pages [of P 0] by blast
  ultimately show thesis
    using i2 si2 po2 by (intro that [of c' "s\<lparr>buddy := b2, vmem := m2\<rparr>"]) (auto simp: c'_def b1_def)
qed

lemma slab_push:
  assumes ok: "base_ok B S N" and v: "vram_at m B S" and si: "sinv B N osz c m L Ps"
    and x: "x \<in> live_slots osz L Ps"
    and m': "m' = put64 m (ofs B x) (slot_list c)"
    and c': "c' = c\<lparr>slot_list := ofs B x, metas := map (meta_of osz (x # L)) Ps\<rparr>"
  shows "mapped m (ofs B x) 8" "vram_at m' B S" "sinv B N osz c' m' (x # L) Ps"
    "bframe B (slot_bytes 8 (insert x (set L))) m m'"
proof -
  have xs: "x \<in> (\<Union>P\<in>set Ps. slots_of osz P)" "x \<notin> set L" using x by (auto simp: live_slots_def)
  then have ins: "insert x (set L) \<subseteq> (\<Union>P\<in>set Ps. slots_of osz P)" using sinvD(6) [OF si] by blast
  have sp: "sep S (insert x (set L))" using slots_sep [OF ok sinvD(2) [OF si] ins sinvD(8) [OF si]] .
  have x8: "x + 8 \<le> S" using sepD(1) [OF sp] by simp
  show mp: "mapped m (ofs B x) 8" using slot_mapped [OF v ok x8] .
  show "vram_at m' B S" unfolding m' using v mp by (simp add: vram_at_put64)
  have "sll m' B (slot_list c) L"
    unfolding m' using sll_put_other [OF sep_le [OF sp base_okD(5) [OF ok]] xs(2)] sinvD(4) [OF si] by simp
  then show "sinv B N osz c' m' (x # L) Ps"
    using si xs ins by (simp add: sinv_def c' m' get64_put64_same)
  show "bframe B (slot_bytes 8 (insert x (set L))) m m'"
    unfolding m' using x8 base_okD(5) [OF ok] by (intro slot_bytes_put64) auto
qed

lemma full_page:
  assumes si: "sinv B N osz c m L Ps" and full: "free_count (meta_of osz L P) = total_slots (meta_of osz L P)"
  shows "slots_of osz P \<subseteq> set L"
proof -
  note c = cnt_le [OF sinvD(5,6,2) [OF si], of P]
  have le: "4096 div osz \<le> 512" using div_le_mono2 [OF _ sinvD(2) [OF si], of 4096] by simp
  have "unat (word_of_nat (cnt L P) :: u16) = unat (word_of_nat (4096 div osz) :: u16)"
    using full by (simp add: meta_of_def)
  then have "cnt L P = 4096 div osz" using c(1) le by (simp add: unat_of_nat)
  then show ?thesis by (rule c(2))
qed

lemma has_other_iff: "i < n \<Longrightarrow> list_ex (\<lambda>j. j \<noteq> i) [0..<n] \<longleftrightarrow> 1 < n"
  by (cases "i = 0") (auto simp: list_ex_iff intro: bexI [of _ 1] bexI [of _ 0])

theorem slab_free_cases:
  assumes i: "binv B S N (buddy s) (vmem s) F A" and si: "sinv B N osz c (vmem s) L Ps"
    and sub: "slab_pages Ps \<subseteq> A" and x: "x \<in> live_slots osz L Ps"
  obtains c' s' F' L' Ps' A' where "slab_free c s (word_of_nat x) = Some (0, c', s')"
    "binv B S N (buddy s') (vmem s') F' A'" "sinv B N osz c' (vmem s') L' Ps'"
    "live_slots osz L' Ps' = live_slots osz L Ps - {x}"
    "A' = A - slab_pages Ps \<union> slab_pages Ps'" "set Ps' \<subseteq> set Ps" "Ps' \<noteq> []"
    "marker c' = marker c"
    "\<forall>y. y \<notin> {..<N} - used_pages A' \<longrightarrow> page_order (buddy s') y = page_order (buddy s) y"
    "bframe B (slot_bytes 8 (insert x (set L)) \<union> page_bytes ({..<N} - used_pages A')) (vmem s) (vmem s')"
proof -
  note ok = binvD(1) [OF i]
  let ?P = "x div 4096"
  have xs: "x \<in> (\<Union>P\<in>set Ps. slots_of osz P)" using x by (simp add: live_slots_def)
  then have PPs: "?P \<in> set Ps" using slots_of_page(3) [OF _ sinvD(2) [OF si]] by auto
  obtain j where j: "j < length Ps" "Ps ! j = ?P"
    and fm: "\<And>L. find_meta (page_of (word_of_nat x)) (map (meta_of osz L) Ps) = Some j"
    by (rule find_meta_slot [OF ok sinvD(7,8) [OF si] PPs]) (rule that)
  define m1 where "m1 = put64 (vmem s) (ofs B x) (slot_list c)"
  define c1 where "c1 = c\<lparr>slot_list := ofs B x, metas := map (meta_of osz (x # L)) Ps\<rparr>"
  define s1 where "s1 = s\<lparr>vmem := m1\<rparr>"
  note push = slab_push [OF ok binvD(2) [OF i] si x m1_def c1_def]
  have live: "live_slots osz (x # L) Ps = live_slots osz L Ps - {x}" by (auto simp: live_slots_def)
  have i1: "binv B S N (buddy s1) (vmem s1) F A"
    unfolding s1_def using binv_bframe [OF i push(4) push(2)] slot_bytes_pages [OF push(3)]
      slab_free_pages_disjoint [OF sub, of N] by auto
  have si1: "sinv B N osz c1 (vmem s1) (x # L) Ps" using push(3) by (simp add: s1_def)
  let ?full = "free_count (meta_of osz (x # L) ?P) = total_slots (meta_of osz (x # L) ?P)"
  have upd: "(meta_of osz L (Ps ! j))\<lparr>free_count := free_count (meta_of osz L (Ps ! j)) + 1\<rparr> =
      meta_of osz (x # L) ?P" using j by (simp add: meta_of_def cnt_Cons)
  have fc: "free_count (meta_of osz L ?P) + 1 = free_count (meta_of osz (x # L) ?P)"
    "total_slots (meta_of osz L ?P) = total_slots (meta_of osz (x # L) ?P)"
    by (simp_all add: meta_of_def cnt_Cons)
  have unf: "slab_free c s (word_of_nat x) = (if ?full \<and> 1 < length Ps then
      do { (cache, s) \<leftarrow> slab_shrink c1 s1 j; Some (0, cache, s) } else Some (0, c1, s1))"
    unfolding slab_free_def Let_def using binvD(3) [OF i] push(1) fm j upd
      metas_push [OF sinvD(7) [OF si] j, of osz L] has_other_iff [OF j(1)]
    by (simp add: store64_def add.commute [of _ B] sinvD(9) [OF si] fc m1_def
        s1_def c1_def cong: if_plain_cong split del: if_split)
  show thesis
  proof (cases "?full \<and> 1 < length Ps")
    case False
    have "A = A - slab_pages Ps \<union> slab_pages Ps" using sub by blast
    moreover have "bframe B (slot_bytes 8 (insert x (set L)) \<union> page_bytes ({..<N} - used_pages A)) (vmem s) m1"
      using push(4) by (rule bframe_mono) simp
    moreover have "slab_free c s (word_of_nat x) = Some (0, c1, s1)" unfolding unf if_not_P [OF False] ..
    ultimately show thesis
      using i1 si1 live PPs by (intro that [of c1 s1 F A "x # L" Ps]) (auto simp: s1_def c1_def)
  next
    case True
    obtain c2 s2 F2 where sh: "slab_shrink c1 s1 j = Some (c2, s2)"
      and i2: "binv B S N (buddy s2) (vmem s2) F2 (A - {(?P, 0)})"
      and si2: "sinv B N osz c2 (vmem s2) (filter (\<lambda>y. y div 4096 \<noteq> ?P) (x # L)) (remove1 ?P Ps)"
      and mk: "marker c2 = marker c1"
      and po: "\<forall>y. y \<notin> {..<N} - used_pages (A - {(?P, 0)}) \<longrightarrow> page_order (buddy s2) y = page_order (buddy s1) y"
      and fr: "bframe B (slot_bytes 8 (set (x # L)) \<union> page_bytes ({..<N} - used_pages (A - {(?P, 0)}))) (vmem s1) (vmem s2)"
      by (rule slab_shrink_correct [OF i1 si1 sub j refl]) (rule that)
    have eqA: "A - {(?P, 0)} = A - slab_pages Ps \<union> slab_pages (remove1 ?P Ps)"
      using sub sinvD(7) [OF si] PPs by (auto simp: slab_pages_def)
    have ne: "remove1 ?P Ps \<noteq> []"
      using True length_remove1 [of ?P Ps] PPs by (auto simp del: length_0_conv simp: length_0_conv [symmetric])
    have "bframe B (slot_bytes 8 (insert x (set L)) \<union> page_bytes ({..<N} - used_pages (A - {(?P, 0)}))) (vmem s) m1"
      using push(4) by (rule bframe_mono) simp
    then have fr': "bframe B (slot_bytes 8 (insert x (set L)) \<union> page_bytes ({..<N} - used_pages (A - {(?P, 0)}))) (vmem s) (vmem s2)"
      using fr bframe_trans by (simp add: s1_def)
    have "slab_free c s (word_of_nat x) = Some (0, c2, s2)" using unf True sh by simp
    moreover have "live_slots osz (filter (\<lambda>y. y div 4096 \<noteq> ?P) (x # L)) (remove1 ?P Ps) = live_slots osz L Ps - {x}"
      using live_slots_shrink [OF si1, of ?P] full_page [OF si1, of ?P] True live by simp
    ultimately show thesis
      using i2 si2 mk po fr' eqA ne set_remove1_subset [of ?P Ps]
      by (intro that [of c2 s2 F2 "A - {(?P, 0)}"]) (simp_all add: s1_def c1_def)
  qed
qed

subsection \<open>A new cache\<close>

lemma sinv_empty:
  "8 \<le> osz \<Longrightarrow> osz \<le> 4096 \<Longrightarrow>
   sinv B N osz \<lparr>object_size = word_of_nat osz, marker = mark, slot_list = NULL, metas = []\<rparr> m [] []"
  by (simp add: sinv_def NULL_def)

theorem slab_cache_init_correct:
  assumes i: "binv B S N (buddy s) (vmem s) F A" and room: "has_room F" and mc: "fst (malloc s)"
    and osz: "8 \<le> osz" "osz \<le> 4096"
  obtains P F' c' s' where "slab_cache_init (word_of_nat osz) mark s = Some (0, c', s')"
    "binv B S N (buddy s') (vmem s') F' (insert (P, 0) A)" "(P, 0) \<notin> A" "P < N" "P \<notin> used_pages A"
    "sinv B N osz c' (vmem s') (page_slots osz P) [P]" "marker c' = mark"
    "page_order (buddy s') = (page_order (buddy s))(P := mark)"
    "mallocs s' = mallocs (snd (malloc s))" "pframe B ({..<N} - used_pages A) (vmem s) (vmem s')" "aalloc F 0 = Some (P, F')"
proof -
  let ?c = "\<lparr>object_size = word_of_nat osz, marker = mark, slot_list = NULL, metas = []\<rparr>"
  have "slab_pages [] \<subseteq> A" by (simp add: slab_pages_def)
  from slab_grow_ok [OF i room mc sinv_empty [OF osz] this] obtain P F' c' s' where
    "slab_grow ?c s = Some (0, c', s')"
    "binv B S N (buddy s') (vmem s') F' (insert (P, 0) A)" "(P, 0) \<notin> A" "P < N" "P \<notin> used_pages A"
    "sinv B N osz c' (vmem s') (page_slots osz P @ []) [P]"
    "page_order (buddy s') = (page_order (buddy s))(P := mark)" "marker c' = mark"
    "mallocs s' = mallocs (snd (malloc s))" "pframe B ({..<N} - used_pages A) (vmem s) (vmem s')" "aalloc F 0 = Some (P, F')"
    by (metis slab_cache.select_convs(2))
  then show thesis by (intro that [of c' s' F' P]) (simp_all add: slab_cache_init_def Let_def)
qed

end
