(* ===== verification/Libgpgpu_Heap.thy ===== *)
theory Libgpgpu_Heap
  imports Libgpgpu Slab_Ops
begin

text \<open>
  The heap of a context: the buddy allocator and the six slab caches share the pages, every
  entry of \<open>page_order\<close> that \<open>gpuFree\<close> reads tells where the address came from, and the
  regions that are handed out do not overlap.
\<close>

fun osz_of :: "slab_ptr \<Rightarrow> nat" where
  "osz_of slab_32 = 32"
| "osz_of slab_64 = 64"
| "osz_of slab_128 = 128"
| "osz_of slab_256 = 256"
| "osz_of slab_512 = 512"
| "osz_of slab_2048 = 2048"

fun mark_of :: "slab_ptr \<Rightarrow> u8" where
  "mark_of slab_32 = PAGE_ORDER_SLAB_32"
| "mark_of slab_64 = PAGE_ORDER_SLAB_64"
| "mark_of slab_128 = PAGE_ORDER_SLAB_128"
| "mark_of slab_256 = PAGE_ORDER_SLAB_256"
| "mark_of slab_512 = PAGE_ORDER_SLAB_512"
| "mark_of slab_2048 = PAGE_ORDER_SLAB_2048"

type_synonym region = "nat \<times> nat"

definition rbytes :: "region \<Rightarrow> nat set" where
  "rbytes r = {fst r ..< fst r + snd r}"

definition block_region :: "block \<Rightarrow> region" where
  "block_region b = (4096 * fst b, 4096 * 2 ^ snd b)"

definition all_blocks :: "block set \<Rightarrow> (slab_ptr \<Rightarrow> nat list) \<Rightarrow> block set" where
  "all_blocks U P = U \<union> (\<Union>p. slab_pages (P p))"

text \<open>\<open>U\<close> holds the blocks of the user, \<open>L\<close> the free slots and \<open>P\<close> the pages of each cache.\<close>

definition ginv :: "u64 \<Rightarrow> nat \<Rightarrow> nat \<Rightarrow> gpgpu_ctx \<Rightarrow> freelists \<Rightarrow> block set \<Rightarrow>
  (slab_ptr \<Rightarrow> nat list) \<Rightarrow> (slab_ptr \<Rightarrow> nat list) \<Rightarrow> bool" where
  "ginv B S N ctx F U L P \<longleftrightarrow> vram_mmap ctx = B \<and>
     binv B S N (buddy (sh ctx)) (vmem (sh ctx)) F (all_blocks U P) \<and>
     (\<forall>p. sinv B N (osz_of p) (slab_at ctx p) (vmem (sh ctx)) (L p) (P p) \<and>
        marker (slab_at ctx p) = mark_of p \<and> slab_pages (P p) \<inter> U = {} \<and>
        (\<forall>x\<in>set (P p). page_order (buddy (sh ctx)) x = mark_of p)) \<and>
     (\<forall>p q. p \<noteq> q \<longrightarrow> set (P p) \<inter> set (P q) = {}) \<and>
     (\<forall>b\<in>U. page_order (buddy (sh ctx)) (fst b) = word_of_nat (snd b))"

definition regions :: "block set \<Rightarrow> (slab_ptr \<Rightarrow> nat list) \<Rightarrow> (slab_ptr \<Rightarrow> nat list) \<Rightarrow> region set" where
  "regions U L P = block_region ` U \<union>
     (\<Union>p. (\<lambda>x. (x, osz_of p)) ` live_slots (osz_of p) (L p) (P p))"

text \<open>The heap as a client sees it: the set of regions that are handed out.\<close>

definition heap :: "u64 \<Rightarrow> nat \<Rightarrow> nat \<Rightarrow> gpgpu_ctx \<Rightarrow> region set \<Rightarrow> bool" where
  "heap B S N ctx R \<longleftrightarrow> (\<exists>F U L P. ginv B S N ctx F U L P \<and> R = regions U L P)"

lemma ginvD:
  assumes "ginv B S N ctx F U L P"
  shows "vram_mmap ctx = B" "binv B S N (buddy (sh ctx)) (vmem (sh ctx)) F (all_blocks U P)"
    "sinv B N (osz_of p) (slab_at ctx p) (vmem (sh ctx)) (L p) (P p)"
    "marker (slab_at ctx p) = mark_of p" "slab_pages (P p) \<inter> U = {}"
    "x \<in> set (P p) \<Longrightarrow> page_order (buddy (sh ctx)) x = mark_of p"
    "p \<noteq> q \<Longrightarrow> set (P p) \<inter> set (P q) = {}"
    "(y, k) \<in> U \<Longrightarrow> page_order (buddy (sh ctx)) y = word_of_nat k"
  using assms unfolding ginv_def by (blast, blast, blast, blast, blast, blast, blast, fastforce)

lemma slab_pages_all: "slab_pages (P p) \<subseteq> all_blocks U P"
  by (auto simp: all_blocks_def)

lemma slab_pages_disjoint: "set xs \<inter> set ys = {} \<Longrightarrow> slab_pages xs \<inter> slab_pages ys = {}"
  by (auto simp: slab_pages_def)

lemma osz_bounds: "8 \<le> osz_of p" "osz_of p \<le> 4096" "osz_of p < 4096"
  by (cases p; simp)+

subsection \<open>Regions\<close>

lemma block_rbytes: "rbytes (block_region b) = page_bytes (pages b)"
proof -
  have "4096 * q \<le> y \<and> y < 4096 * q + 4096 * n \<longleftrightarrow> q \<le> y div 4096 \<and> y div 4096 < q + n" for q n y :: nat
    by (simp add: less_eq_div_iff_mult_less_eq div_less_iff_less_mult algebra_simps)
  then show ?thesis
    by (auto simp: rbytes_def block_region_def page_bytes_def pages_def)
qed

lemma slot_rbytes: "x \<in> slots_of (osz_of p) Q \<Longrightarrow> rbytes (x, osz_of p) \<subseteq> page_bytes {Q}"
  unfolding rbytes_def using slot_in_page [of x "osz_of p" Q "osz_of p"] osz_bounds(1) by simp

text \<open>The page or block a live region lies in, as an element of \<open>all_blocks\<close>.\<close>

lemma region_cases:
  assumes "r \<in> regions U L P"
  obtains (block) b where "b \<in> U" "r = block_region b"
  | (slot) p x Q where "r = (x, osz_of p)" "x \<in> live_slots (osz_of p) (L p) (P p)"
      "Q \<in> set (P p)" "x \<in> slots_of (osz_of p) Q"
proof -
  consider b where "b \<in> U" "r = block_region b"
    | p x where "r = (x, osz_of p)" "x \<in> live_slots (osz_of p) (L p) (P p)"
    using assms unfolding regions_def by blast
  then show thesis
  proof cases
    case 1
    then show thesis by (rule block)
  next
    case 2
    then obtain Q where "Q \<in> set (P p)" "x \<in> slots_of (osz_of p) Q"
      unfolding live_slots_def by blast
    with 2 show thesis by (rule slot)
  qed
qed

lemma region_block:
  assumes "r \<in> regions U L P"
  obtains b where "b \<in> all_blocks U P" "rbytes r \<subseteq> page_bytes (pages b)"
  using assms
proof (cases rule: region_cases)
  case (block b)
  then show thesis using that [of b] by (auto simp: all_blocks_def block_rbytes)
next
  case (slot p x Q)
  have "(Q, 0) \<in> all_blocks U P" using slot(3) by (auto simp: all_blocks_def slab_pages_def)
  moreover have "pages (Q, 0) = {Q}" by (auto simp: pages_def)
  ultimately show thesis using that [of "(Q, 0)"] slot slot_rbytes by simp
qed

lemma region_used: "r \<in> regions U L P \<Longrightarrow> rbytes r \<subseteq> page_bytes (used_pages (all_blocks U P))"
proof -
  assume "r \<in> regions U L P"
  then obtain b where "b \<in> all_blocks U P" "rbytes r \<subseteq> page_bytes (pages b)" by (rule region_block)
  moreover have "page_bytes (pages b) \<subseteq> page_bytes (used_pages (all_blocks U P))"
    using calculation(1) by (intro page_bytes_mono) (auto simp: used_pages_def)
  ultimately show ?thesis by blast
qed

lemma blocks_disjoint:
  assumes g: "ginv B S N ctx F U L P" and "b \<in> all_blocks U P" "c \<in> all_blocks U P" "b \<noteq> c"
  shows "page_bytes (pages b) \<inter> page_bytes (pages c) = {}"
  using wf_lists_disjoint [OF binvD(4) [OF ginvD(2) [OF g]], of b c] assms
  by (intro page_bytes_disjoint) blast

lemma regions_disjoint:
  assumes g: "ginv B S N ctx F U L P" and r: "r \<in> regions U L P" and q: "q \<in> regions U L P"
    and ne: "r \<noteq> q"
  shows "rbytes r \<inter> rbytes q = {}"
proof -
  have bs: "rbytes (block_region b) \<inter> rbytes (x, osz_of p) = {}"
    if "b \<in> U" "Q \<in> set (P p)" "x \<in> slots_of (osz_of p) Q" for b p x Q
  proof -
    have "(Q, 0) \<in> slab_pages (P p)" using that(2) by (simp add: slab_pages_def)
    then have "(Q, 0) \<noteq> b" "(Q, 0) \<in> all_blocks U P" using ginvD(5) [OF g, of p] that(1)
      by (auto simp: all_blocks_def)
    moreover have "b \<in> all_blocks U P" using that(1) by (simp add: all_blocks_def)
    ultimately have "page_bytes (pages b) \<inter> page_bytes {Q} = {}"
      using blocks_disjoint [OF g, of b "(Q, 0)"] by (auto simp: pages_def)
    then show ?thesis using slot_rbytes [OF that(3)] block_rbytes by blast
  qed
  show ?thesis
    using r
  proof (cases rule: region_cases)
    case (block b)
    note b = this
    show ?thesis
      using q
    proof (cases rule: region_cases)
      case (block c)
      then have "b \<noteq> c" using b ne by auto
      then show ?thesis
        using blocks_disjoint [OF g, of b c] b block by (auto simp: all_blocks_def block_rbytes)
    next
      case (slot p x Q)
      then show ?thesis using bs b by simp
    qed
  next
    case (slot p x Q)
    note s = this
    show ?thesis
      using q
    proof (cases rule: region_cases)
      case (block c)
      then show ?thesis using bs [OF _ s(3,4)] s(1) by blast
    next
      case (slot p' y Q')
      show ?thesis
      proof (cases "p = p'")
        case True
        then have "x \<noteq> y" using ne s(1) slot(1) by auto
        then have "x + osz_of p \<le> y \<or> y + osz_of p \<le> x"
          using slots_of_disjoint [OF s(4), of y Q'] slot(4) osz_bounds(1) [of p] True by simp
        then show ?thesis using s(1) slot(1) True by (auto simp: rbytes_def)
      next
        case False
        then have "Q \<noteq> Q'" using ginvD(7) [OF g False] s(3) slot(3) by blast
        then have "page_bytes {Q} \<inter> page_bytes {Q'} = {}" by (intro page_bytes_disjoint) simp
        then show ?thesis using slot_rbytes [OF s(4)] slot_rbytes [OF slot(4)] s(1) slot(1) by blast
      qed
    qed
  qed
qed

lemma region_in_vram:
  assumes g: "ginv B S N ctx F U L P" and r: "r \<in> regions U L P"
  shows "fst r + snd r \<le> 4096 * N" "8 \<le> snd r"
proof -
  note w = binvD(4) [OF ginvD(2) [OF g]]
  show "fst r + snd r \<le> 4096 * N"
    using r
  proof (cases rule: region_cases)
    case (block b)
    then have "fst b + 2 ^ snd b \<le> N" using wf_lists_fblock(3) [OF w, of "fst b" "snd b"]
      by (simp add: all_blocks_def)
    then have "4096 * (fst b + 2 ^ snd b) \<le> 4096 * N" by (rule mult_le_mono2)
    then show ?thesis using block by (simp add: block_region_def)
  next
    case (slot p x Q)
    have "Q < N" using sinvD(8) [OF ginvD(3) [OF g, of p]] slot(3) by auto
    then have "4096 * (Q + 1) \<le> 4096 * N" by (intro mult_le_mono2) simp
    then show ?thesis using slots_of_page(2) [OF slot(4) osz_bounds(1)] slot(1) by simp
  qed
  show "8 \<le> snd r"
    using r
  proof (cases rule: region_cases)
    case (block b)
    have "(1 :: nat) \<le> 2 ^ snd b" by simp
    then show ?thesis using block by (simp add: block_region_def)
  next
    case (slot p x Q)
    then show ?thesis using osz_bounds(1) by simp
  qed
qed

end
