(* ===== verification/Libgpgpu_Ops.thy ===== *)
theory Libgpgpu_Ops
  imports Libgpgpu_Heap
begin

text \<open>
  Correctness of \<open>gpuMalloc\<close>, \<open>gpuFree\<close>, \<open>gpuMemcpy\<close> and \<open>gpuInit\<close> on the heap of
  a context.
\<close>

lemma slab_at_put [simp]: "slab_at (slab_put ctx p c) q = (if q = p then c else slab_at ctx q)"
  by (cases p; cases q; simp)

lemma slab_put_fields [simp]:
  "sh (slab_put ctx p c) = sh ctx" "vram_mmap (slab_put ctx p c) = vram_mmap ctx"
  "fd (slab_put ctx p c) = fd ctx" "vram_size (slab_put ctx p c) = vram_size ctx"
  by (cases p; simp)+

lemma slab_at_sh [simp]: "slab_at (ctx\<lparr>sh := s\<rparr>) q = slab_at ctx q"
  by (cases q) simp_all

lemma slab_put_same: "slab_put ctx p (slab_at ctx p) = ctx"
  by (cases p) simp_all

lemma used_pagesI: "b \<in> A \<Longrightarrow> x \<in> pages b \<Longrightarrow> x \<in> used_pages A"
  by (auto simp: used_pages_def)

subsection \<open>Updates that keep the heap\<close>

lemma user_page_not_slab:
  assumes g: "ginv B S N ctx F U L P" and b: "b \<in> U"
  shows "fst b \<notin> set (P p)"
proof
  assume "fst b \<in> set (P p)"
  then have s: "(fst b, 0) \<in> slab_pages (P p)" by (simp add: slab_pages_def)
  then have "b \<noteq> (fst b, 0)" using ginvD(5) [OF g, of p] b by auto
  moreover have "b \<in> all_blocks U P" "(fst b, 0) \<in> all_blocks U P"
    using b s by (auto simp: all_blocks_def)
  ultimately have "pages b \<inter> pages (fst b, 0) = {}"
    using wf_lists_disjoint [OF binvD(4) [OF ginvD(2) [OF g]], of b "(fst b, 0)"] by blast
  then show False using first_in_pages [of "fst b" "snd b"] first_in_pages [of "fst b" 0] by auto
qed

lemma all_blocks_upd:
  assumes g: "ginv B S N ctx F U L P"
  shows "all_blocks U (P(p := P')) = all_blocks U P - slab_pages (P p) \<union> slab_pages P'"
proof -
  have "slab_pages (P q) \<inter> slab_pages (P p) = {}" if "q \<noteq> p" for q
    using ginvD(7) [OF g that] by (rule slab_pages_disjoint)
  then have rest: "(\<Union>q\<in>- {p}. slab_pages (P q)) = (\<Union>q. slab_pages (P q)) - slab_pages (P p)" by blast
  have u: "U - slab_pages (P p) = U" using ginvD(5) [OF g, of p] by blast
  have "(\<Union>q. slab_pages ((P(p := P')) q)) = slab_pages P' \<union> (\<Union>q\<in>- {p}. slab_pages (P q))"
    by (auto split: if_splits)
  then show ?thesis unfolding all_blocks_def Un_Diff u rest by (simp add: Un_ac)
qed

lemma ginv_slab_update:
  assumes g: "ginv B S N ctx F U L P"
    and i: "binv B S N (buddy s') (vmem s') F' A'"
    and A': "A' = all_blocks U P - slab_pages (P p) \<union> slab_pages P'"
    and si: "sinv B N (osz_of p) c' (vmem s') L' P'" and mk: "marker c' = mark_of p"
    and fr: "bframe B X (vmem (sh ctx)) (vmem s')"
    and dis: "\<And>q. q \<noteq> p \<Longrightarrow> page_bytes (set (P q)) \<inter> X = {}"
    and new: "(set P' - set (P p)) \<inter> used_pages (all_blocks U P) = {}"
    and po: "\<And>x. x \<in> used_pages A' \<Longrightarrow> x \<notin> set P' \<Longrightarrow>
      page_order (buddy s') x = page_order (buddy (sh ctx)) x"
    and pm: "\<And>x. x \<in> set P' \<Longrightarrow> page_order (buddy s') x = mark_of p"
  shows "ginv B S N (slab_put (ctx\<lparr>sh := s'\<rparr>) p c') F' U (L(p := L')) (P(p := P'))"
proof -
  let ?P = "P(p := P')"
  have used: "set (P q) \<subseteq> used_pages (all_blocks U P)" for q
    using used_pages_slab [OF slab_pages_all] .
  have oth: "set P' \<inter> set (P q) = {}" if "q \<noteq> p" for q
    using new used [of q] ginvD(7) [OF g that] by blast
  have all: "all_blocks U ?P = A'" unfolding A' by (rule all_blocks_upd [OF g])
  have U': "fst b \<notin> set P'" "fst b \<in> used_pages A'" if "b \<in> U" for b
  proof -
    have "b \<in> all_blocks U P" using that by (simp add: all_blocks_def)
    then have "fst b \<in> used_pages (all_blocks U P)"
      using first_in_pages [of "fst b" "snd b"] by (intro used_pagesI) auto
    then show "fst b \<notin> set P'" using user_page_not_slab [OF g that, of p] new by blast
    have "b \<in> A'" using that all by (auto simp: all_blocks_def)
    then show "fst b \<in> used_pages A'"
      using first_in_pages [of "fst b" "snd b"] by (intro used_pagesI) auto
  qed
  have usedq: "set (?P q) \<subseteq> used_pages A'" for q
    using used_pages_slab [OF slab_pages_all [of ?P q U]] unfolding all .
  have "sinv B N (osz_of q) (slab_at (slab_put (ctx\<lparr>sh := s'\<rparr>) p c') q) (vmem s') ((L(p := L')) q) (?P q)" for q
    using si sinv_bframe [OF binvD(1) [OF i] ginvD(3) [OF g] fr dis] by simp
  moreover have "slab_pages (?P q) \<inter> U = {}" for q
    using U' ginvD(5) [OF g, of q] by (auto simp: slab_pages_def)
  moreover have "page_order (buddy s') x = mark_of q" if "x \<in> set (?P q)" for q x
    using that pm po [of x] usedq [of q] oth [of q] ginvD(6) [OF g, of x q] by (auto split: if_splits)
  moreover have "set (?P q) \<inter> set (?P r) = {}" if "q \<noteq> r" for q r
    using that oth [of q] oth [of r] ginvD(7) [OF g that] by (auto split: if_splits)
  moreover have "page_order (buddy s') (fst b) = word_of_nat (snd b)" if "b \<in> U" for b
    using U' [OF that] po ginvD(8) [OF g, of "fst b" "snd b"] that by simp
  ultimately show ?thesis
    unfolding ginv_def using i mk ginvD(1,4) [OF g] all by (simp del: fun_upd_apply)
qed

lemma ginv_user_update:
  assumes g: "ginv B S N ctx F U L P" and i: "binv B S N b' m' F' (all_blocks U' P)"
    and fr: "bframe B X (vmem (sh ctx)) m'" and dis: "\<And>q. page_bytes (set (P q)) \<inter> X = {}"
    and U': "\<And>p. slab_pages (P p) \<inter> U' = {}"
    and pos: "\<And>x p. x \<in> set (P p) \<Longrightarrow> page_order b' x = page_order (buddy (sh ctx)) x"
    and pou: "\<And>b. b \<in> U' \<Longrightarrow> page_order b' (fst b) = word_of_nat (snd b)"
  shows "ginv B S N (ctx\<lparr>sh := (sh ctx)\<lparr>buddy := b', vmem := m'\<rparr>\<rparr>) F' U' L P"
proof -
  have "sinv B N (osz_of q) (slab_at ctx q) m' (L q) (P q)" for q
    using sinv_bframe [OF binvD(1) [OF i] ginvD(3) [OF g] fr dis] .
  moreover have "page_order b' x = mark_of q" if "x \<in> set (P q)" for q x
    using that pos ginvD(6) [OF g that] by simp
  ultimately show ?thesis
    unfolding ginv_def using i U' pou ginvD(1,4) [OF g] ginvD(7) [OF g] by simp
qed

subsection \<open>Sizes and markers\<close>

lemma osz_of_inj: "osz_of p = osz_of q \<longleftrightarrow> p = q"
  by (cases p; cases q; simp)

lemma route_slab_Some:
  assumes "route_slab sz = Some (p, mark)"
  shows "unat sz \<le> osz_of p" "mark = mark_of p"
  using assms by (auto simp: route_slab_def word_le_nat_alt split: if_splits)

lemma route_slab_None: "route_slab sz = None \<longleftrightarrow> 2048 < unat sz"
  by (auto simp: route_slab_def word_le_nat_alt split: if_splits)

lemma get_slab_mark [simp]: "get_slab (mark_of p) = Some p"
  by (cases p) (simp_all add: get_slab_def marker_defs)

lemma get_slab_order:
  assumes "k < 21"
  shows "get_slab (word_of_nat k) = None"
proof -
  have "unat (word_of_nat k :: u8) = k" using assms by (rule small_order)
  then have "(word_of_nat k :: u8) \<noteq> v" if "21 \<le> unat v" for v using assms that by auto
  then show ?thesis by (simp add: get_slab_def marker_defs)
qed

subsection \<open>The set of regions\<close>

definition slot_regions :: "slab_ptr \<Rightarrow> nat list \<Rightarrow> nat list \<Rightarrow> region set" where
  "slot_regions p L P = (\<lambda>x. (x, osz_of p)) ` live_slots (osz_of p) L P"

lemma regions_eq: "regions U L P = block_region ` U \<union> (\<Union>p. slot_regions p (L p) (P p))"
  by (simp add: regions_def slot_regions_def)

lemma UN_upd_insert:
  assumes "\<And>q. f' q = (if q = p then insert y (f q) else f q)"
  shows "(\<Union>q. f' q) = insert y (\<Union>q. f q)"
  unfolding assms by (auto split: if_splits)

lemma UN_upd_remove:
  assumes "\<And>q. f' q = f q - {y}"
  shows "(\<Union>q. f' q) = (\<Union>q. f q) - {y}"
  unfolding assms by blast

lemma regions_slot_insert:
  assumes "live_slots (osz_of p) L' P' = insert x (live_slots (osz_of p) (L p) (P p))"
  shows "regions U (L(p := L')) (P(p := P')) = insert (x, osz_of p) (regions U L P)"
proof -
  have "(\<Union>q. slot_regions q ((L(p := L')) q) ((P(p := P')) q)) =
      insert (x, osz_of p) (\<Union>q. slot_regions q (L q) (P q))"
    by (rule UN_upd_insert [where p = p]) (simp add: slot_regions_def assms)
  then show ?thesis unfolding regions_eq by simp
qed

lemma block_region_ne: "(x, osz_of p) \<noteq> block_region b"
proof -
  have "(1 :: nat) \<le> 2 ^ snd b" by simp
  then have "4096 \<le> snd (block_region b)" by (simp add: block_region_def)
  then show ?thesis using osz_bounds(3) [of p] by (metis not_less snd_conv)
qed

lemma block_region_inj: "block_region b = block_region c \<longleftrightarrow> b = c"
  by (auto simp: block_region_def prod_eq_iff)

lemma regions_slot_remove:
  assumes "live_slots (osz_of p) L' P' = live_slots (osz_of p) (L p) (P p) - {x}"
  shows "regions U (L(p := L')) (P(p := P')) = regions U L P - {(x, osz_of p)}"
proof -
  have "(\<Union>q. slot_regions q ((L(p := L')) q) ((P(p := P')) q)) =
      (\<Union>q. slot_regions q (L q) (P q)) - {(x, osz_of p)}"
    by (rule UN_upd_remove) (auto simp: slot_regions_def assms osz_of_inj)
  moreover have "block_region ` U - {(x, osz_of p)} = block_region ` U"
    using block_region_ne by blast
  ultimately show ?thesis unfolding regions_eq Un_Diff by simp
qed

lemma regions_block_insert: "regions (insert b U) L P = insert (block_region b) (regions U L P)"
  by (auto simp: regions_def)

lemma regions_block_remove: "regions (U - {b}) L P = regions U L P - {block_region b}"
proof -
  have "block_region b \<notin> slot_regions q (L q) (P q)" for q
    unfolding slot_regions_def using block_region_ne [of _ q b] by (metis imageE)
  then have "slot_regions q (L q) (P q) = slot_regions q (L q) (P q) - {block_region b}" for q
    by simp
  then have s: "(\<Union>q. slot_regions q (L q) (P q)) = (\<Union>q. slot_regions q (L q) (P q)) - {block_region b}"
    by (rule UN_upd_remove)
  have "block_region ` (U - {b}) = block_region ` U - {block_region b}"
    by (auto simp: block_region_inj)
  then show ?thesis unfolding regions_eq Un_Diff using s by simp
qed

subsection \<open>What the regions hold\<close>

definition rdata :: "gpgpu_ctx \<Rightarrow> region \<Rightarrow> u8 list" where
  "rdata ctx r = get_bytes (vmem (sh ctx)) (ofs (vram_mmap ctx) (fst r)) (snd r)"

definition same_handle :: "gpgpu_ctx \<Rightarrow> gpgpu_ctx \<Rightarrow> bool" where
  "same_handle ctx ctx' \<longleftrightarrow> fd ctx' = fd ctx \<and> vram_mmap ctx' = vram_mmap ctx \<and> vram_size ctx' = vram_size ctx"

lemma rdata_bframe:
  assumes g: "ginv B S N ctx F U L P" and r: "r \<in> regions U L P" and sm: "same_handle ctx ctx'"
    and fr: "bframe B X (vmem (sh ctx)) (vmem (sh ctx'))" and d: "rbytes r \<inter> X = {}"
  shows "rdata ctx' r = rdata ctx r"
proof -
  have "fst r + snd r \<le> 2 ^ 64"
    using region_in_vram(1) [OF g r] base_okD(4) [OF binvD(1) [OF ginvD(2) [OF g]]] by simp
  then show ?thesis
    unfolding rdata_def using bframe_get_bytes [OF fr, of "fst r" "snd r"] d sm ginvD(1) [OF g]
    by (simp add: rbytes_def same_handle_def)
qed

lemma region_free_pages:
  assumes r: "r \<in> regions U L P"
  shows "rbytes r \<inter> page_bytes ({..<N} - used_pages (all_blocks U P)) = {}"
proof -
  have "page_bytes (used_pages (all_blocks U P)) \<inter>
      page_bytes ({..<N} - used_pages (all_blocks U P)) = {}"
    by (rule page_bytes_disjoint) blast
  then show ?thesis using region_used [OF r] by blast
qed

subsection \<open>gpuMalloc\<close>

lemma addr_not_minus1:
  assumes "ginv B S N ctx F U L P" "(a, l) \<in> regions U L P"
  shows "word_of_nat a \<noteq> (-1 :: u64)"
proof
  assume e: "word_of_nat a = (-1 :: u64)"
  have "a + l \<le> 4096 * N" "8 \<le> l" using region_in_vram [OF assms] by simp_all
  then have a: "a < 2 ^ 32" using base_okD(4) [OF binvD(1) [OF ginvD(2) [OF assms(1)]]] by simp
  have "word_of_nat a = (word_of_nat (2 ^ 64 - 1) :: u64)" using e by simp
  then have "a = 2 ^ 64 - 1" using ofs_inj [of a "2 ^ 64 - 1" 0] a by simp
  then show False using a by simp
qed

lemma gpuMalloc_slab:
  assumes g: "ginv B S N ctx F U L P" and rt: "route_slab sz = Some (p, mark)"
  obtains (fail) ctx' F' where "gpuMalloc ctx sz = Some (-1, ctx')" "ginv B S N ctx' F' U L P"
    "same_handle ctx ctx'" "\<forall>r\<in>regions U L P. rdata ctx' r = rdata ctx r"
    "\<not> has_room F \<or> \<not> fst (malloc (sh ctx))"
  | (ok) x ctx' F' L' P' where "gpuMalloc ctx sz = Some (word_of_nat x, ctx')"
    "ginv B S N ctx' F' U L' P'" "regions U L' P' = insert (x, osz_of p) (regions U L P)"
    "(x, osz_of p) \<notin> regions U L P"
    "same_handle ctx ctx'" "\<forall>r\<in>regions U L P. rdata ctx' r = rdata ctx r"
    "F' = F \<or> (\<exists>Q. aalloc F 0 = Some (Q, F'))"
proof -
  note i = ginvD(2) [OF g] and si = ginvD(3) [OF g, of p]
  let ?A = "all_blocks U P"
  have sub: "slab_pages (P p) \<subseteq> ?A" by (rule slab_pages_all)
  have keep: "\<forall>r\<in>regions U L P. rdata ctx' r = rdata ctx r"
    if "same_handle ctx ctx'" "pframe B ({..<N} - used_pages ?A) (vmem (sh ctx)) (vmem (sh ctx'))" for ctx'
    using rdata_bframe [OF g _ that(1) that(2) [unfolded pframe_bframe]] region_free_pages by blast
  have dis: "page_bytes (set (P q)) \<inter> page_bytes ({..<N} - used_pages ?A) = {}" for q
    using slab_free_pages_disjoint [OF slab_pages_all] .
  show thesis
  proof (cases rule: slab_alloc_cases [OF i si sub])
    case (1 s' F')
    let ?ctx = "slab_put (ctx\<lparr>sh := s'\<rparr>) p (slab_at ctx p)"
    have "P(p := P p) = P" "L(p := L p) = L" by simp_all
    moreover have "x \<notin> {..<N} - used_pages ?A" if "x \<in> used_pages ?A" for x using that by simp
    moreover have "set (P p) \<subseteq> used_pages ?A" using used_pages_slab [OF sub] .
    moreover have "?A = ?A - slab_pages (P p) \<union> slab_pages (P p)" using sub by blast
    ultimately have "ginv B S N ?ctx F' U L P"
      using ginv_slab_update [OF g 1(4) _ 1(5) ginvD(4) [OF g] 1(7) [unfolded pframe_bframe] dis]
        1(6) ginvD(6) [OF g, of _ p] by (simp add: subset_iff)
    then show thesis
      using 1(1,3,7) rt keep [of ?ctx] by (intro fail) (simp_all add: gpuMalloc_def Let_def same_handle_def)
  next
    case (2 x c' s' F' L' P')
    let ?ctx = "slab_put (ctx\<lparr>sh := s'\<rparr>) p c'"
    have "?A \<union> slab_pages P' = ?A - slab_pages (P p) \<union> slab_pages P'"
      using 2(6) by (auto simp: slab_pages_def)
    from ginv_slab_update [OF g 2(2) this 2(3) _ 2(10) [unfolded pframe_bframe] dis 2(7)]
    have gn: "ginv B S N ?ctx F' U (L(p := L')) (P(p := P'))"
      using 2(8,9) ginvD(4) [OF g, of p] ginvD(6) [OF g, of _ p] by simp
    have re: "regions U (L(p := L')) (P(p := P')) = insert (x, osz_of p) (regions U L P)"
      by (rule regions_slot_insert) (rule 2(4))
    have sm: "same_handle ctx ?ctx" by (simp add: same_handle_def)
    have "word_of_nat x \<noteq> (-1 :: u64)" using addr_not_minus1 [OF gn, of x "osz_of p"] re by simp
    then have "gpuMalloc ctx sz = Some (word_of_nat x, ?ctx)"
      using 2(1) rt by (simp add: gpuMalloc_def Let_def)
    moreover have "(x, osz_of p) \<notin> regions U L P"
    proof
      assume "(x, osz_of p) \<in> regions U L P"
      then show False
        using 2(5) by (cases rule: region_cases) (auto simp: osz_of_inj block_region_ne)
    qed
    ultimately show thesis using gn re sm keep [OF sm] 2(10,11) by (intro ok) simp_all
  qed
qed

lemma gpuMalloc_buddy:
  assumes g: "ginv B S N ctx F U L P" and rt: "route_slab sz = None"
  obtains (fail) "gpuMalloc ctx sz = Some (-1, ctx)"
    "find_order sz 0 = 21 \<or> (\<forall>j. find_order sz 0 \<le> j \<and> j < 21 \<longrightarrow> F j = [])"
  | (ok) b ctx' F' where "gpuMalloc ctx sz = Some (word_of_nat (4096 * fst b), ctx')"
    "ginv B S N ctx' F' (insert b U) L P" "b \<notin> U" "unat sz \<le> 4096 * 2 ^ snd b"
    "same_handle ctx ctx'" "\<forall>r\<in>regions U L P. rdata ctx' r = rdata ctx r"
    "aalloc F (find_order sz 0) = Some (fst b, F')"
proof -
  note i = ginvD(2) [OF g]
  let ?A = "all_blocks U P" and ?o = "find_order sz 0"
  show thesis
  proof (cases "?o = 21 \<or> (\<forall>j. ?o \<le> j \<and> j < 21 \<longrightarrow> F j = [])")
    case True
    have "ctx\<lparr>sh := (sh ctx)\<lparr>buddy := buddy (sh ctx), vmem := vmem (sh ctx)\<rparr>\<rparr> = ctx" by simp
    then show thesis
      using fail [OF _ True] buddy_alloc_full [OF i refl True] rt by (simp add: gpuMalloc_def)
  next
    case False
    then have room: "?o < 21" "\<exists>j. ?o \<le> j \<and> j < 21 \<and> F j \<noteq> []"
      using find_order_spec [of 0 sz] by auto
    obtain q F' b' m' where
      al: "buddy_alloc (buddy (sh ctx)) (vmem (sh ctx)) sz = Some (word_of_nat (4096 * q), b', m')"
      and i': "binv B S N b' m' F' (insert (q, ?o) ?A)" and n: "(q, ?o) \<notin> ?A"
      and po: "page_order b' = (page_order (buddy (sh ctx)))(q := word_of_nat ?o)"
      and fr: "pframe B ({..<N} - used_pages ?A) (vmem (sh ctx)) m'" and sz: "unat sz \<le> 4096 * 2 ^ ?o" and aa: "aalloc F ?o = Some (q, F')"
      by (rule buddy_alloc_correct [OF i refl room]) (rule that)
    let ?U = "insert (q, ?o) U" and ?ctx = "ctx\<lparr>sh := (sh ctx)\<lparr>buddy := b', vmem := m'\<rparr>\<rparr>"
    have q: "q \<in> {..<N}" "q \<notin> used_pages ?A"
      using pending_pages_free [OF binvD(4) [OF i'] n] first_in_pages [of q ?o] by blast+
    have usd: "fst c \<in> used_pages ?A" if "c \<in> U" for c
      using that first_in_pages [of "fst c" "snd c"]
      by (intro used_pagesI [of c]) (auto simp: all_blocks_def)
    have pq: "set (P p) \<subseteq> used_pages ?A" for p using used_pages_slab [OF slab_pages_all] .
    have gn: "ginv B S N ?ctx F' ?U L P"
    proof (rule ginv_user_update [OF g _ fr [unfolded pframe_bframe]])
      show "binv B S N b' m' F' (all_blocks ?U P)" using i' by (simp add: all_blocks_def)
      show "slab_pages (P p) \<inter> ?U = {}" for p
        using ginvD(5) [OF g, of p] n slab_pages_all [of P p U] by blast
      show "page_order b' x = page_order (buddy (sh ctx)) x" if "x \<in> set (P p)" for x p
        using that pq q(2) by (auto simp: po)
      show "page_order b' (fst c) = word_of_nat (snd c)" if "c \<in> ?U" for c
        using that usd [of c] q(2) ginvD(8) [OF g, of "fst c" "snd c"] by (auto simp: po)
    qed (rule slab_free_pages_disjoint [OF slab_pages_all])
    have sm: "same_handle ctx ?ctx" by (simp add: same_handle_def)
    have "block_region (q, ?o) \<in> regions ?U L P" by (simp add: regions_block_insert)
    then have "word_of_nat (4096 * q) \<noteq> (-1 :: u64)"
      using addr_not_minus1 [OF gn] by (auto simp: block_region_def simp del: of_nat_mult)
    then have "gpuMalloc ctx sz = Some (word_of_nat (4096 * fst (q, ?o)), ?ctx)"
      using al rt by (simp add: gpuMalloc_def Let_def del: of_nat_mult)
    moreover have "\<forall>r\<in>regions U L P. rdata ?ctx r = rdata ctx r"
      using rdata_bframe [OF g _ sm] fr region_free_pages unfolding pframe_bframe by simp
    moreover have "(q, ?o) \<notin> U" using n by (simp add: all_blocks_def)
    ultimately show thesis using gn sm sz aa by (intro ok [of "(q, ?o)" ?ctx F']) (simp_all only: fst_conv snd_conv not_False_eq_True)
  qed
qed

subsection \<open>gpuFree\<close>

lemma page_idx:
  assumes "a < 4096 * 2 ^ 20"
  shows "unat (ucast (ucast (word_of_nat a div PAGE_SIZE :: u64) :: u32) :: u64) = a div 4096"
proof -
  have u: "unat (word_of_nat a div PAGE_SIZE :: u64) = a div 4096"
    using assms unat_of_nat64 [of a] by (simp add: unat_div PAGE_SIZE_def)
  moreover have "a div 4096 < 2 ^ 32" using assms by simp
  ultimately show ?thesis by (simp add: unsigned_ucast_eq unsigned_take_bit_eq take_bit_nat_eq_self)
qed

lemma free_marker:
  assumes g: "ginv B S N ctx F U L P" and a: "a div 4096 < N"
  shows "po_get (buddy (sh ctx)) (ucast (ucast (word_of_nat a div PAGE_SIZE :: u64) :: u32)) =
    Some (page_order (buddy (sh ctx)) (a div 4096))"
proof -
  have p: "a div 4096 < 2 ^ 20" using node_bound [OF binvD(1) [OF ginvD(2) [OF g]] a] .
  then have "a < 4096 * 2 ^ 20" by simp
  from page_idx [OF this] p show ?thesis by (simp add: po_get_def BUDDY_TOTAL_PAGES_def)
qed

text \<open>A live region does not overlap the link fields of the free slots of any cache.\<close>

lemma live_vs_slot:
  assumes g: "ginv B S N ctx F U L P" and q: "q \<in> regions U L P" and R: "R \<in> set (P p)"
    and y: "y \<in> slots_of (osz_of p) R" and ne: "q \<noteq> (y, osz_of p)"
  shows "rbytes q \<inter> rbytes (y, osz_of p) = {}"
proof -
  have yp: "rbytes (y, osz_of p) \<subseteq> page_bytes (pages (R, 0))"
    using slot_rbytes [OF y] by (simp add: pages_def)
  have RA: "(R, 0) \<in> slab_pages (P p)" "(R, 0) \<in> all_blocks U P"
    using R by (auto simp: slab_pages_def all_blocks_def)
  show ?thesis
    using q
  proof (cases rule: region_cases)
    case (block b)
    then have "b \<noteq> (R, 0)" "b \<in> all_blocks U P"
      using RA ginvD(5) [OF g, of p] by (auto simp: all_blocks_def)
    then show ?thesis using blocks_disjoint [OF g _ RA(2)] yp block(2) block_rbytes by blast
  next
    case (slot p' z Q)
    show ?thesis
    proof (cases "p' = p")
      case True
      then have "z \<noteq> y" using ne slot by auto
      then have "z + osz_of p \<le> y \<or> y + osz_of p \<le> z"
        using slots_of_disjoint [OF _ y, of z Q] slot(4) osz_bounds(1) [of p] True by simp
      then show ?thesis using slot(1) True by (auto simp: rbytes_def)
    next
      case False
      then have "Q \<noteq> R" using ginvD(7) [OF g False] slot(3) R by blast
      then have "page_bytes {Q} \<inter> page_bytes {R} = {}" by (intro page_bytes_disjoint) simp
      then show ?thesis using slot_rbytes [OF slot(4)] slot_rbytes [OF y] slot(1) by blast
    qed
  qed
qed

lemma live_vs_free:
  assumes g: "ginv B S N ctx F U L P" and q: "q \<in> regions U L P"
    and Y: "Y \<subseteq> (\<Union>R\<in>set (P p). slots_of (osz_of p) R)" "\<And>y. y \<in> Y \<Longrightarrow> q \<noteq> (y, osz_of p)"
  shows "rbytes q \<inter> slot_bytes 8 Y = {}"
proof -
  have "rbytes q \<inter> {y ..< y + 8} = {}" if y: "y \<in> Y" for y
  proof -
    obtain R where R: "R \<in> set (P p)" "y \<in> slots_of (osz_of p) R" using y Y(1) by blast
    have "{y ..< y + 8} \<subseteq> rbytes (y, osz_of p)" using osz_bounds(1) [of p] by (auto simp: rbytes_def)
    then show ?thesis using live_vs_slot [OF g q R Y(2) [OF y]] by blast
  qed
  then show ?thesis unfolding slot_bytes_def by blast
qed

lemma live_not_free:
  assumes q: "q \<in> regions U L P" and y: "y \<in> set (L p)"
  shows "q \<noteq> (y, osz_of p)"
proof
  assume "q = (y, osz_of p)"
  then show False
    using q y by (cases rule: region_cases [OF q]) (auto simp: block_region_ne block_region_ne [symmetric] osz_of_inj live_slots_def)
qed

text \<open>What a cache changes when it takes a slot back is not on the pages of the others.\<close>

lemma other_cache_pages:
  assumes g: "ginv B S N ctx F U L P" and q: "q \<noteq> p" and X: "X \<subseteq> (\<Union>Q\<in>set (P p). slots_of (osz_of p) Q)"
    and A: "A = all_blocks U P - slab_pages (P p) \<union> slab_pages P'"
  shows "page_bytes (set (P q)) \<inter> (slot_bytes 8 X \<union> page_bytes ({..<N} - used_pages A)) = {}"
proof -
  have "{y ..< y + 8} \<subseteq> page_bytes (set (P p))" if y: "y \<in> X" for y
  proof -
    obtain R where R: "R \<in> set (P p)" "y \<in> slots_of (osz_of p) R" using X y by blast
    then show ?thesis
      using slot_in_page [OF R(2) osz_bounds(1) osz_bounds(1)] page_bytes_mono [of "{R}" "set (P p)"] by blast
  qed
  then have "slot_bytes 8 X \<subseteq> page_bytes (set (P p))" unfolding slot_bytes_def by blast
  moreover have "page_bytes (set (P q)) \<inter> page_bytes (set (P p)) = {}"
    using ginvD(7) [OF g q] by (rule page_bytes_disjoint)
  moreover have "slab_pages (P q) \<subseteq> A"
    using slab_pages_disjoint [OF ginvD(7) [OF g q]] slab_pages_all [of P q U] unfolding A by blast
  then have "page_bytes (set (P q)) \<inter> page_bytes ({..<N} - used_pages A) = {}"
    using used_pages_slab by (intro page_bytes_disjoint) blast
  ultimately show ?thesis by blast
qed

lemma gpuFree_slab:
  assumes g: "ginv B S N ctx F U L P" and x: "x \<in> live_slots (osz_of p) (L p) (P p)"
  obtains ctx' F' L' P' where "gpuFree ctx (word_of_nat x) = Some (0, ctx')"
    "ginv B S N ctx' F' U L' P'" "regions U L' P' = regions U L P - {(x, osz_of p)}"
    "same_handle ctx ctx'" "\<forall>r\<in>regions U L P - {(x, osz_of p)}. rdata ctx' r = rdata ctx r"
proof -
  note i = ginvD(2) [OF g] and si = ginvD(3) [OF g, of p]
  let ?A = "all_blocks U P"
  have sub: "slab_pages (P p) \<subseteq> ?A" by (rule slab_pages_all)
  obtain Q where Q: "Q \<in> set (P p)" "x \<in> slots_of (osz_of p) Q" using x by (auto simp: live_slots_def)
  have xQ: "x div 4096 = Q" using slots_of_page(3) [OF Q(2) osz_bounds(1)] .
  have QN: "Q < N" using sinvD(8) [OF si] Q(1) by auto
  obtain c' s' F' L' P' A' where r: "slab_free (slab_at ctx p) (sh ctx) (word_of_nat x) = Some (0, c', s')"
    and i': "binv B S N (buddy s') (vmem s') F' A'" and si': "sinv B N (osz_of p) c' (vmem s') L' P'"
    and live: "live_slots (osz_of p) L' P' = live_slots (osz_of p) (L p) (P p) - {x}"
    and A': "A' = ?A - slab_pages (P p) \<union> slab_pages P'" and sP: "set P' \<subseteq> set (P p)"
    and mk: "marker c' = marker (slab_at ctx p)"
    and po: "\<forall>y. y \<notin> {..<N} - used_pages A' \<longrightarrow> page_order (buddy s') y = page_order (buddy (sh ctx)) y"
    and fr: "bframe B (slot_bytes 8 (insert x (set (L p))) \<union> page_bytes ({..<N} - used_pages A'))
       (vmem (sh ctx)) (vmem s')"
    by (rule slab_free_cases [OF i si sub x]) (rule that)
  let ?ctx = "slab_put (ctx\<lparr>sh := s'\<rparr>) p c'" and ?L = "L(p := L')" and ?P = "P(p := P')"
  let ?X = "slot_bytes 8 (insert x (set (L p))) \<union> page_bytes ({..<N} - used_pages A')"
  have slots: "insert x (set (L p)) \<subseteq> (\<Union>P\<in>set (P p). slots_of (osz_of p) P)"
    using sinvD(6) [OF si] Q by blast
  have dis: "page_bytes (set (P q)) \<inter> ?X = {}" if "q \<noteq> p" for q
    by (rule other_cache_pages [OF g that slots A'])
  have P'used: "set P' \<subseteq> used_pages A'" by (rule used_pages_slab) (simp add: A')
  have gn: "ginv B S N ?ctx F' U ?L ?P"
  proof (rule ginv_slab_update [OF g i' A' si' _ fr dis])
    show "marker c' = mark_of p" using mk ginvD(4) [OF g] by simp
    show "(set P' - set (P p)) \<inter> used_pages ?A = {}" using sP by blast
    show "page_order (buddy s') y = page_order (buddy (sh ctx)) y" if "y \<in> used_pages A'" for y
      using po that by blast
    show "page_order (buddy s') y = mark_of p" if y: "y \<in> set P'" for y
    proof -
      have "y \<in> used_pages A'" "y \<in> set (P p)" using P'used sP y by blast+
      then show ?thesis using po ginvD(6) [OF g, of y p] by simp
    qed
  qed
  have re: "regions U ?L ?P = regions U L P - {(x, osz_of p)}"
    by (rule regions_slot_remove) (rule live)
  have sm: "same_handle ctx ?ctx" by (simp add: same_handle_def)
  have "rdata ?ctx q = rdata ctx q" if q: "q \<in> regions U L P - {(x, osz_of p)}" for q
  proof (rule rdata_bframe [OF g _ sm])
    show "q \<in> regions U L P" using q by blast
    show "bframe B ?X (vmem (sh ctx)) (vmem (sh ?ctx))" using fr by simp
    have qn: "q \<in> regions U ?L ?P" using q re by simp
    have allA: "all_blocks U ?P = A'" unfolding A' by (rule all_blocks_upd [OF g])
    have "rbytes q \<inter> page_bytes ({..<N} - used_pages A') = {}"
      using region_free_pages [OF qn, of N] unfolding allA .
    moreover have "rbytes q \<inter> slot_bytes 8 (insert x (set (L p))) = {}"
      using q by (intro live_vs_free [OF g _ slots]) (auto dest: live_not_free)
    ultimately show "rbytes q \<inter> ?X = {}" by blast
  qed
  moreover have "gpuFree ctx (word_of_nat x) = Some (0, ?ctx)"
    using r free_marker [OF g, of x] xQ QN ginvD(6) [OF g Q(1)]
    by (simp add: gpuFree_def Let_def)
  ultimately show thesis using gn re sm by (intro that) auto
qed

lemma gpuFree_buddy:
  assumes g: "ginv B S N ctx F U L P" and b: "b \<in> U"
  obtains ctx' F' where "gpuFree ctx (word_of_nat (4096 * fst b)) = Some (0, ctx')"
    "ginv B S N ctx' F' (U - {b}) L P"
    "same_handle ctx ctx'" "\<forall>r\<in>regions U L P - {block_region b}. rdata ctx' r = rdata ctx r"
proof -
  obtain q k where bk: "b = (q, k)" by (cases b)
  note i = ginvD(2) [OF g]
  let ?A = "all_blocks U P" and ?A' = "all_blocks (U - {b}) P"
  have nS: "(q, k) \<notin> slab_pages (P p)" for p using ginvD(5) [OF g, of p] b bk by blast
  have ins: "insert (q, k) ?A' = ?A" and n: "(q, k) \<notin> ?A'"
    using b bk nS by (auto simp: all_blocks_def)
  have po: "page_order (buddy (sh ctx)) q = word_of_nat k" using ginvD(8) [OF g] b bk by blast
  have qk: "k < 21" "q < N" using wf_lists_fblock [OF binvD(4) [OF i], of q k] ins by auto
  obtain b' m' where fr: "buddy_free (buddy (sh ctx)) (vmem (sh ctx)) (word_of_nat (4096 * q)) = Some (0, b', m')"
    and i': "binv B S N b' m' (afree F q k) ?A'"
    and po': "\<forall>x. x \<notin> {..<N} - used_pages ?A' \<longrightarrow> page_order b' x = page_order (buddy (sh ctx)) x"
    and pf: "pframe B ({..<N} - used_pages ?A') (vmem (sh ctx)) m'"
    using buddy_free_correct [OF i [folded ins] n po] by blast
  let ?ctx = "ctx\<lparr>sh := (sh ctx)\<lparr>buddy := b', vmem := m'\<rparr>\<rparr>"
  have gn: "ginv B S N ?ctx (afree F q k) (U - {b}) L P"
  proof (rule ginv_user_update [OF g i' pf [unfolded pframe_bframe]])
    show "slab_pages (P p) \<inter> (U - {b}) = {}" for p using ginvD(5) [OF g, of p] by blast
    show "page_order b' x = page_order (buddy (sh ctx)) x" if "x \<in> set (P p)" for x p
      using po' used_pages_slab [OF slab_pages_all [of P p "U - {b}"]] that by blast
    show "page_order b' (fst c) = word_of_nat (snd c)" if "c \<in> U - {b}" for c
    proof -
      have "fst c \<in> used_pages ?A'"
        using that first_in_pages [of "fst c" "snd c"]
        by (intro used_pagesI [of c]) (auto simp: all_blocks_def)
      then show ?thesis using po' ginvD(8) [OF g, of "fst c" "snd c"] that by simp
    qed
  qed (rule slab_free_pages_disjoint [OF slab_pages_all])
  have sm: "same_handle ctx ?ctx" by (simp add: same_handle_def)
  have "rdata ?ctx r = rdata ctx r" if r: "r \<in> regions U L P - {block_region b}" for r
  proof (rule rdata_bframe [OF g _ sm])
    show "r \<in> regions U L P" using r by blast
    show "bframe B (page_bytes ({..<N} - used_pages ?A')) (vmem (sh ctx)) (vmem (sh ?ctx))"
      using pf by (simp add: pframe_bframe)
    have "r \<in> regions (U - {b}) L P" using r by (simp add: regions_block_remove)
    then show "rbytes r \<inter> page_bytes ({..<N} - used_pages ?A') = {}" by (rule region_free_pages)
  qed
  moreover have "gpuFree ctx (word_of_nat (4096 * fst b)) = Some (0, ?ctx)"
    using fr free_marker [OF g, of "4096 * q"] qk po get_slab_order [OF qk(1)] bk
    by (simp add: gpuFree_def Let_def del: of_nat_mult)
  ultimately show thesis using gn sm by (intro that) auto
qed

subsection \<open>The calls on the heap\<close>

definition same_data :: "region set \<Rightarrow> gpgpu_ctx \<Rightarrow> gpgpu_ctx \<Rightarrow> bool" where
  "same_data R ctx ctx' \<longleftrightarrow> same_handle ctx ctx' \<and> (\<forall>r\<in>R. rdata ctx' r = rdata ctx r)"

lemma heapE:
  assumes "heap B S N ctx R"
  obtains F U L P where "ginv B S N ctx F U L P" "R = regions U L P"
  using assms unfolding heap_def by blast

lemma heapI: "ginv B S N ctx F U L P \<Longrightarrow> R = regions U L P \<Longrightarrow> heap B S N ctx R"
  unfolding heap_def by blast

theorem gpuMalloc_heap:
  assumes h: "heap B S N ctx R"
  obtains (fail) ctx' where "gpuMalloc ctx sz = Some (-1, ctx')" "heap B S N ctx' R" "same_data R ctx ctx'"
  | (ok) a l ctx' where "gpuMalloc ctx sz = Some (word_of_nat a, ctx')"
    "heap B S N ctx' (insert (a, l) R)" "(a, l) \<notin> R" "unat sz \<le> l" "same_data R ctx ctx'"
proof -
  obtain F U L P where g: "ginv B S N ctx F U L P" and R: "R = regions U L P" using h by (rule heapE)
  show thesis
  proof (cases "route_slab sz")
    case None
    show thesis
    proof (cases rule: gpuMalloc_buddy [OF g None])
      case 1
      then show thesis using h by (intro fail [of ctx]) (simp_all add: same_data_def same_handle_def)
    next
      case (2 b ctx' F')
      have "block_region b \<notin> R"
      proof
        assume "block_region b \<in> R"
        then show False
          unfolding R using 2(3) by (cases rule: region_cases) (auto simp: block_region_inj block_region_ne [symmetric])
      qed
      then show thesis
        using 2 heapI [OF 2(2) refl] R
        by (intro ok [of "4096 * fst b" ctx' "4096 * 2 ^ snd b"])
          (simp_all add: regions_block_insert block_region_def [of b] same_data_def)
    qed
  next
    case (Some pm)
    obtain p mark where rt: "route_slab sz = Some (p, mark)" using Some by (cases pm) simp
    show thesis
    proof (cases rule: gpuMalloc_slab [OF g rt])
      case (1 ctx' F')
      then show thesis using heapI [OF 1(2)] R by (intro fail) (simp_all add: same_data_def)
    next
      case (2 x ctx' F' L' P')
      then show thesis
        using heapI [OF 2(2)] R route_slab_Some(1) [OF rt] by (intro ok) (simp_all add: same_data_def)
    qed
  qed
qed

theorem gpuFree_heap:
  assumes h: "heap B S N ctx R" and r: "(a, l) \<in> R"
  obtains ctx' where "gpuFree ctx (word_of_nat a) = Some (0, ctx')" "heap B S N ctx' (R - {(a, l)})"
    "same_data (R - {(a, l)}) ctx ctx'"
proof -
  obtain F U L P where g: "ginv B S N ctx F U L P" and R: "R = regions U L P" using h by (rule heapE)
  show thesis
    using r unfolding R
  proof (cases rule: region_cases)
    case (block b)
    then have e: "a = 4096 * fst b" "l = 4096 * 2 ^ snd b" by (simp_all add: block_region_def)
    show thesis
    proof (cases rule: gpuFree_buddy [OF g block(1)])
      case (1 ctx' F')
      then show thesis
        using heapI [OF 1(2) refl] block(2) R e(1) regions_block_remove [of U b L P]
        by (intro that [of ctx']) (simp_all add: same_data_def del: of_nat_mult)
    qed
  next
    case (slot p x Q)
    show thesis
    proof (cases rule: gpuFree_slab [OF g slot(2)])
      case (1 ctx' F' L' P')
      then show thesis using heapI [OF 1(2) refl] slot(1) R by (intro that [of ctx']) (simp_all add: same_data_def)
    qed
  qed
qed

lemma heap_disjoint:
  "heap B S N ctx R \<Longrightarrow> r \<in> R \<Longrightarrow> q \<in> R \<Longrightarrow> r \<noteq> q \<Longrightarrow> rbytes r \<inter> rbytes q = {}"
  by (elim heapE) (simp add: regions_disjoint)

lemma heap_bounds:
  "heap B S N ctx R \<Longrightarrow> r \<in> R \<Longrightarrow> fst r + snd r \<le> 4096 * N \<and> 8 \<le> snd r"
  by (elim heapE) (simp add: region_in_vram)

subsection \<open>gpuMemcpy\<close>

lemma ginv_write:
  assumes g: "ginv B S N ctx F U L P" and r: "r \<in> regions U L P"
    and fr: "bframe B (rbytes r) (vmem (sh ctx)) m'" and v: "vram_at m' B S"
  shows "ginv B S N (ctx\<lparr>sh := (sh ctx)\<lparr>vmem := m'\<rparr>\<rparr>) F U L P"
proof -
  note i = ginvD(2) [OF g]
  have "binv B S N (buddy (sh ctx)) m' F (all_blocks U P)"
    using binv_bframe [OF i fr v] region_free_pages [OF r] by blast
  moreover have "sinv B N (osz_of p) (slab_at ctx p) m' (L p) (P p)" for p
    using live_vs_free [OF g r sinvD(6) [OF ginvD(3) [OF g]] live_not_free [OF r]]
    by (intro sinv_bframe_slots [OF binvD(1) [OF i] ginvD(3) [OF g] fr]) blast
  ultimately show ?thesis using g unfolding ginv_def by simp
qed

lemma get_bytes_append: "get_bytes m a (n + k) = get_bytes m a n @ get_bytes m (ofs a n) k"
  by (rule nth_equalityI) (auto simp: get_bytes_def nth_append of_nat_diff)

lemma get_bytes_sub:
  "d + n \<le> l \<Longrightarrow> get_bytes m (ofs a d) n = take n (drop d (get_bytes m a l))"
  using get_bytes_append [of m a d "n + (l - d - n)"] get_bytes_append [of m "ofs a d" n "l - d - n"]
  by simp

lemma get_put_bytes_within:
  assumes "a + l \<le> 2 ^ 64" "d + length bs \<le> l"
  shows "get_bytes (put_bytes m (ofs B (a + d)) bs) (ofs B a) l =
    take d (get_bytes m (ofs B a) l) @ bs @ drop (d + length bs) (get_bytes m (ofs B a) l)"
proof -
  let ?m = "put_bytes m (ofs B (a + d)) bs" and ?n = "length bs"
  define k where "k = l - d - ?n"
  have l: "l = d + (?n + k)" using assms(2) by (simp add: k_def)
  have e: "ofs (ofs B a) d = ofs B (a + d)" "ofs (ofs B (a + d)) ?n = ofs B (a + d + ?n)" by simp_all
  have split: "get_bytes m' (ofs B a) l =
      get_bytes m' (ofs B a) d @ get_bytes m' (ofs B (a + d)) ?n @ get_bytes m' (ofs B (a + d + ?n)) k" for m'
    unfolding l get_bytes_append e ..
  have "get_bytes ?m (ofs B a) d = get_bytes m (ofs B a) d"
    "get_bytes ?m (ofs B (a + d + ?n)) k = get_bytes m (ofs B (a + d + ?n)) k"
    using assms l by (intro get_bytes_put_bytes_other; simp)+
  moreover have "get_bytes ?m (ofs B (a + d)) ?n = bs"
    using assms by (intro get_put_bytes_same) simp
  ultimately show ?thesis unfolding split by simp
qed

lemma region_mapped:
  assumes g: "ginv B S N ctx F U L P" and r: "(a, l) \<in> regions U L P" and d: "d + n \<le> l"
  shows "mapped (vmem (sh ctx)) (ofs B (a + d)) n"
  using region_in_vram(1) [OF g r] base_okD(3,5) [OF binvD(1) [OF ginvD(2) [OF g]]] d
  by (intro vram_mapped [OF binvD(2) [OF ginvD(2) [OF g]]]) auto

theorem gpuMemcpy_write:
  assumes h: "heap B S N ctx R" and r: "(a, l) \<in> R" and d: "d + unat sz \<le> l" and src: "unat sz \<le> length src"
  obtains ctx' where "gpuMemcpy ctx (word_of_nat (a + d)) src sz GPU_MEMCPY_H2D = Some (0, src, ctx')"
    "heap B S N ctx' R" "same_data (R - {(a, l)}) ctx ctx'"
    "rdata ctx' (a, l) = take d (rdata ctx (a, l)) @ take (unat sz) src @ drop (d + unat sz) (rdata ctx (a, l))"
proof -
  obtain F U L P where g: "ginv B S N ctx F U L P" and R: "R = regions U L P" using h by (rule heapE)
  note i = ginvD(2) [OF g] and rr = r [unfolded R]
  let ?bs = "take (unat sz) src" and ?m = "vmem (sh ctx)"
  let ?m' = "put_bytes ?m (ofs B (a + d)) ?bs"
  let ?ctx = "ctx\<lparr>sh := (sh ctx)\<lparr>vmem := ?m'\<rparr>\<rparr>"
  have len: "length ?bs = unat sz" using src by simp
  have bound: "a + l \<le> 2 ^ 64"
    using region_in_vram(1) [OF g rr] base_okD(4) [OF binvD(1) [OF i]] by simp
  have mp: "mapped ?m (ofs B (a + d)) (length ?bs)" using region_mapped [OF g rr d] len by simp
  have fr: "bframe B (rbytes (a, l)) ?m ?m'"
    using bound d len by (intro bframe_put_bytes) (auto simp: rbytes_def)
  have gn: "ginv B S N ?ctx F U L P"
    using ginv_write [OF g rr fr] binvD(2) [OF i] mp by (simp add: vram_at_put_bytes)
  have sm: "same_handle ctx ?ctx" by (simp add: same_handle_def)
  have "rdata ?ctx q = rdata ctx q" if q: "q \<in> R - {(a, l)}" for q
  proof (rule rdata_bframe [OF g _ sm])
    show "q \<in> regions U L P" using q R by blast
    show "bframe B (rbytes (a, l)) (vmem (sh ctx)) (vmem (sh ?ctx))" using fr by simp
    show "rbytes q \<inter> rbytes (a, l) = {}" using regions_disjoint [OF g _ rr, of q] q R by blast
  qed
  then have "same_data (R - {(a, l)}) ctx ?ctx" using sm by (simp add: same_data_def)
  moreover have "gpuMemcpy ctx (word_of_nat (a + d)) src sz GPU_MEMCPY_H2D = Some (0, src, ?ctx)"
    using mp len src ginvD(1) [OF g] by (simp add: gpuMemcpy_def store_bytes_def del: of_nat_add)
  moreover have "rdata ?ctx (a, l) = take d (rdata ctx (a, l)) @ ?bs @ drop (d + unat sz) (rdata ctx (a, l))"
    using get_put_bytes_within [OF bound, of d ?bs ?m B] d len ginvD(1) [OF g]
    by (simp add: rdata_def del: of_nat_add)
  ultimately show thesis using heapI [OF gn R] by (intro that)
qed

theorem gpuMemcpy_read:
  assumes h: "heap B S N ctx R" and r: "(a, l) \<in> R" and d: "d + unat sz \<le> l" and dst: "unat sz \<le> length dst"
  shows "gpuMemcpy ctx (word_of_nat (a + d)) dst sz GPU_MEMCPY_D2H =
    Some (0, take (unat sz) (drop d (rdata ctx (a, l))) @ drop (unat sz) dst, ctx)"
proof -
  obtain F U L P where g: "ginv B S N ctx F U L P" and R: "R = regions U L P" using h by (rule heapE)
  have "mapped (vmem (sh ctx)) (ofs B (a + d)) (unat sz)" using region_mapped [OF g r [unfolded R] d] .
  moreover have "get_bytes (vmem (sh ctx)) (ofs B (a + d)) (unat sz) = take (unat sz) (drop d (rdata ctx (a, l)))"
    using get_bytes_sub [OF d, of "vmem (sh ctx)" "ofs B a"] ginvD(1) [OF g]
    by (simp add: rdata_def add.assoc)
  ultimately show ?thesis
    using dst ginvD(1) [OF g]
    by (simp add: gpuMemcpy_def load_bytes_def GPU_MEMCPY_H2D_def GPU_MEMCPY_D2H_def del: of_nat_add)
qed

end
