(* ===== verification/Libgpgpu_Init.thy ===== *)
theory Libgpgpu_Init
  imports Libgpgpu_Ops
begin

text \<open>
  \<open>gpuInit\<close> and \<open>gpuDestroy\<close>: a context that starts holds an empty heap, and one that does
  not start, or ends, gives its descriptor and its mapping back.
\<close>

subsection \<open>The caches one after the other\<close>

definition pginv :: "u64 \<Rightarrow> nat \<Rightarrow> nat \<Rightarrow> gpgpu_ctx \<Rightarrow> freelists \<Rightarrow> slab_ptr set \<Rightarrow>
  (slab_ptr \<Rightarrow> nat list) \<Rightarrow> (slab_ptr \<Rightarrow> nat list) \<Rightarrow> bool" where
  "pginv B S N ctx F D L P \<longleftrightarrow> vram_mmap ctx = B \<and>
     binv B S N (buddy (sh ctx)) (vmem (sh ctx)) F (all_blocks {} P) \<and>
     (\<forall>p\<in>D. sinv B N (osz_of p) (slab_at ctx p) (vmem (sh ctx)) (L p) (P p) \<and>
        marker (slab_at ctx p) = mark_of p \<and> live_slots (osz_of p) (L p) (P p) = {} \<and>
        2 \<le> length (L p) \<and> (\<forall>x\<in>set (P p). page_order (buddy (sh ctx)) x = mark_of p)) \<and>
     (\<forall>p. p \<notin> D \<longrightarrow> P p = []) \<and> (\<forall>p q. p \<noteq> q \<longrightarrow> set (P p) \<inter> set (P q) = {})"

text \<open>A heap that still has \<open>n\<close> free slots in every cache.\<close>

definition stocked :: "u64 \<Rightarrow> nat \<Rightarrow> nat \<Rightarrow> gpgpu_ctx \<Rightarrow> region set \<Rightarrow> nat \<Rightarrow> bool" where
  "stocked B S N ctx R n \<longleftrightarrow> (\<exists>F U L P. ginv B S N ctx F U L P \<and> R = regions U L P \<and> (\<forall>p. n \<le> length (L p)))"

lemma stocked_heap: "stocked B S N ctx R n \<Longrightarrow> heap B S N ctx R"
  by (auto simp: stocked_def heap_def)

text \<open>A heap from whose free lists \<open>s i\<close> blocks of each order \<open>i\<close> can be split off.\<close>

definition capacity :: "u64 \<Rightarrow> nat \<Rightarrow> nat \<Rightarrow> gpgpu_ctx \<Rightarrow> (nat \<Rightarrow> nat) \<Rightarrow> bool" where
  "capacity B S N ctx s \<longleftrightarrow> (\<exists>F U L P. ginv B S N ctx F U L P \<and> (\<forall>i<21. s i \<le> avail F i))"

lemma pginv_done:
  assumes "pginv B S N ctx F UNIV L P"
  shows "stocked B S N ctx {} 2" "(\<And>i. i < 21 \<Longrightarrow> s i \<le> avail F i) \<Longrightarrow> capacity B S N ctx s"
proof -
  have g: "ginv B S N ctx F {} L P" using assms by (simp add: pginv_def ginv_def)
  moreover have "{} = regions {} L P" "\<forall>p. 2 \<le> length (L p)" using assms by (simp_all add: pginv_def regions_def)
  ultimately show "stocked B S N ctx {} 2" unfolding stocked_def by blast
  show "capacity B S N ctx s" if "\<And>i. i < 21 \<Longrightarrow> s i \<le> avail F i" using that g unfolding capacity_def by blast
qed

lemma length_page_slots: "2 \<le> length (page_slots (osz_of p) Q)"
  by (cases p) (simp_all add: page_slots_def)

text \<open>A request that a stocked cache serves is met, and takes one slot.\<close>

lemma stocked_alloc:
  assumes st: "stocked B S N ctx R (Suc n)" and sz: "unat sz \<le> 2048"
  obtains a l ctx' where "gpuMalloc ctx sz = Some (word_of_nat a, ctx')" "stocked B S N ctx' (insert (a, l) R) n"
    "(a, l) \<notin> R" "unat sz \<le> l"
proof -
  obtain F U L P where g: "ginv B S N ctx F U L P" and R: "R = regions U L P" and n: "\<And>p. Suc n \<le> length (L p)"
    using st unfolding stocked_def by blast
  obtain p mark where rt: "route_slab sz = Some (p, mark)"
    using sz route_slab_None [of sz] by (cases "route_slab sz") auto
  obtain x L1 where Lp: "L p = x # L1" using n [of p] by (cases "L p") auto
  note si = ginvD(3) [OF g, of p, unfolded Lp] and i = ginvD(2) [OF g]
  obtain c' where c: "slab_alloc (slab_at ctx p) (sh ctx) = Some (word_of_nat x, c', sh ctx)"
    "sinv B N (osz_of p) c' (vmem (sh ctx)) L1 (P p)" "marker c' = marker (slab_at ctx p)"
    by (rule slab_pop [OF binvD(1-3) [OF i] si]) (rule that)
  let ?ctx = "slab_put (ctx\<lparr>sh := sh ctx\<rparr>) p c'"
  have all: "all_blocks U P = all_blocks U P - slab_pages (P p) \<union> slab_pages (P p)"
    using slab_pages_all [of P p U] by blast
  have gn: "ginv B S N ?ctx F U (L(p := L1)) (P(p := P p))"
    using ginv_slab_update [OF g i all c(2), of "{}"] c(3) ginvD(4) [OF g, of p] ginvD(6) [OF g, of _ p] by simp
  have live: "live_slots (osz_of p) L1 (P p) = insert x (live_slots (osz_of p) (L p) (P p))"
    "x \<notin> live_slots (osz_of p) (L p) (P p)"
    using live_slots_pop [OF si] Lp by (auto simp: live_slots_def)
  have re: "regions U (L(p := L1)) (P(p := P p)) = insert (x, osz_of p) R"
    unfolding R by (rule regions_slot_insert) (rule live(1))
  have "word_of_nat x \<noteq> (-1 :: u64)" using addr_not_minus1 [OF gn, of x "osz_of p"] re by simp
  then have "gpuMalloc ctx sz = Some (word_of_nat x, ?ctx)" using c(1) rt by (simp add: gpuMalloc_def Let_def)
  moreover have "(x, osz_of p) \<notin> R"
  proof
    assume "(x, osz_of p) \<in> R"
    then show False unfolding R
      using live(2) by (cases rule: region_cases) (auto simp: osz_of_inj block_region_ne)
  qed
  moreover have "n \<le> length ((L(p := L1)) q)" for q using n [of q] Lp by (cases "q = p") auto
  then have "stocked B S N ?ctx (insert (x, osz_of p) R) n"
    unfolding stocked_def re [symmetric] using gn by blast
  ultimately show thesis using route_slab_Some(1) [OF rt] by (intro that)
qed

lemma pginv_room:
  assumes g: "pginv B S N ctx F D L P" and c: "card (used_pages (all_blocks {} P)) < N"
  shows "has_room F"
proof (rule ccontr)
  assume "\<not> has_room F"
  then have "fblocks F = {}" by (auto simp: has_room_def fblocks_def)
  moreover have "wf_lists N F (all_blocks {} P)" using g by (simp add: pginv_def binv_def)
  ultimately have "{..<N} - used_pages (all_blocks {} P) = {}"
    using free_pages unfolding used_pages_def by fastforce
  moreover have "used_pages (all_blocks {} P) = (\<Union>p. set (P p))"
    by (auto simp: used_pages_def all_blocks_def slab_pages_def pages_def)
  moreover have "finite (\<Union>p. set (P p))"
  proof -
    have "(UNIV :: slab_ptr set) = {slab_32, slab_64, slab_128, slab_256, slab_512, slab_2048}"
      using slab_ptr.exhaust by blast
    then show ?thesis by (metis List.finite_set finite.emptyI finite.insertI finite_UN_I)
  qed
  ultimately have "card {..<N} \<le> card (used_pages (all_blocks {} P))"
    by (intro card_mono) auto
  then show False using c by simp
qed

lemma malloc_all:
  assumes "\<forall>b\<in>set (mallocs s). b"
  shows "fst (malloc s)" "\<forall>b\<in>set (mallocs (snd (malloc s))). b"
  using assms by (auto simp: malloc_def split: list.splits)

lemma init_slab_step:
  assumes g: "pginv B S N ctx F D L P" and p: "p \<notin> D"
    and c: "card (used_pages (all_blocks {} P)) < N" and ma: "\<forall>b\<in>set (mallocs (sh ctx)). b"
  obtains c' s' F' L' P' where
    "slab_cache_init (word_of_nat (osz_of p)) (mark_of p) (sh ctx) = Some (0, c', s')"
    "pginv B S N (slab_put (ctx\<lparr>sh := s'\<rparr>) p c') F' (insert p D) L' P'"
    "card (used_pages (all_blocks {} P')) \<le> Suc (card (used_pages (all_blocks {} P)))"
    "\<forall>b\<in>set (mallocs s'). b" "\<exists>Q. aalloc F 0 = Some (Q, F')"
proof -
  let ?A = "all_blocks {} P"
  have i: "binv B S N (buddy (sh ctx)) (vmem (sh ctx)) F ?A" using g by (simp add: pginv_def)
  obtain Q F' c' s' where r: "slab_cache_init (word_of_nat (osz_of p)) (mark_of p) (sh ctx) = Some (0, c', s')"
    and i': "binv B S N (buddy s') (vmem s') F' (insert (Q, 0) ?A)" and Q: "(Q, 0) \<notin> ?A" "Q < N" "Q \<notin> used_pages ?A"
    and si: "sinv B N (osz_of p) c' (vmem s') (page_slots (osz_of p) Q) [Q]" and mk: "marker c' = mark_of p"
    and po: "page_order (buddy s') = (page_order (buddy (sh ctx)))(Q := mark_of p)"
    and ms: "mallocs s' = mallocs (snd (malloc (sh ctx)))"
    and fr: "pframe B ({..<N} - used_pages ?A) (vmem (sh ctx)) (vmem s')" and al: "aalloc F 0 = Some (Q, F')"
    by (rule slab_cache_init_correct [OF i pginv_room [OF g c] malloc_all(1) [OF ma] osz_bounds(1,2)]) (rule that)
  let ?P = "P(p := [Q])" and ?L = "L(p := page_slots (osz_of p) Q)"
  have Pp: "P p = []" using g p by (simp add: pginv_def)
  have all: "all_blocks {} ?P = insert (Q, 0) ?A"
    unfolding all_blocks_def Un_empty_left
    by (rule UN_upd_insert [where p = p]) (simp add: slab_pages_def Pp)
  have Qn: "Q \<notin> set (P q)" for q using Q(3) used_pages_slab [OF slab_pages_all [of P q "{}"]] by blast
  have "sinv B N (osz_of q) (slab_at ctx q) (vmem s') (L q) (P q)" if "q \<in> D" for q
  proof (rule sinv_bframe [OF binvD(1) [OF i] _ fr [unfolded pframe_bframe]])
    show "sinv B N (osz_of q) (slab_at ctx q) (vmem (sh ctx)) (L q) (P q)"
      using g that by (simp add: pginv_def)
  qed (rule slab_free_pages_disjoint [OF slab_pages_all])
  then have "pginv B S N (slab_put (ctx\<lparr>sh := s'\<rparr>) p c') F' (insert p D) ?L ?P"
    unfolding pginv_def all using g i' si mk po p Qn
    by (auto simp: pginv_def live_slots_def set_page_slots length_page_slots)
  moreover have "card (used_pages (all_blocks {} ?P)) \<le> Suc (card (used_pages ?A))"
    unfolding all used_insert_page
    by (cases "finite (used_pages ?A)") (simp_all add: card_insert_if)
  moreover have "\<forall>b\<in>set (mallocs s'). b" using ms malloc_all(2) [OF ma] by simp
  ultimately show thesis using r al by (intro that) auto
qed

lemma init_slabs_ok:
  "distinct (map fst plan) \<Longrightarrow> set (map fst plan) \<inter> D = {} \<Longrightarrow>
   (\<forall>(p, osz, mark)\<in>set plan. osz = word_of_nat (osz_of p) \<and> mark = mark_of p) \<Longrightarrow>
   pginv B S N ctx F D L P \<Longrightarrow> card (used_pages (all_blocks {} P)) + length plan \<le> N \<Longrightarrow>
   \<forall>b\<in>set (mallocs (sh ctx)). b \<Longrightarrow>
   \<exists>ctx' F' L' P'. init_slabs plan ctx = Some (True, ctx') \<and>
     pginv B S N ctx' F' (D \<union> set (map fst plan)) L' P' \<and> fd ctx' = fd ctx \<and> vram_size ctx' = vram_size ctx \<and>
     (\<forall>i<21. \<forall>s. s \<le> avail F i \<longrightarrow> s * 2 ^ i + length plan \<le> avail F 0 \<longrightarrow> s \<le> avail F' i)"
proof (induction plan arbitrary: ctx F D L P)
  case Nil
  then show ?case by auto
next
  case (Cons x plan)
  obtain p osz mark where x: "x = (p, osz, mark)" by (cases x)
  then have pm: "osz = word_of_nat (osz_of p)" "mark = mark_of p" "p \<notin> D" using Cons.prems(2,3) by auto
  have lt: "card (used_pages (all_blocks {} P)) < N" using Cons.prems(5) by simp
  obtain c' s' F' L' P' where
    r: "slab_cache_init (word_of_nat (osz_of p)) (mark_of p) (sh ctx) = Some (0, c', s')"
    and g: "pginv B S N (slab_put (ctx\<lparr>sh := s'\<rparr>) p c') F' (insert p D) L' P'"
    and c: "card (used_pages (all_blocks {} P')) \<le> Suc (card (used_pages (all_blocks {} P)))"
    and ma: "\<forall>b\<in>set (mallocs s'). b" and al: "\<exists>Q. aalloc F 0 = Some (Q, F')"
    by (rule init_slab_step [OF Cons.prems(4) pm(3) lt Cons.prems(6)]) (rule that)
  let ?ctx = "slab_put (ctx\<lparr>sh := s'\<rparr>) p c'"
  have "\<exists>ctx' F2 L2 P2. init_slabs plan ?ctx = Some (True, ctx') \<and>
     pginv B S N ctx' F2 (insert p D \<union> set (map fst plan)) L2 P2 \<and> fd ctx' = fd ?ctx \<and>
     vram_size ctx' = vram_size ?ctx \<and>
     (\<forall>i<21. \<forall>s. s \<le> avail F' i \<longrightarrow> s * 2 ^ i + length plan \<le> avail F' 0 \<longrightarrow> s \<le> avail F2 i)"
    using Cons.prems x c ma by (intro Cons.IH [OF _ _ _ g]) auto
  then obtain ctx' F2 L2 P2 where 2: "init_slabs plan ?ctx = Some (True, ctx')"
    "pginv B S N ctx' F2 (insert p D \<union> set (map fst plan)) L2 P2" "fd ctx' = fd ?ctx" "vram_size ctx' = vram_size ?ctx"
    "\<And>i s. i < 21 \<Longrightarrow> s \<le> avail F' i \<Longrightarrow> s * 2 ^ i + length plan \<le> avail F' 0 \<Longrightarrow> s \<le> avail F2 i" by blast
  have "s \<le> avail F' i \<and> s * 2 ^ i + length plan \<le> avail F' 0"
    if "i < 21" "s \<le> avail F i" "s * 2 ^ i + length (x # plan) \<le> avail F 0" for i s
  proof -
    obtain Q where Q: "aalloc F 0 = Some (Q, F')" using al by blast
    show ?thesis using aalloc_avail(2) [OF Q] avail_page [OF Q that(1,2)] that(3) by simp
  qed
  then have "\<forall>i<21. \<forall>s. s \<le> avail F i \<longrightarrow> s * 2 ^ i + length (x # plan) \<le> avail F 0 \<longrightarrow> s \<le> avail F2 i"
    using 2(5) by blast
  moreover have "init_slabs (x # plan) ctx = Some (True, ctx')" using r x pm 2(1) by (simp add: Let_def)
  moreover have "insert p D \<union> set (map fst plan) = D \<union> set (map fst (x # plan))" by (simp add: x)
  ultimately show ?case using 2(2-4) by auto
qed

lemma plan_covers: "set (map fst slab_plan) = UNIV"
  using slab_ptr.exhaust by (auto simp: slab_plan_def)

theorem gpuInit_heap:
  assumes fdok: "0 \<le> open_result h" and mm: "mmap_result h = B" "B \<noteq> MAP_FAILED"
    and ok: "base_ok B S N" and S: "S = unat vsize" "N = S div 4096" "6 \<le> N"
    and v: "vram_at (mmap_mem h vsize) B S" and ma: "\<forall>b\<in>set (mallocs (sh ctx)). b"
  obtains ctx' where "gpuInit ctx h vsize = Some (0, ctx', h\<lparr>open_fds := open_result h # open_fds h\<rparr>)"
    "stocked B S N ctx' {} 2" "fd ctx' = open_result h" "vram_size ctx' = vsize" "vram_mmap ctx' = B"
    "capacity B S N ctx' (\<lambda>i. (N - 6) div 2 ^ i)"
proof -
  have sz: "vsize = word_of_nat (4096 * N + S mod 4096)" using S by simp
  have sub: "S mod 4096 < 4096" by simp
  obtain b m where b: "buddy_init (mmap_mem h vsize) B vsize = Some (0, b, m)"
    and i: "binv B S N b m (ainit 21 N 0 (\<lambda>_. [])) {}"
    by (rule buddy_init_correct [OF ok v sz sub]) (rule that)
  let ?ctx = "ctx\<lparr>vram_size := vsize, fd := open_result h, vram_mmap := B,
      sh := (sh ctx)\<lparr>buddy := b, vmem := m\<rparr>\<rparr>"
  have g: "pginv B S N ?ctx (ainit 21 N 0 (\<lambda>_. [])) {} (\<lambda>_. []) (\<lambda>_. [])"
    using i by (simp add: pginv_def all_blocks_def slab_pages_def)
  let ?F = "ainit 21 N 0 (\<lambda>_. [])"
  have "\<exists>ctx' F' L' P'. init_slabs slab_plan ?ctx = Some (True, ctx') \<and>
     pginv B S N ctx' F' ({} \<union> set (map fst slab_plan)) L' P' \<and> fd ctx' = fd ?ctx \<and> vram_size ctx' = vram_size ?ctx \<and>
     (\<forall>i<21. \<forall>s. s \<le> avail ?F i \<longrightarrow> s * 2 ^ i + length slab_plan \<le> avail ?F 0 \<longrightarrow> s \<le> avail F' i)"
  proof (rule init_slabs_ok [OF _ _ _ g])
    show "distinct (map fst slab_plan)" by (simp add: slab_plan_def)
    show "\<forall>(p, osz, mark)\<in>set slab_plan. osz = word_of_nat (osz_of p) \<and> mark = mark_of p"
      by (simp add: slab_plan_def)
    show "card (used_pages (all_blocks {} (\<lambda>_. []))) + length slab_plan \<le> N"
      using S(3) by (simp add: slab_plan_def all_blocks_def slab_pages_def used_pages_def)
    show "\<forall>b\<in>set (mallocs (sh ?ctx)). b" using ma by simp
  qed simp
  then obtain ctx' F' L' P' where s: "init_slabs slab_plan ?ctx = Some (True, ctx')"
    and g': "pginv B S N ctx' F' UNIV L' P'" and f: "fd ctx' = open_result h" "vram_size ctx' = vsize"
    and av: "\<forall>i<21. \<forall>s. s \<le> avail ?F i \<longrightarrow> s * 2 ^ i + length slab_plan \<le> avail ?F 0 \<longrightarrow> s \<le> avail F' i"
    unfolding plan_covers by auto
  have "gpuInit ctx h vsize = Some (0, ctx', h\<lparr>open_fds := open_result h # open_fds h\<rparr>)"
    using fdok mm b s by (simp add: gpuInit_def host_open_def Let_def)
  moreover have "vram_mmap ctx' = B" using g' by (simp add: pginv_def)
  moreover have "capacity B S N ctx' (\<lambda>i. (N - 6) div 2 ^ i)"
  proof (rule pginv_done(2) [OF g'])
    fix i :: nat assume i: "i < 21"
    have "avail ?F j = N div 2 ^ j" if "j < 21" for j
      using avail_ainit [of N 21 0 "\<lambda>_. []" j] base_okD(4) [OF ok] by (simp add: avail_def)
    moreover have "(N - 6) div 2 ^ i * 2 ^ i + 6 \<le> N"
      using div_times_less_eq_dividend [of "N - 6" "2 ^ i"] S(3) by linarith
    ultimately show "(N - 6) div 2 ^ i \<le> avail F' i"
      using av i by (simp add: slab_plan_def div_le_mono)
  qed
  ultimately show thesis using pginv_done(1) [OF g'] f by (intro that)
qed

subsection \<open>Nothing stays behind\<close>

lemma munmap_none: "loc a x < unat n \<Longrightarrow> munmap m a n x = None"
  by (simp add: munmap_def)

lemma init_slabs_mmap: "init_slabs plan ctx = Some (ok, ctx') \<Longrightarrow> vram_mmap ctx' = vram_mmap ctx \<and> fd ctx' = fd ctx"
proof (induction plan arbitrary: ctx)
  case Nil
  then show ?case by simp
next
  case (Cons x plan)
  obtain p osz mark where x: "x = (p, osz, mark)" by (cases x)
  then obtain rc c s where "slab_cache_init osz mark (sh ctx) = Some (rc, c, s)"
    using Cons.prems by (auto simp: Option.bind_eq_Some_conv)
  then show ?case
    using Cons.prems Cons.IH [of "slab_put (ctx\<lparr>sh := s\<rparr>) p c"] x
    by (auto simp: Let_def split: if_splits)
qed

lemma gpuInit_failed:
  assumes r: "gpuInit ctx h vsize = Some (r, ctx', h')" and n: "r \<noteq> 0"
  shows "r = -1" "h' = h"
    "0 \<le> open_result h \<Longrightarrow> mmap_result h \<noteq> MAP_FAILED \<Longrightarrow>
      (\<forall>x. loc (mmap_result h) x < unat vsize \<longrightarrow> vmem (sh ctx') x = None)"
  using r n init_slabs_mmap
  by (fastforce simp: gpuInit_def host_open_def host_close_def ctx_munmap_def Let_def munmap_none
      Option.bind_eq_Some_conv split: if_splits)+

lemma gpuDestroy_closes:
  assumes "fd ctx \<ge> 0" "vram_mmap ctx \<noteq> 0" "vram_mmap ctx \<noteq> MAP_FAILED" "gpuDestroy ctx h = (ctx', h')"
  shows "open_fds h' = remove1 (fd ctx) (open_fds h)"
    "loc (vram_mmap ctx) x < unat (vram_size ctx) \<Longrightarrow> vmem (sh ctx') x = None"
  using assms by (auto simp: gpuDestroy_def host_close_def ctx_munmap_def munmap_none NULL_def)

lemma init_slabs_size: "init_slabs plan ctx = Some (ok, ctx') \<Longrightarrow> vram_size ctx' = vram_size ctx"
proof (induction plan arbitrary: ctx)
  case Nil
  then show ?case by simp
next
  case (Cons x plan)
  obtain p osz mark where x: "x = (p, osz, mark)" by (cases x)
  then obtain rc c s where "slab_cache_init osz mark (sh ctx) = Some (rc, c, s)"
    using Cons.prems by (auto simp: Option.bind_eq_Some_conv)
  then show ?case
    using Cons.prems Cons.IH [of "slab_put (ctx\<lparr>sh := s\<rparr>) p c"] x
    by (auto simp: Let_def split: if_splits)
qed

lemma gpuInit_ok_handle:
  assumes r: "gpuInit ctx h vsize = Some (0, ctx', h')"
  shows "0 \<le> open_result h" "fd ctx' = open_result h" "vram_mmap ctx' = mmap_result h"
    "mmap_result h \<noteq> MAP_FAILED" "vram_size ctx' = vsize" "h' = h\<lparr>open_fds := open_result h # open_fds h\<rparr>"
  using r init_slabs_mmap [of slab_plan _ True ctx'] init_slabs_size [of slab_plan _ True ctx']
  by (fastforce simp: gpuInit_def host_open_def Let_def Option.bind_eq_Some_conv split: if_splits)+

end
