(* ===== verification/Vram_Api.thy ===== *)
theory Vram_Api
  imports Libgpgpu_Init
begin

text \<open>
  What the clients of the runtime rely on, as two interfaces: memory that can be requested and
  given back, and memory that can be copied to and from.  The runtime of \<open>lib/libgpgpu.c\<close>
  provides both.  The loops of the clients over several requests, with the release of what they
  got when one of them fails, are treated once, against the first interface.
\<close>

text \<open>Requests one after the other, up to the first that fails, and releases.\<close>

fun alloc_list :: "('s \<Rightarrow> u64 \<Rightarrow> (u64 \<times> 's) option) \<Rightarrow> 's \<Rightarrow> u64 list \<Rightarrow> (u64 list \<times> bool \<times> 's) option" where
  "alloc_list alloc s [] = Some ([], True, s)"
| "alloc_list alloc s (n # ns) = do {
     (b, s) \<leftarrow> alloc s n;
     if b = -1 then Some ([], False, s)
     else do {
       (bs, ok, s) \<leftarrow> alloc_list alloc s ns;
       Some (b # bs, ok, s) } }"

fun free_list_all :: "('s \<Rightarrow> u64 \<Rightarrow> (int \<times> 's) option) \<Rightarrow> 's \<Rightarrow> u64 list \<Rightarrow> 's option" where
  "free_list_all free s [] = Some s"
| "free_list_all free s (b # bs) = do {
     (_, s) \<leftarrow> free s b;
     free_list_all free s bs }"

definition bases :: "region list \<Rightarrow> u64 list" where
  "bases rs = map (\<lambda>r. word_of_nat (fst r)) rs"

lemma bases_simps [simp]: "bases [] = []" "bases (r # rs) = word_of_nat (fst r) # bases rs"
  by (simp_all add: bases_def)

lemma length_bases [simp]: "length (bases rs) = length rs"
  by (simp add: bases_def)

locale vram_alloc =
  fixes inv :: "'s \<Rightarrow> region set \<Rightarrow> bool"
    and alloc :: "'s \<Rightarrow> u64 \<Rightarrow> (u64 \<times> 's) option"
    and free :: "'s \<Rightarrow> u64 \<Rightarrow> (int \<times> 's) option"
    and data :: "'s \<Rightarrow> region \<Rightarrow> u8 list"
  assumes alloc_cases: "inv s R \<Longrightarrow>
      (\<exists>s'. alloc s n = Some (-1, s') \<and> inv s' R \<and> (\<forall>r\<in>R. data s' r = data s r)) \<or>
      (\<exists>a l s'. alloc s n = Some (word_of_nat a, s') \<and> inv s' (insert (a, l) R) \<and> (a, l) \<notin> R \<and>
         unat n \<le> l \<and> (\<forall>r\<in>R. data s' r = data s r))"
    and free_ok: "inv s R \<Longrightarrow> (a, l) \<in> R \<Longrightarrow>
      \<exists>s'. free s (word_of_nat a) = Some (0, s') \<and> inv s' (R - {(a, l)}) \<and>
         (\<forall>r\<in>R - {(a, l)}. data s' r = data s r)"
    and addr_bound: "inv s R \<Longrightarrow> (a, l) \<in> R \<Longrightarrow> a + l \<le> 2 ^ 32 \<and> 0 < l"
    and apart: "inv s R \<Longrightarrow> r \<in> R \<Longrightarrow> q \<in> R \<Longrightarrow> r \<noteq> q \<Longrightarrow> rbytes r \<inter> rbytes q = {}"
begin

lemma addr_valid:
  assumes "inv s R" "(a, l) \<in> R"
  shows "word_of_nat a \<noteq> (-1 :: u64)" "unat (word_of_nat a :: u64) = a"
proof -
  have a: "a < 2 ^ 32" using addr_bound [OF assms] by linarith
  then show u: "unat (word_of_nat a :: u64) = a" by (intro unat_of_nat64) simp
  show "word_of_nat a \<noteq> (-1 :: u64)"
  proof
    assume e: "word_of_nat a = (-1 :: u64)"
    have "unat (-1 :: u64) = 2 ^ 64 - 1" by (simp add: unsigned_minus_1_eq_mask mask_eq_exp_minus_1)
    then show False using u a unfolding e by simp
  qed
qed

text \<open>What a sequence of requests yields: fresh regions, one per request that was met.\<close>

lemma alloc_list_regions:
  "inv s R \<Longrightarrow> \<exists>rs ok s'. alloc_list alloc s ns = Some (bases rs, ok, s') \<and>
     inv s' (R \<union> set rs) \<and> distinct rs \<and> set rs \<inter> R = {} \<and> length rs \<le> length ns \<and>
     (ok \<longleftrightarrow> length rs = length ns) \<and> (\<forall>i<length rs. unat (ns ! i) \<le> snd (rs ! i)) \<and>
     (\<forall>r\<in>R. data s' r = data s r)"
proof (induction ns arbitrary: s R)
  case Nil
  then show ?case by (intro exI [of _ "[]"]) auto
next
  case (Cons n ns)
  consider (fail) s1 where "alloc s n = Some (-1, s1)" "inv s1 R" "\<forall>r\<in>R. data s1 r = data s r"
    | (ok) a l s1 where "alloc s n = Some (word_of_nat a, s1)" "inv s1 (insert (a, l) R)" "(a, l) \<notin> R"
      "unat n \<le> l" "\<forall>r\<in>R. data s1 r = data s r"
    using alloc_cases [OF Cons.prems, of n] by blast
  then show ?case
  proof cases
    case fail
    then show ?thesis by (intro exI [of _ "[]"]) auto
  next
    case ok
    obtain rs k s' where r: "alloc_list alloc s1 ns = Some (bases rs, k, s')"
      "inv s' (insert (a, l) R \<union> set rs)" "distinct rs" "set rs \<inter> insert (a, l) R = {}"
      "length rs \<le> length ns" "k \<longleftrightarrow> length rs = length ns" "\<forall>i<length rs. unat (ns ! i) \<le> snd (rs ! i)"
      "\<forall>r\<in>insert (a, l) R. data s' r = data s1 r"
      using Cons.IH [OF ok(2)] by blast
    have "alloc_list alloc s (n # ns) = Some (bases ((a, l) # rs), k, s')"
      using ok(1) r(1) addr_valid(1) [OF ok(2), of a l] by simp
    moreover have "\<forall>i<length ((a, l) # rs). unat ((n # ns) ! i) \<le> snd (((a, l) # rs) ! i)"
      using ok(4) r(7) by (simp add: All_less_Suc2)
    ultimately show ?thesis
      using r ok(3,5) by (intro exI [of _ "(a, l) # rs"]) auto
  qed
qed

lemma free_list_regions:
  "inv s (R \<union> set rs) \<Longrightarrow> distinct rs \<Longrightarrow> set rs \<inter> R = {} \<Longrightarrow>
   \<exists>s'. free_list_all free s (bases rs) = Some s' \<and> inv s' R \<and> (\<forall>r\<in>R. data s' r = data s r)"
proof (induction rs arbitrary: s)
  case Nil
  then show ?case by simp
next
  case (Cons r rs)
  obtain a l where al: "r = (a, l)" by (cases r)
  obtain s1 where s1: "free s (word_of_nat a) = Some (0, s1)" "inv s1 (R \<union> set (r # rs) - {(a, l)})"
    "\<forall>q\<in>R \<union> set (r # rs) - {(a, l)}. data s1 q = data s q"
    using free_ok [OF Cons.prems(1), of a l] al by auto
  have e: "R \<union> set (r # rs) - {(a, l)} = R \<union> set rs" using Cons.prems al by auto
  obtain s' where "free_list_all free s1 (bases rs) = Some s'" "inv s' R" "\<forall>q\<in>R. data s' q = data s1 q"
    using Cons.IH [OF s1(2) [unfolded e]] Cons.prems by auto
  then show ?case using s1 e al by auto
qed

end

text \<open>Memory that can be copied to and from, at an offset inside a region.\<close>

locale vram_data =
  fixes inv :: "'s \<Rightarrow> region set \<Rightarrow> bool"
    and data :: "'s \<Rightarrow> region \<Rightarrow> u8 list"
    and cpy :: "'s \<Rightarrow> u64 \<Rightarrow> u8 list \<Rightarrow> u64 \<Rightarrow> int \<Rightarrow> (int \<times> u8 list \<times> 's) option"
  assumes copy_in: "inv s R \<Longrightarrow> (a, l) \<in> R \<Longrightarrow> d + unat n \<le> l \<Longrightarrow> unat n \<le> length src \<Longrightarrow>
      \<exists>s'. cpy s (word_of_nat (a + d)) src n GPU_MEMCPY_H2D = Some (0, src, s') \<and> inv s' R \<and>
        data s' (a, l) = take d (data s (a, l)) @ take (unat n) src @ drop (d + unat n) (data s (a, l)) \<and>
        (\<forall>r\<in>R - {(a, l)}. data s' r = data s r)"
    and copy_out: "inv s R \<Longrightarrow> (a, l) \<in> R \<Longrightarrow> d + unat n \<le> l \<Longrightarrow> unat n \<le> length dst \<Longrightarrow>
      cpy s (word_of_nat (a + d)) dst n GPU_MEMCPY_D2H =
        Some (0, take (unat n) (drop d (data s (a, l))) @ drop (unat n) dst, s)"
    and data_length: "length (data s r) = snd r"
    and addr_limit: "inv s R \<Longrightarrow> (a, l) \<in> R \<Longrightarrow> a + l \<le> 2 ^ 32"
begin

text \<open>What was copied in comes out again, and the bytes around it do not change.\<close>

lemma copy_round_trip:
  assumes "inv s R" "(a, l) \<in> R" "d + unat n \<le> l" "unat n \<le> length src" "unat n \<le> length dst"
  shows "\<exists>s'. cpy s (word_of_nat (a + d)) src n GPU_MEMCPY_H2D = Some (0, src, s') \<and> inv s' R \<and>
    cpy s' (word_of_nat (a + d)) dst n GPU_MEMCPY_D2H =
      Some (0, take (unat n) src @ drop (unat n) dst, s')"
proof -
  obtain s' where s': "cpy s (word_of_nat (a + d)) src n GPU_MEMCPY_H2D = Some (0, src, s')" "inv s' R"
    "data s' (a, l) = take d (data s (a, l)) @ take (unat n) src @ drop (d + unat n) (data s (a, l))"
    using copy_in [OF assms(1-4)] by blast
  have "take (unat n) (drop d (data s' (a, l))) = take (unat n) src"
    using assms(3,4) data_length [of s "(a, l)"] by (simp add: s'(3))
  then show ?thesis using s'(1,2) copy_out [OF s'(2) assms(2,3,5)] by auto
qed

end

text \<open>Memory of both kinds.\<close>

locale vram_copy = vram_alloc inv alloc free data + vram_data inv data cpy
  for inv :: "'s \<Rightarrow> region set \<Rightarrow> bool" and alloc :: "'s \<Rightarrow> u64 \<Rightarrow> (u64 \<times> 's) option"
    and free :: "'s \<Rightarrow> u64 \<Rightarrow> (int \<times> 's) option" and data :: "'s \<Rightarrow> region \<Rightarrow> u8 list"
    and cpy :: "'s \<Rightarrow> u64 \<Rightarrow> u8 list \<Rightarrow> u64 \<Rightarrow> int \<Rightarrow> (int \<times> u8 list \<times> 's) option"

lemma length_rdata [simp]: "length (rdata ctx r) = snd r"
  by (simp add: rdata_def)

lemma heap_addr_bound: "heap B S N ctx R \<Longrightarrow> (a, l) \<in> R \<Longrightarrow> a + l \<le> 2 ^ 32 \<and> 0 < l"
proof -
  assume h: "heap B S N ctx R" and r: "(a, l) \<in> R"
  obtain F U L P where g: "ginv B S N ctx F U L P" using h by (rule heapE)
  have "N \<le> 2 ^ 20" using base_okD(4) [OF binvD(1) [OF ginvD(2) [OF g]]] .
  then have "4096 * N \<le> 4096 * 2 ^ 20" by (rule mult_le_mono2)
  then show ?thesis using heap_bounds [OF h r] by simp
qed

interpretation gpu: vram_copy "heap B S N" gpuMalloc gpuFree rdata gpuMemcpy for B S N
proof unfold_locales
  show "(\<exists>s'. gpuMalloc s n = Some (-1, s') \<and> heap B S N s' R \<and> (\<forall>r\<in>R. rdata s' r = rdata s r)) \<or>
      (\<exists>a l s'. gpuMalloc s n = Some (word_of_nat a, s') \<and> heap B S N s' (insert (a, l) R) \<and> (a, l) \<notin> R \<and>
         unat n \<le> l \<and> (\<forall>r\<in>R. rdata s' r = rdata s r))" if "heap B S N s R" for s n R
    by (cases rule: gpuMalloc_heap [OF that, of n]) (auto simp: same_data_def)
  show "\<exists>s'. gpuFree s (word_of_nat a) = Some (0, s') \<and> heap B S N s' (R - {(a, l)}) \<and>
         (\<forall>r\<in>R - {(a, l)}. rdata s' r = rdata s r)" if "heap B S N s R" "(a, l) \<in> R" for s a l R
    by (cases rule: gpuFree_heap [OF that]) (auto simp: same_data_def)
  show "\<exists>s'. gpuMemcpy s (word_of_nat (a + d)) src n GPU_MEMCPY_H2D = Some (0, src, s') \<and> heap B S N s' R \<and>
        rdata s' (a, l) = take d (rdata s (a, l)) @ take (unat n) src @ drop (d + unat n) (rdata s (a, l)) \<and>
        (\<forall>r\<in>R - {(a, l)}. rdata s' r = rdata s r)"
    if "heap B S N s R" "(a, l) \<in> R" "d + unat n \<le> l" "unat n \<le> length src" for s R a l d n src
    by (cases rule: gpuMemcpy_write [OF that]) (auto simp: same_data_def)
qed (use heap_addr_bound heap_disjoint gpuMemcpy_read in auto)

end
