(* ===== verification/Kv_Cache.thy ===== *)
theory Kv_Cache
  imports Vram_Api
begin

text \<open>
  The key/value cache of \<open>lib/src/kv_cache.c\<close>: two device buffers of
  \<open>num_layers * num_kv_heads * max_seq\<close> rows of \<open>head_dim\<close> floats.  A row of one token is
  written per layer and head, the token is committed when all layers are written.  A float is its
  32-bit pattern.
\<close>

record kv_cache =
  num_layers :: u32
  num_kv_heads :: u32
  max_seq :: u32
  head_dim :: u32
  K_dev_off :: u64
  V_dev_off :: u64
  filled :: u32
  pending :: u32

definition float_bytes :: "u32 list \<Rightarrow> u8 list" where
  "float_bytes fs = concat (map (bytes_of 4) fs)"

definition kv_cache_create ::
  "gpgpu_ctx \<Rightarrow> u32 \<Rightarrow> u32 \<Rightarrow> u32 \<Rightarrow> u32 \<Rightarrow> (kv_cache option \<times> gpgpu_ctx) option" where
  "kv_cache_create ctx nl nh ms hdim = do {
     let (ok, s) = malloc (sh ctx);
     let ctx = ctx\<lparr>sh := s\<rparr>;
     if \<not> ok then Some (None, ctx)
     else do {
       let total_bytes = (ucast nl :: u64) * ucast nh * ucast ms * ucast hdim * 4;
       (K, ctx) \<leftarrow> gpuMalloc ctx total_bytes;
       if K = -1 then Some (None, ctx)
       else do {
         (V, ctx) \<leftarrow> gpuMalloc ctx total_bytes;
         if V = -1 then do {
           (_, ctx) \<leftarrow> gpuFree ctx K;
           Some (None, ctx) }
         else Some (Some \<lparr>num_layers = nl, num_kv_heads = nh, max_seq = ms, head_dim = hdim,
             K_dev_off = K, V_dev_off = V, filled = 0, pending = 0\<rparr>, ctx) } } }"

definition kv_cache_K_off :: "kv_cache \<Rightarrow> u32 \<Rightarrow> u64 option" where
  "kv_cache_K_off cache layer = do {
     guard (layer < num_layers cache);
     Some (K_dev_off cache + ucast layer * ucast (num_kv_heads cache) * ucast (max_seq cache) *
        ucast (head_dim cache) * 4) }"

definition kv_cache_V_off :: "kv_cache \<Rightarrow> u32 \<Rightarrow> u64 option" where
  "kv_cache_V_off cache layer = do {
     guard (layer < num_layers cache);
     Some (V_dev_off cache + ucast layer * ucast (num_kv_heads cache) * ucast (max_seq cache) *
        ucast (head_dim cache) * 4) }"

definition kv_cache_cur_pos :: "kv_cache \<Rightarrow> u32 option" where
  "kv_cache_cur_pos cache = do {
     guard (filled cache < max_seq cache);
     Some (filled cache) }"

text \<open>The loop over the heads, from head \<open>kh\<close> on, for the \<open>n\<close> heads that are left.\<close>

fun append_heads :: "nat \<Rightarrow> u32 \<Rightarrow> kv_cache \<Rightarrow> u64 \<Rightarrow> u64 \<Rightarrow> u64 \<Rightarrow> u64 \<Rightarrow> u32 list \<Rightarrow> u32 list \<Rightarrow>
  gpgpu_ctx \<Rightarrow> (int \<times> gpgpu_ctx) option" where
  "append_heads 0 kh cache K_base V_base head_stride row_offset K_new V_new ctx = Some (0, ctx)"
| "append_heads (Suc n) kh cache K_base V_base head_stride row_offset K_new V_new ctx = do {
     let dst_K = K_base + ucast kh * head_stride + row_offset;
     let dst_V = V_base + ucast kh * head_stride + row_offset;
     let src_K = drop (unat (kh * head_dim cache)) K_new;
     let src_V = drop (unat (kh * head_dim cache)) V_new;
     (rc, _, ctx) \<leftarrow> gpuMemcpy ctx dst_K (float_bytes src_K) (ucast (head_dim cache) * 4) 0;
     if rc < 0 then Some (-3, ctx)
     else do {
       (rc, _, ctx) \<leftarrow> gpuMemcpy ctx dst_V (float_bytes src_V) (ucast (head_dim cache) * 4) 0;
       if rc < 0 then Some (-3, ctx)
       else append_heads n (kh + 1) cache K_base V_base head_stride row_offset K_new V_new ctx } }"

definition kv_cache_append_layer ::
  "gpgpu_ctx \<Rightarrow> kv_cache \<Rightarrow> u32 \<Rightarrow> u32 list \<Rightarrow> u32 list \<Rightarrow> (int \<times> kv_cache \<times> gpgpu_ctx) option" where
  "kv_cache_append_layer ctx cache layer K_new V_new =
     (if filled cache \<ge> max_seq cache then Some (-1, cache, ctx)
      else if layer \<ge> num_layers cache then Some (-2, cache, ctx)
      else if layer \<noteq> pending cache then Some (-2, cache, ctx)
      else do {
        layer_K_base \<leftarrow> kv_cache_K_off cache layer;
        layer_V_base \<leftarrow> kv_cache_V_off cache layer;
        let head_stride = ucast (max_seq cache) * ucast (head_dim cache) * 4;
        let row_offset = ucast (filled cache) * ucast (head_dim cache) * 4;
        (rc, ctx) \<leftarrow> append_heads (unat (num_kv_heads cache)) 0 cache layer_K_base layer_V_base
           head_stride row_offset K_new V_new ctx;
        if rc < 0 then Some (rc, cache, ctx)
        else Some (0, cache\<lparr>pending := pending cache + 1\<rparr>, ctx) })"

definition kv_cache_commit_token :: "kv_cache \<Rightarrow> (int \<times> kv_cache) option" where
  "kv_cache_commit_token cache =
     (if pending cache = 0 then Some (-1, cache)
      else if pending cache \<noteq> num_layers cache then Some (-2, cache)
      else do {
        guard (filled cache < max_seq cache);
        Some (0, cache\<lparr>pending := 0, filled := filled cache + 1\<rparr>) })"

definition kv_cache_destroy :: "gpgpu_ctx \<Rightarrow> kv_cache option \<Rightarrow> gpgpu_ctx option" where
  "kv_cache_destroy ctx cache = (case cache of
     None \<Rightarrow> Some ctx
   | Some c \<Rightarrow> do {
       (_, ctx) \<leftarrow> gpuFree ctx (K_dev_off c);
       (_, ctx) \<leftarrow> gpuFree ctx (V_dev_off c);
       Some ctx })"

end
