(* ===== verification/Weight_Loader.thy ===== *)
theory Weight_Loader
  imports Vram_Api
begin

text \<open>
  The weights: the layout constants of \<open>lib/include/weight_layout.h\<close> and the loader of
  \<open>lib/src/weight_loader.c\<close>, which checks the files, requests eight regions of device memory,
  places the tensors in them and copies the files in.  The file system is an argument: the size
  \<open>stat\<close> reports for a path and the bytes that can be read from it.
\<close>

definition WL_HIDDEN_SIZE :: nat where "WL_HIDDEN_SIZE = 896"
definition WL_INTERMEDIATE :: nat where "WL_INTERMEDIATE = 4864"
definition WL_NUM_LAYERS :: nat where "WL_NUM_LAYERS = 24"
definition WL_NUM_Q_HEADS :: nat where "WL_NUM_Q_HEADS = 14"
definition WL_NUM_KV_HEADS :: nat where "WL_NUM_KV_HEADS = 2"
definition WL_HEAD_DIM :: nat where "WL_HEAD_DIM = 64"
definition WL_KV_DIM :: nat where "WL_KV_DIM = 128"
definition WL_VOCAB_SIZE :: nat where "WL_VOCAB_SIZE = 151936"
definition WL_LAYER_BYTES :: nat where "WL_LAYER_BYTES = 59649536"
definition WL_EMBEDDING_BYTES :: nat where "WL_EMBEDDING_BYTES = WL_VOCAB_SIZE * WL_HIDDEN_SIZE * 4"
definition WL_LM_HEAD_BYTES :: nat where "WL_LM_HEAD_BYTES = WL_HIDDEN_SIZE * WL_VOCAB_SIZE * 4"
definition WL_FINAL_NORM_BYTES :: nat where "WL_FINAL_NORM_BYTES = WL_HIDDEN_SIZE * 4"

text \<open>Offsets in bytes and sizes in floats of the tensors of a layer.\<close>

definition WL_OFF_INPUT_NORM :: nat where "WL_OFF_INPUT_NORM = 0"
definition WL_SIZE_INPUT_NORM :: nat where "WL_SIZE_INPUT_NORM = WL_HIDDEN_SIZE"
definition WL_OFF_Q_PROJ_W :: nat where "WL_OFF_Q_PROJ_W = 3584"
definition WL_SIZE_Q_PROJ_W :: nat where "WL_SIZE_Q_PROJ_W = WL_HIDDEN_SIZE * WL_HIDDEN_SIZE"
definition WL_OFF_Q_PROJ_B :: nat where "WL_OFF_Q_PROJ_B = 3214848"
definition WL_SIZE_Q_PROJ_B :: nat where "WL_SIZE_Q_PROJ_B = WL_HIDDEN_SIZE"
definition WL_OFF_K_PROJ_W :: nat where "WL_OFF_K_PROJ_W = 3218432"
definition WL_SIZE_K_PROJ_W :: nat where "WL_SIZE_K_PROJ_W = WL_HIDDEN_SIZE * WL_KV_DIM"
definition WL_OFF_K_PROJ_B :: nat where "WL_OFF_K_PROJ_B = 3677184"
definition WL_SIZE_K_PROJ_B :: nat where "WL_SIZE_K_PROJ_B = WL_KV_DIM"
definition WL_OFF_V_PROJ_W :: nat where "WL_OFF_V_PROJ_W = 3677696"
definition WL_SIZE_V_PROJ_W :: nat where "WL_SIZE_V_PROJ_W = WL_HIDDEN_SIZE * WL_KV_DIM"
definition WL_OFF_V_PROJ_B :: nat where "WL_OFF_V_PROJ_B = 4136448"
definition WL_SIZE_V_PROJ_B :: nat where "WL_SIZE_V_PROJ_B = WL_KV_DIM"
definition WL_OFF_O_PROJ_W :: nat where "WL_OFF_O_PROJ_W = 4136960"
definition WL_SIZE_O_PROJ_W :: nat where "WL_SIZE_O_PROJ_W = WL_HIDDEN_SIZE * WL_HIDDEN_SIZE"
definition WL_OFF_POST_NORM :: nat where "WL_OFF_POST_NORM = 7348224"
definition WL_SIZE_POST_NORM :: nat where "WL_SIZE_POST_NORM = WL_HIDDEN_SIZE"
definition WL_OFF_GATE_PROJ_W :: nat where "WL_OFF_GATE_PROJ_W = 7351808"
definition WL_SIZE_GATE_PROJ_W :: nat where "WL_SIZE_GATE_PROJ_W = WL_HIDDEN_SIZE * WL_INTERMEDIATE"
definition WL_OFF_UP_PROJ_W :: nat where "WL_OFF_UP_PROJ_W = 24784384"
definition WL_SIZE_UP_PROJ_W :: nat where "WL_SIZE_UP_PROJ_W = WL_HIDDEN_SIZE * WL_INTERMEDIATE"
definition WL_OFF_DOWN_PROJ_W :: nat where "WL_OFF_DOWN_PROJ_W = 42216960"
definition WL_SIZE_DOWN_PROJ_W :: nat where "WL_SIZE_DOWN_PROJ_W = WL_INTERMEDIATE * WL_HIDDEN_SIZE"

definition WL_WEIGHTS_TOTAL_BYTES :: nat where
  "WL_WEIGHTS_TOTAL_BYTES = WL_EMBEDDING_BYTES + WL_LM_HEAD_BYTES + WL_FINAL_NORM_BYTES + WL_NUM_LAYERS * WL_LAYER_BYTES"

lemmas wl_defs = WL_HIDDEN_SIZE_def WL_INTERMEDIATE_def WL_NUM_LAYERS_def WL_NUM_Q_HEADS_def
  WL_NUM_KV_HEADS_def WL_HEAD_DIM_def WL_KV_DIM_def WL_VOCAB_SIZE_def WL_LAYER_BYTES_def
  WL_EMBEDDING_BYTES_def WL_LM_HEAD_BYTES_def WL_FINAL_NORM_BYTES_def
  WL_WEIGHTS_TOTAL_BYTES_def WL_OFF_INPUT_NORM_def WL_SIZE_INPUT_NORM_def WL_OFF_Q_PROJ_W_def
  WL_SIZE_Q_PROJ_W_def WL_OFF_Q_PROJ_B_def WL_SIZE_Q_PROJ_B_def WL_OFF_K_PROJ_W_def
  WL_SIZE_K_PROJ_W_def WL_OFF_K_PROJ_B_def WL_SIZE_K_PROJ_B_def WL_OFF_V_PROJ_W_def
  WL_SIZE_V_PROJ_W_def WL_OFF_V_PROJ_B_def WL_SIZE_V_PROJ_B_def WL_OFF_O_PROJ_W_def
  WL_SIZE_O_PROJ_W_def WL_OFF_POST_NORM_def WL_SIZE_POST_NORM_def WL_OFF_GATE_PROJ_W_def
  WL_SIZE_GATE_PROJ_W_def WL_OFF_UP_PROJ_W_def WL_SIZE_UP_PROJ_W_def WL_OFF_DOWN_PROJ_W_def
  WL_SIZE_DOWN_PROJ_W_def

datatype wl_tensor = WL_INPUT_NORM | WL_Q_PROJ_W | WL_Q_PROJ_B | WL_K_PROJ_W | WL_K_PROJ_B
  | WL_V_PROJ_W | WL_V_PROJ_B | WL_O_PROJ_W | WL_POST_NORM | WL_GATE_PROJ_W | WL_UP_PROJ_W
  | WL_DOWN_PROJ_W

text \<open>Offset in bytes and number of floats of each tensor of a layer.\<close>

fun TENSOR_TABLE :: "wl_tensor \<Rightarrow> nat \<times> nat" where
  "TENSOR_TABLE WL_INPUT_NORM = (WL_OFF_INPUT_NORM, WL_SIZE_INPUT_NORM)"
| "TENSOR_TABLE WL_Q_PROJ_W = (WL_OFF_Q_PROJ_W, WL_SIZE_Q_PROJ_W)"
| "TENSOR_TABLE WL_Q_PROJ_B = (WL_OFF_Q_PROJ_B, WL_SIZE_Q_PROJ_B)"
| "TENSOR_TABLE WL_K_PROJ_W = (WL_OFF_K_PROJ_W, WL_SIZE_K_PROJ_W)"
| "TENSOR_TABLE WL_K_PROJ_B = (WL_OFF_K_PROJ_B, WL_SIZE_K_PROJ_B)"
| "TENSOR_TABLE WL_V_PROJ_W = (WL_OFF_V_PROJ_W, WL_SIZE_V_PROJ_W)"
| "TENSOR_TABLE WL_V_PROJ_B = (WL_OFF_V_PROJ_B, WL_SIZE_V_PROJ_B)"
| "TENSOR_TABLE WL_O_PROJ_W = (WL_OFF_O_PROJ_W, WL_SIZE_O_PROJ_W)"
| "TENSOR_TABLE WL_POST_NORM = (WL_OFF_POST_NORM, WL_SIZE_POST_NORM)"
| "TENSOR_TABLE WL_GATE_PROJ_W = (WL_OFF_GATE_PROJ_W, WL_SIZE_GATE_PROJ_W)"
| "TENSOR_TABLE WL_UP_PROJ_W = (WL_OFF_UP_PROJ_W, WL_SIZE_UP_PROJ_W)"
| "TENSOR_TABLE WL_DOWN_PROJ_W = (WL_OFF_DOWN_PROJ_W, WL_SIZE_DOWN_PROJ_W)"

definition LAYERS_PER_REGION :: nat where "LAYERS_PER_REGION = 4"
definition NUM_LAYER_REGIONS :: nat where "NUM_LAYER_REGIONS = WL_NUM_LAYERS div LAYERS_PER_REGION"
definition NUM_REGIONS :: nat where "NUM_REGIONS = 2 + NUM_LAYER_REGIONS"

text \<open>The compile time assertions of the two files.\<close>

definition layout_static_asserts :: bool where
  "layout_static_asserts \<longleftrightarrow> WL_OFF_DOWN_PROJ_W + WL_SIZE_DOWN_PROJ_W * 4 = WL_LAYER_BYTES \<and>
     WL_HIDDEN_SIZE div WL_NUM_Q_HEADS = WL_HEAD_DIM \<and> WL_NUM_KV_HEADS * WL_HEAD_DIM = WL_KV_DIM"

definition region_static_assert :: bool where
  "region_static_assert \<longleftrightarrow> WL_NUM_LAYERS mod LAYERS_PER_REGION = 0"

record weight_loader =
  region_base :: "u64 list"
  region_bytes :: "u64 list"
  embedding_addr :: u64
  lm_head_addr :: u64
  final_norm_addr :: u64
  layer_base :: "u64 list"

subsection \<open>Files\<close>

record file_system =
  stat_size :: "string \<Rightarrow> u64 option"
  content :: "string \<Rightarrow> u8 list option"

definition digit :: "nat \<Rightarrow> char" where
  "digit n = ''0123456789'' ! (n mod 10)"

text \<open>The conversions \<open>%d\<close> and \<open>%x\<close> of a number that is not negative.\<close>

fun dec :: "nat \<Rightarrow> string" where
  "dec n = (if n < 10 then [digit n] else dec (n div 10) @ [digit n])"

fun hex :: "nat \<Rightarrow> string" where
  "hex n = (if n < 16 then [''0123456789abcdef'' ! n] else hex (n div 16) @ [''0123456789abcdef'' ! (n mod 16)])"

declare dec.simps [simp del] hex.simps [simp del]

definition WL_FILE_EMBEDDING :: string where "WL_FILE_EMBEDDING = ''embedding.bin''"
definition WL_FILE_LM_HEAD :: string where "WL_FILE_LM_HEAD = ''lm_head.bin''"
definition WL_FILE_FINAL_NORM :: string where "WL_FILE_FINAL_NORM = ''final_norm.bin''"

definition WL_FILE_LAYER :: "nat \<Rightarrow> string" where
  "WL_FILE_LAYER i = ''layer_'' @ [digit (i div 10), digit i] @ ''.bin''"

text \<open>A path is printed into a buffer of 1024 bytes.\<close>

definition path :: "string \<Rightarrow> string \<Rightarrow> string" where
  "path dir name = take 1023 (dir @ ''/'' @ name)"

definition check_file_size :: "file_system \<Rightarrow> string \<Rightarrow> u64 \<Rightarrow> int" where
  "check_file_size fs p expected =
     (case stat_size fs p of None \<Rightarrow> -1 | Some n \<Rightarrow> if n \<noteq> expected then -1 else 0)"

definition load_file_to_vram ::
  "file_system \<Rightarrow> gpgpu_ctx \<Rightarrow> string \<Rightarrow> u64 \<Rightarrow> u64 \<Rightarrow> (int \<times> gpgpu_ctx) option" where
  "load_file_to_vram fs ctx p vram_offset expected_bytes =
     (case content fs p of
        None \<Rightarrow> Some (-1, ctx)
      | Some bytes \<Rightarrow> do {
          let (ok, s) = malloc (sh ctx);
          let ctx = ctx\<lparr>sh := s\<rparr>;
          if \<not> ok then Some (-1, ctx)
          else do {
            let buf = take (unat expected_bytes) bytes;
            if length buf \<noteq> unat expected_bytes then Some (-1, ctx)
            else do {
              (rc, _, ctx) \<leftarrow> gpuMemcpy ctx vram_offset buf expected_bytes GPU_MEMCPY_H2D;
              if rc < 0 then Some (-1, ctx) else Some (0, ctx) } } })"

text \<open>The files with their sizes, in the order in which they are checked and loaded.\<close>

definition weight_files :: "string \<Rightarrow> (string \<times> nat) list" where
  "weight_files dir =
     (path dir WL_FILE_EMBEDDING, WL_EMBEDDING_BYTES) # (path dir WL_FILE_LM_HEAD, WL_LM_HEAD_BYTES) #
     (path dir WL_FILE_FINAL_NORM, WL_FINAL_NORM_BYTES) #
     map (\<lambda>i. (path dir (WL_FILE_LAYER i), WL_LAYER_BYTES)) [0..<WL_NUM_LAYERS]"

subsection \<open>Placing and loading\<close>

definition plan_bytes :: "nat list" where
  "plan_bytes = WL_EMBEDDING_BYTES # WL_LM_HEAD_BYTES #
     (WL_FINAL_NORM_BYTES + LAYERS_PER_REGION * WL_LAYER_BYTES) #
     map (\<lambda>r. LAYERS_PER_REGION * WL_LAYER_BYTES) [3..<NUM_REGIONS]"

text \<open>The cursor loop: one layer after the other from an address on.\<close>

fun place_layers :: "nat \<Rightarrow> u64 \<Rightarrow> u64 list" where
  "place_layers 0 cursor = []"
| "place_layers (Suc n) cursor = cursor # place_layers n (cursor + word_of_nat WL_LAYER_BYTES)"

definition place_tensors :: "u64 list \<Rightarrow> weight_loader" where
  "place_tensors bs =
     \<lparr>region_base = bs, region_bytes = map word_of_nat plan_bytes,
      embedding_addr = bs ! 0, lm_head_addr = bs ! 1, final_norm_addr = bs ! 2,
      layer_base = place_layers LAYERS_PER_REGION (bs ! 2 + word_of_nat WL_FINAL_NORM_BYTES) @
        concat (map (\<lambda>r. place_layers LAYERS_PER_REGION (bs ! r)) [3..<NUM_REGIONS])\<rparr>"

fun load_all :: "file_system \<Rightarrow> gpgpu_ctx \<Rightarrow> (string \<times> u64 \<times> u64) list \<Rightarrow> (bool \<times> gpgpu_ctx) option" where
  "load_all fs ctx [] = Some (True, ctx)"
| "load_all fs ctx ((p, addr, n) # xs) = do {
     (rc, ctx) \<leftarrow> load_file_to_vram fs ctx p addr n;
     if rc < 0 then Some (False, ctx) else load_all fs ctx xs }"

definition weight_loads :: "string \<Rightarrow> weight_loader \<Rightarrow> (string \<times> u64 \<times> u64) list" where
  "weight_loads dir wl =
     map (\<lambda>((p, n), addr). (p, addr, word_of_nat n))
       (zip (weight_files dir) (embedding_addr wl # lm_head_addr wl # final_norm_addr wl # layer_base wl))"

definition weight_loader_load ::
  "file_system \<Rightarrow> gpgpu_ctx \<Rightarrow> string option \<Rightarrow> (weight_loader option \<times> gpgpu_ctx) option" where
  "weight_loader_load fs ctx weights_dir = (case weights_dir of
     None \<Rightarrow> Some (None, ctx)
   | Some dir \<Rightarrow>
     if \<not> list_all (\<lambda>(p, n). \<not> check_file_size fs p (word_of_nat n) < 0) (weight_files dir)
     then Some (None, ctx)
     else do {
       let (ok, s) = malloc (sh ctx);
       let ctx = ctx\<lparr>sh := s\<rparr>;
       if \<not> ok then Some (None, ctx)
       else do {
         (bs, ok, ctx) \<leftarrow> alloc_list gpuMalloc ctx (map word_of_nat plan_bytes);
         if \<not> ok then do {
           ctx \<leftarrow> free_list_all gpuFree ctx bs;
           Some (None, ctx) }
         else do {
           let wl = place_tensors bs;
           (ok, ctx) \<leftarrow> load_all fs ctx (weight_loads dir wl);
           if ok then Some (Some wl, ctx)
           else do {
             ctx \<leftarrow> free_list_all gpuFree ctx (filter (\<lambda>b. b \<noteq> -1) (region_base wl));
             Some (None, ctx) } } } })"

definition weight_loader_destroy :: "gpgpu_ctx \<Rightarrow> weight_loader option \<Rightarrow> gpgpu_ctx option" where
  "weight_loader_destroy ctx wl = (case wl of
     None \<Rightarrow> Some ctx
   | Some w \<Rightarrow> free_list_all gpuFree ctx (filter (\<lambda>b. b \<noteq> -1) (region_base w)))"

subsection \<open>Queries\<close>

definition weight_loader_layer :: "weight_loader \<Rightarrow> int \<Rightarrow> wl_tensor \<Rightarrow> u64 option" where
  "weight_loader_layer wl layer name = do {
     guard (0 \<le> layer \<and> layer < int WL_NUM_LAYERS);
     Some (layer_base wl ! nat layer + word_of_nat (fst (TENSOR_TABLE name))) }"

definition weight_loader_embedding :: "weight_loader \<Rightarrow> u64" where
  "weight_loader_embedding wl = embedding_addr wl"

definition weight_loader_lm_head :: "weight_loader \<Rightarrow> u64" where
  "weight_loader_lm_head wl = lm_head_addr wl"

definition weight_loader_final_norm :: "weight_loader \<Rightarrow> u64" where
  "weight_loader_final_norm wl = final_norm_addr wl"

definition weight_loader_dump_floats ::
  "gpgpu_ctx \<Rightarrow> u64 \<Rightarrow> u8 list \<Rightarrow> u64 \<Rightarrow> (int \<times> u8 list \<times> gpgpu_ctx) option" where
  "weight_loader_dump_floats ctx vram_offset out_buf n_floats =
     gpuMemcpy ctx vram_offset out_buf (n_floats * 4) GPU_MEMCPY_D2H"

text \<open>The lines that \<open>weight_loader_print_layout\<close> prints; the first one has bars of three characters each.\<close>

definition hrule :: string where
  "hrule = concat (replicate 3 [CHR 0xE2, CHR 0x94, CHR 0x80])"

definition pad2 :: "nat \<Rightarrow> string" where
  "pad2 n = (if n < 10 then '' '' else []) @ dec n"

definition weight_loader_print_layout :: "weight_loader \<Rightarrow> string list" where
  "weight_loader_print_layout wl =
     (hrule @ '' weight_loader layout (4 regions) '' @ hrule) #
     map (\<lambda>r. ''region['' @ dec r @ ''] base=0x'' @ hex (unat (region_base wl ! r)) @ '' size='' @
        dec (unat (region_bytes wl ! r)) @ '' bytes'') [0..<NUM_REGIONS] @
     [''embedding   @ 0x'' @ hex (unat (embedding_addr wl)), ''lm_head     @ 0x'' @ hex (unat (lm_head_addr wl)),
      ''final_norm  @ 0x'' @ hex (unat (final_norm_addr wl))] @
     map (\<lambda>i. ''layer '' @ pad2 i @ ''    @ 0x'' @ hex (unat (layer_base wl ! i))) [0..<WL_NUM_LAYERS]"

end
