(* ===== verification/Transformer.thy ===== *)
theory Transformer
  imports Kv_Cache Weight_Loader
begin

text \<open>
  The data of the transformer of \<open>lib/include/transformer.h\<close> and the first half of
  \<open>lib/src/transformer.c\<close>: configuration, workspace, the argument blocks of the kernels, the table
  of sines and cosines, loading a kernel, and the start and end of a workspace.

  The offsets of a workspace are addressed by name, because the code runs over arrays of pointers to
  them: such a pointer is a value of the datatype \<open>ws_field\<close>.  A float is its 32-bit pattern; the
  floating point operations of the host are an argument.
\<close>

subsection \<open>Codes, configuration, workspace\<close>

definition TRANSFORMER_OK :: int where "TRANSFORMER_OK = 0"
definition TRANSFORMER_ERR_INIT :: int where "TRANSFORMER_ERR_INIT = -1"
definition TRANSFORMER_ERR_ALLOC :: int where "TRANSFORMER_ERR_ALLOC = -2"
definition TRANSFORMER_ERR_KERNEL :: int where "TRANSFORMER_ERR_KERNEL = -3"
definition TRANSFORMER_ERR_LAUNCH :: int where "TRANSFORMER_ERR_LAUNCH = -4"
definition TRANSFORMER_ERR_CACHE :: int where "TRANSFORMER_ERR_CACHE = -5"
definition TRANSFORMER_ERR_IO :: int where "TRANSFORMER_ERR_IO = -6"
definition TRANSFORMER_ERR_SINCOS :: int where "TRANSFORMER_ERR_SINCOS = -7"

lemmas code_defs = TRANSFORMER_OK_def TRANSFORMER_ERR_INIT_def TRANSFORMER_ERR_ALLOC_def
  TRANSFORMER_ERR_KERNEL_def TRANSFORMER_ERR_LAUNCH_def TRANSFORMER_ERR_CACHE_def
  TRANSFORMER_ERR_IO_def TRANSFORMER_ERR_SINCOS_def

record transformer_config =
  cfg_D :: u32
  cfg_intermediate :: u32
  cfg_num_layers :: u32
  cfg_num_q_heads :: u32
  cfg_num_kv_heads :: u32
  cfg_head_dim :: u32
  cfg_vocab_size :: u32
  cfg_max_seq :: u32
  cfg_S_max :: u32
  cfg_rms_norm_eps :: u32
  cfg_rope_theta :: u32

text \<open>The patterns of \<open>1e-6f\<close> and \<open>1000000.0f\<close>.\<close>

definition transformer_default_config :: transformer_config where
  "transformer_default_config = \<lparr>cfg_D = 896, cfg_intermediate = 4864, cfg_num_layers = 24, cfg_num_q_heads = 14,
     cfg_num_kv_heads = 2, cfg_head_dim = 64, cfg_vocab_size = 151936, cfg_max_seq = 128, cfg_S_max = 1,
     cfg_rms_norm_eps = 0x358637BD, cfg_rope_theta = 0x49742400\<rparr>"

datatype ws_field = RESID_A | RESID_B | SCRATCH_X | SCRATCH_Q | SCRATCH_K | SCRATCH_V | SCRATCH_SCORES
  | SCRATCH_FFN_A | SCRATCH_FFN_B | LOGITS | sincos_off | token_id_buf_off | argmax_debug_off
  | kbin_rmsnorm | kbin_gemm | kbin_broadcast_add | kbin_silu | kbin_vmul | kbin_rope | kbin_embedding
  | kbin_argmax | kbin_qkt_decode | kbin_softmax_decode | kbin_pv_decode
  | args_rmsnorm | args_gemm | args_broadcast_add | args_silu | args_vmul | args_rope | args_embedding
  | args_argmax | args_qkt_decode | args_softmax_decode | args_pv_decode

text \<open>
  The context and the cache a workspace refers to are passed along as values; the loader, which no
  step changes, is part of it.
\<close>

record transformer_workspace =
  ws_wl :: weight_loader
  ws_cfg :: transformer_config
  ws_off :: "ws_field \<Rightarrow> u64"

subsection \<open>Argument blocks\<close>

text \<open>The memory image of each block, word by word.\<close>

definition rmsnorm_args :: "u32 \<Rightarrow> u32 \<Rightarrow> u32 \<Rightarrow> u32 \<Rightarrow> u32 \<Rightarrow> u32 \<Rightarrow> u32 list" where
  "rmsnorm_args in_off out_off weight_off d inv_d eps = [in_off, out_off, weight_off, d, inv_d, eps]"

definition gemm_args :: "u32 \<Rightarrow> u32 \<Rightarrow> u32 \<Rightarrow> u32 \<Rightarrow> u32 \<Rightarrow> u32 \<Rightarrow> u32 list" where
  "gemm_args a_off b_off c_off M K N = [a_off, b_off, c_off, M, K, N]"

definition broadcast_add_args :: "u32 \<Rightarrow> u32 \<Rightarrow> u32 \<Rightarrow> u32 \<Rightarrow> u32 \<Rightarrow> u32 list" where
  "broadcast_add_args x_off y_off b_off M N = [x_off, y_off, b_off, M, N]"

definition silu_args :: "u32 \<Rightarrow> u32 \<Rightarrow> u32 \<Rightarrow> u32 list" where
  "silu_args in_off out_off D = [in_off, out_off, D]"

definition vmul_args :: "u32 \<Rightarrow> u32 \<Rightarrow> u32 \<Rightarrow> u32 \<Rightarrow> u32 list" where
  "vmul_args a_off b_off c_off num = [a_off, b_off, c_off, num]"

definition rope_args :: "u32 \<Rightarrow> u32 \<Rightarrow> u32 \<Rightarrow> u32 \<Rightarrow> u32 \<Rightarrow> u32 list" where
  "rope_args x_off sincos num_heads hdim token_pos = [x_off, sincos, num_heads, hdim, token_pos]"

definition embedding_args :: "u32 \<Rightarrow> u32 \<Rightarrow> u32 \<Rightarrow> u32 \<Rightarrow> u32 \<Rightarrow> u32 list" where
  "embedding_args table_base token_id_buf output_base D elems_per_lane =
     [table_base, token_id_buf, output_base, D, elems_per_lane]"

definition argmax_args :: "u32 \<Rightarrow> u32 \<Rightarrow> u32 \<Rightarrow> u32 \<Rightarrow> u32 list" where
  "argmax_args logits_base V out_base debug_base = [logits_base, V, out_base, debug_base]"

definition qkt_decode_args :: "u32 \<Rightarrow> u32 \<Rightarrow> u32 \<Rightarrow> u32 \<Rightarrow> u32 \<Rightarrow> u32 \<Rightarrow> u32 \<Rightarrow> u32 \<Rightarrow> u32 list" where
  "qkt_decode_args Q_off K_cache_off scores_off cur_pos ms hdim q_per_kv scale_bits =
     [Q_off, K_cache_off, scores_off, cur_pos, ms, hdim, q_per_kv, scale_bits]"

definition softmax_decode_args :: "u32 \<Rightarrow> u32 \<Rightarrow> u32 \<Rightarrow> u32 list" where
  "softmax_decode_args scores_off cur_pos ms = [scores_off, cur_pos, ms]"

definition pv_decode_args :: "u32 \<Rightarrow> u32 \<Rightarrow> u32 \<Rightarrow> u32 \<Rightarrow> u32 \<Rightarrow> u32 \<Rightarrow> u32 \<Rightarrow> u32 list" where
  "pv_decode_args P_off V_cache_off O_off cur_pos ms hdim q_per_kv =
     [P_off, V_cache_off, O_off, cur_pos, ms, hdim, q_per_kv]"

lemmas args_defs = rmsnorm_args_def gemm_args_def broadcast_add_args_def silu_args_def vmul_args_def
  rope_args_def embedding_args_def argmax_args_def qkt_decode_args_def softmax_decode_args_def
  pv_decode_args_def

text \<open>The assertions on the sizes of the blocks.\<close>

definition args_static_asserts :: bool where
  "args_static_asserts \<longleftrightarrow> list_all (\<lambda>ws. 4 * length ws \<le> 32)
     [rmsnorm_args 0 0 0 0 0 0, gemm_args 0 0 0 0 0 0, broadcast_add_args 0 0 0 0 0, silu_args 0 0 0,
      vmul_args 0 0 0 0, rope_args 0 0 0 0 0, embedding_args 0 0 0 0 0, argmax_args 0 0 0 0,
      qkt_decode_args 0 0 0 0 0 0 0 0, softmax_decode_args 0 0 0, pv_decode_args 0 0 0 0 0 0 0]"

record step_ctx =
  sctx_cur_pos :: "32 word"
  sctx_dump_step_id :: int

type_synonym dim3 = "u32 \<times> u32 \<times> u32"

definition calc_dispatch_1warp_per_block :: "u32 \<Rightarrow> dim3 \<times> dim3" where
  "calc_dispatch_1warp_per_block n = (((n + 31) div 32, 1, 1), (32, 1, 1))"

subsection \<open>Sines and cosines\<close>

record fpu =
  f_of_int :: "int \<Rightarrow> u32"
  f_sub :: "u32 \<Rightarrow> u32 \<Rightarrow> u32"
  f_mul :: "u32 \<Rightarrow> u32 \<Rightarrow> u32"
  f_div :: "u32 \<Rightarrow> u32 \<Rightarrow> u32"
  f_gt :: "u32 \<Rightarrow> u32 \<Rightarrow> bool"
  fabsf :: "u32 \<Rightarrow> u32"
  powf :: "u32 \<Rightarrow> u32 \<Rightarrow> u32"
  sqrtf :: "u32 \<Rightarrow> u32"
  cosf :: "u32 \<Rightarrow> u32"
  sinf :: "u32 \<Rightarrow> u32"

definition F_ONE :: u32 where "F_ONE = 0x3F800000"
definition F_TWO :: u32 where "F_TWO = 0x40000000"
definition F_1EM6 :: u32 where "F_1EM6 = 0x358637BD"

definition sincos_freq :: "fpu \<Rightarrow> u32 \<Rightarrow> nat \<Rightarrow> nat \<Rightarrow> u32" where
  "sincos_freq fp rope_theta hdim k =
     f_div fp F_ONE (powf fp rope_theta (f_div fp (f_mul fp F_TWO (f_of_int fp (int k))) (f_of_int fp (int hdim))))"

definition sincos_angle :: "fpu \<Rightarrow> u32 \<Rightarrow> nat \<Rightarrow> nat \<Rightarrow> nat \<Rightarrow> u32" where
  "sincos_angle fp rope_theta hdim pos k = f_mul fp (f_of_int fp (int pos)) (sincos_freq fp rope_theta hdim k)"

text \<open>The two nested loops that fill the table, the inner one from \<open>k\<close> and the outer from \<open>pos\<close> on.\<close>

fun fill_row :: "fpu \<Rightarrow> u32 \<Rightarrow> nat \<Rightarrow> nat \<Rightarrow> nat \<Rightarrow> nat \<Rightarrow> u32 list \<Rightarrow> u32 list" where
  "fill_row fp theta hdim pos k 0 table = table"
| "fill_row fp theta hdim pos k (Suc n) table =
     (let angle = sincos_angle fp theta hdim pos k;
          table = table[pos * hdim + k * 2 := cosf fp angle];
          table = table[pos * hdim + k * 2 + 1 := sinf fp angle]
      in fill_row fp theta hdim pos (Suc k) n table)"

fun fill_rows :: "fpu \<Rightarrow> u32 \<Rightarrow> nat \<Rightarrow> nat \<Rightarrow> nat \<Rightarrow> u32 list \<Rightarrow> u32 list" where
  "fill_rows fp theta hdim pos 0 table = table"
| "fill_rows fp theta hdim pos (Suc n) table =
     fill_rows fp theta hdim (Suc pos) n (fill_row fp theta hdim pos 0 (hdim div 2) table)"

text \<open>One pair of the self-check at position 0.\<close>

definition pair_off :: "fpu \<Rightarrow> u32 list \<Rightarrow> nat \<Rightarrow> bool" where
  "pair_off fp table k \<longleftrightarrow> f_gt fp (fabsf fp (f_sub fp (table ! (k * 2)) F_ONE)) F_1EM6 \<or>
     f_gt fp (fabsf fp (table ! (k * 2 + 1))) F_1EM6"

definition compute_sincos_table ::
  "fpu \<Rightarrow> u32 \<Rightarrow> int \<Rightarrow> int \<Rightarrow> shared \<Rightarrow> (u32 list option \<times> int \<times> shared) option" where
  "compute_sincos_table fp rope_theta max_pos hdim s = do {
     guard (hdim > 0 \<and> hdim mod 2 = 0);
     let half = nat hdim div 2;
     let count = nat max_pos * nat hdim;
     let (ok, s) = malloc s;
     if \<not> ok then Some (None, TRANSFORMER_ERR_ALLOC, s)
     else do {
       guard (half \<le> 64);
       guard (0 < max_pos);
       let table = fill_rows fp rope_theta (nat hdim) 0 (nat max_pos) (replicate count 0);
       if list_ex (pair_off fp table) [0..<half] then Some (None, TRANSFORMER_ERR_SINCOS, s)
       else Some (Some table, TRANSFORMER_OK, s) } }"

subsection \<open>Files for debugging\<close>

text \<open>
  A build with \<open>DUMP_INTERMEDIATES\<close> writes files.  What the file system answers is part of the state,
  as are the bytes that a buffer holds before anything is copied into it.
\<close>

record dump_state =
  last_step_id :: int
  mkdir_ok :: "string \<Rightarrow> bool"
  fopen_ok :: "string \<Rightarrow> bool"
  uninit :: "nat \<Rightarrow> u8"
  dumped :: "(string \<times> u8 list) list"

definition put_file :: "string \<Rightarrow> u8 list \<Rightarrow> dump_state \<Rightarrow> dump_state" where
  "put_file p bs d = (if fopen_ok d p then d\<lparr>dumped := dumped d @ [(p, bs)]\<rparr> else d)"

subsection \<open>Loading a kernel\<close>

definition OFF_INVALID :: u64 where
  "OFF_INVALID = -1"

definition load_kernel_bin ::
  "file_system \<Rightarrow> gpgpu_ctx \<Rightarrow> string \<Rightarrow> string \<Rightarrow> (u64 \<times> gpgpu_ctx) option" where
  "load_kernel_bin fs ctx dir name = (let p = path dir (name @ ''.bin'') in
     case content fs p of
       None \<Rightarrow> Some (OFF_INVALID, ctx)
     | Some bytes \<Rightarrow>
       let file_size = (case stat_size fs p of None \<Rightarrow> -1 | Some n \<Rightarrow> sint n) in
       if file_size \<le> 0 then Some (OFF_INVALID, ctx)
       else let n = word_of_int file_size; (ok, s) = malloc (sh ctx); ctx = ctx\<lparr>sh := s\<rparr> in
       if \<not> ok then Some (OFF_INVALID, ctx)
       else let buf = take (unat n) bytes in
       if length buf \<noteq> unat n then Some (OFF_INVALID, ctx)
       else do {
         (off, ctx) \<leftarrow> gpuMalloc ctx n;
         if off = OFF_INVALID then Some (OFF_INVALID, ctx)
         else do {
           (rc, _, ctx) \<leftarrow> gpuMemcpy ctx off buf n GPU_MEMCPY_H2D;
           if rc < 0 then do {
             (_, ctx) \<leftarrow> gpuFree ctx off;
             Some (OFF_INVALID, ctx) }
           else Some (off, ctx) } })"

subsection \<open>Start\<close>

definition init_args_valid :: "weight_loader option \<Rightarrow> kv_cache option \<Rightarrow> transformer_config option \<Rightarrow> bool" where
  "init_args_valid wl kv cfg = (case (wl, kv, cfg) of
     (Some _, Some kv, Some cfg) \<Rightarrow> cfg_S_max cfg = 1 \<and> cfg_max_seq cfg = 128 \<and> cfg_max_seq cfg = max_seq kv
   | _ \<Rightarrow> False)"

definition ws_fields :: "ws_field list" where
  "ws_fields = [RESID_A, RESID_B, SCRATCH_X, SCRATCH_Q, SCRATCH_K, SCRATCH_V, SCRATCH_SCORES, SCRATCH_FFN_A,
     SCRATCH_FFN_B, LOGITS, sincos_off, token_id_buf_off, argmax_debug_off, kbin_rmsnorm, kbin_gemm,
     kbin_broadcast_add, kbin_silu, kbin_vmul, kbin_rope, kbin_embedding, kbin_argmax, kbin_qkt_decode,
     kbin_softmax_decode, kbin_pv_decode, args_rmsnorm, args_gemm, args_broadcast_add, args_silu, args_vmul,
     args_rope, args_embedding, args_argmax, args_qkt_decode, args_softmax_decode, args_pv_decode]"

definition set_off :: "ws_field \<Rightarrow> u64 \<Rightarrow> transformer_workspace \<Rightarrow> transformer_workspace" where
  "set_off f v ws = ws\<lparr>ws_off := (ws_off ws)(f := v)\<rparr>"

definition kv_dim :: "transformer_config \<Rightarrow> u32" where
  "kv_dim cfg = cfg_num_kv_heads cfg * cfg_head_dim cfg"

definition size4 :: "u32 \<Rightarrow> u32 \<Rightarrow> u64" where
  "size4 a b = ucast a * ucast b * 4"

definition scratch_plan :: "transformer_config \<Rightarrow> (ws_field \<times> u64) list" where
  "scratch_plan cfg = [
     (RESID_A, size4 (cfg_S_max cfg) (cfg_D cfg)), (RESID_B, size4 (cfg_S_max cfg) (cfg_D cfg)),
     (SCRATCH_X, size4 (cfg_S_max cfg) (cfg_D cfg)), (SCRATCH_Q, size4 (cfg_S_max cfg) (cfg_D cfg)),
     (SCRATCH_K, size4 (cfg_S_max cfg) (kv_dim cfg)), (SCRATCH_V, size4 (cfg_S_max cfg) (kv_dim cfg)),
     (SCRATCH_SCORES, size4 (cfg_num_q_heads cfg) (cfg_max_seq cfg)),
     (SCRATCH_FFN_A, size4 (cfg_S_max cfg) (cfg_intermediate cfg)),
     (SCRATCH_FFN_B, size4 (cfg_S_max cfg) (cfg_intermediate cfg)),
     (LOGITS, ucast (cfg_vocab_size cfg) * 4), (sincos_off, size4 (cfg_max_seq cfg) (cfg_head_dim cfg)),
     (token_id_buf_off, 4), (argmax_debug_off, 1024)]"

definition kernel_plan :: "(ws_field \<times> string) list" where
  "kernel_plan = [(kbin_rmsnorm, ''rmsnorm''), (kbin_gemm, ''gemm''), (kbin_broadcast_add, ''broadcast_add''),
     (kbin_silu, ''silu''), (kbin_vmul, ''vmul''), (kbin_rope, ''rope''), (kbin_embedding, ''embedding_lookup''),
     (kbin_argmax, ''argmax''), (kbin_qkt_decode, ''qkt_decode''), (kbin_softmax_decode, ''softmax_decode''),
     (kbin_pv_decode, ''pv_decode'')]"

definition args_plan :: "(ws_field \<times> u64) list" where
  "args_plan = [(args_rmsnorm, 32), (args_gemm, 32), (args_broadcast_add, 32), (args_silu, 32), (args_vmul, 32),
     (args_rope, 32), (args_embedding, 32), (args_argmax, 32), (args_qkt_decode, 32), (args_softmax_decode, 32),
     (args_pv_decode, 32)]"

text \<open>A run of assignments \<open>ws->f = get(ctx, x)\<close>, and the loop that looks for a failed one.\<close>

fun assign_fields ::
  "('s \<Rightarrow> 'a \<Rightarrow> (u64 \<times> 's) option) \<Rightarrow> (ws_field \<times> 'a) list \<Rightarrow>
   transformer_workspace \<Rightarrow> 's \<Rightarrow> (transformer_workspace \<times> 's) option" where
  "assign_fields get [] ws s = Some (ws, s)"
| "assign_fields get ((f, x) # xs) ws s = do {
     (v, s) \<leftarrow> get s x;
     assign_fields get xs (set_off f v ws) s }"

definition all_assigned :: "(ws_field \<times> 'a) list \<Rightarrow> transformer_workspace \<Rightarrow> bool" where
  "all_assigned xs ws = list_all (\<lambda>(f, _). ws_off ws f \<noteq> OFF_INVALID) xs"

fun free_fields :: "ws_field list \<Rightarrow> transformer_workspace \<Rightarrow> gpgpu_ctx \<Rightarrow> gpgpu_ctx option" where
  "free_fields [] ws ctx = Some ctx"
| "free_fields (f # fs) ws ctx =
     (if ws_off ws f \<noteq> OFF_INVALID then do { (_, ctx) \<leftarrow> gpuFree ctx (ws_off ws f); free_fields fs ws ctx }
      else free_fields fs ws ctx)"

definition transformer_destroy :: "gpgpu_ctx \<Rightarrow> transformer_workspace option \<Rightarrow> gpgpu_ctx option" where
  "transformer_destroy ctx ws = (case ws of None \<Rightarrow> Some ctx
   | Some ws \<Rightarrow> do {
       ctx \<leftarrow> free_fields (map fst (scratch_plan (ws_cfg ws))) ws ctx;
       ctx \<leftarrow> free_fields (map fst kernel_plan) ws ctx;
       free_fields (map fst args_plan) ws ctx })"

text \<open>Step 7 of the start: the table, computed on the host and copied; a build for debugging also dumps it.\<close>

definition init_sincos ::
  "bool \<Rightarrow> fpu \<Rightarrow> transformer_workspace \<Rightarrow> gpgpu_ctx \<Rightarrow> dump_state \<Rightarrow> (bool \<times> gpgpu_ctx \<times> dump_state) option" where
  "init_sincos dumping fp ws ctx d = (let cfg = ws_cfg ws in do {
     (t, _, s) \<leftarrow> compute_sincos_table fp (cfg_rope_theta cfg) (sint (cfg_max_seq cfg)) (sint (cfg_head_dim cfg)) (sh ctx);
     let ctx = ctx\<lparr>sh := s\<rparr>;
     case t of None \<Rightarrow> Some (False, ctx, d)
     | Some table \<Rightarrow> do {
         (rc, _, ctx) \<leftarrow> gpuMemcpy ctx (ws_off ws sincos_off) (float_bytes table)
            (size4 (cfg_max_seq cfg) (cfg_head_dim cfg)) GPU_MEMCPY_H2D;
         if rc < 0 then Some (False, ctx, d)
         else Some (True, ctx, if dumping then put_file ''dump/sincos.bin'' (float_bytes table) d else d) } })"

text \<open>Step 8: zeroes in the two residual buffers, when the host has memory for them.\<close>

definition init_zero :: "transformer_workspace \<Rightarrow> gpgpu_ctx \<Rightarrow> gpgpu_ctx option" where
  "init_zero ws ctx = (let n = size4 (cfg_S_max (ws_cfg ws)) (cfg_D (ws_cfg ws));
       (ok, s) = malloc (sh ctx); ctx = ctx\<lparr>sh := s\<rparr> in
     if \<not> ok then Some ctx
     else do {
       (_, _, ctx) \<leftarrow> gpuMemcpy ctx (ws_off ws RESID_A) (replicate (unat n) 0) n GPU_MEMCPY_H2D;
       (_, _, ctx) \<leftarrow> gpuMemcpy ctx (ws_off ws RESID_B) (replicate (unat n) 0) n GPU_MEMCPY_H2D;
       Some ctx })"

definition init_fail ::
  "transformer_workspace \<Rightarrow> gpgpu_ctx \<Rightarrow> dump_state \<Rightarrow> (transformer_workspace option \<times> gpgpu_ctx \<times> dump_state) option" where
  "init_fail ws ctx d = do { ctx \<leftarrow> transformer_destroy ctx (Some ws); Some (None, ctx, d) }"

definition transformer_init ::
  "bool \<Rightarrow> fpu \<Rightarrow> file_system \<Rightarrow> gpgpu_ctx \<Rightarrow> dump_state \<Rightarrow> weight_loader option \<Rightarrow> kv_cache option \<Rightarrow>
   transformer_config option \<Rightarrow> string \<Rightarrow> (transformer_workspace option \<times> gpgpu_ctx \<times> dump_state) option" where
  "transformer_init dumping fp fs ctx d wl kv cfg kernel_bin_dir =
     (if \<not> init_args_valid wl kv cfg then Some (None, ctx, d)
      else let (ok, s) = malloc (sh ctx); ctx = ctx\<lparr>sh := s\<rparr> in
      if \<not> ok then Some (None, ctx, d)
      else do {
        let cfg = the cfg;
        let ws = \<lparr>ws_wl = the wl, ws_cfg = cfg, ws_off = (\<lambda>_. 0)\<rparr>;
        let ws = fold (\<lambda>f. set_off f OFF_INVALID) ws_fields ws;
        (ws, ctx) \<leftarrow> assign_fields gpuMalloc (scratch_plan cfg) ws ctx;
        if \<not> all_assigned (scratch_plan cfg) ws then init_fail ws ctx d
        else do {
          (ws, ctx) \<leftarrow> assign_fields (\<lambda>ctx. load_kernel_bin fs ctx kernel_bin_dir) kernel_plan ws ctx;
          if \<not> all_assigned kernel_plan ws then init_fail ws ctx d
          else do {
            (ws, ctx) \<leftarrow> assign_fields gpuMalloc args_plan ws ctx;
            if \<not> all_assigned args_plan ws then init_fail ws ctx d
            else do {
              (ok, ctx, d) \<leftarrow> init_sincos dumping fp ws ctx d;
              if \<not> ok then init_fail ws ctx d
              else do { ctx \<leftarrow> init_zero ws ctx; Some (Some ws, ctx, d) } } } } })"

end
