(* ===== verification/Transformer_Step.thy ===== *)
theory Transformer_Step
  imports Transformer
begin

text \<open>
  The second half of \<open>lib/src/transformer.c\<close>: the kernel launches, one decoder layer, one token, and
  the dump of intermediate results, which a build may leave out.

  The state that a step changes is the context, the key/value cache and what has been dumped.  A
  device is the dispatch call it offers, together with the floating point unit of the host and the
  choice of the build.
\<close>

record run_state =
  rctx :: gpgpu_ctx
  rkv :: kv_cache
  rdump :: dump_state

record machine =
  mfpu :: fpu
  mioctl :: dispatch_call
  DUMP_INTERMEDIATES :: bool

type_synonym action = "run_state \<Rightarrow> (int \<times> run_state) option"

text \<open>Statements of the form \<open>rc = f(...); if (rc) return rc;\<close> one after the other.\<close>

fun run_ops :: "action list \<Rightarrow> action" where
  "run_ops [] s = Some (TRANSFORMER_OK, s)"
| "run_ops (f # fs) s = do {
     (rc, s) \<leftarrow> f s;
     if rc \<noteq> 0 then Some (rc, s) else run_ops fs s }"

definition on_ctx :: "(gpgpu_ctx \<Rightarrow> (int \<times> gpgpu_ctx) option) \<Rightarrow> action" where
  "on_ctx f s = do { (rc, ctx) \<leftarrow> f (rctx s); Some (rc, s\<lparr>rctx := ctx\<rparr>) }"

subsection \<open>Launching\<close>

definition launch_op ::
  "machine \<Rightarrow> gpgpu_ctx \<Rightarrow> u64 \<Rightarrow> u64 \<Rightarrow> u32 list \<Rightarrow> dim3 \<Rightarrow> dim3 \<Rightarrow> (int \<times> gpgpu_ctx) option" where
  "launch_op E ctx kbin args_off args grid block = do {
     (rc, _, ctx) \<leftarrow> gpuMemcpy ctx args_off (float_bytes args) (word_of_nat (4 * length args)) GPU_MEMCPY_H2D;
     if rc < 0 then Some (TRANSFORMER_ERR_IO, ctx)
     else let (rc, ctx) = gpuLaunchKernel (mioctl E) ctx kbin args_off grid block 0 in
       if rc < 0 then Some (TRANSFORMER_ERR_LAUNCH, ctx) else Some (TRANSFORMER_OK, ctx) }"

text \<open>A host buffer of floats that was filled with bytes.\<close>

fun words_of :: "u8 list \<Rightarrow> u32 list" where
  "words_of (a # b # c # d # bs) = of_bytes [a, b, c, d] # words_of bs"
| "words_of _ = []"

definition kv_append_from_device :: "transformer_workspace \<Rightarrow> u32 \<Rightarrow> u32 \<Rightarrow> u64 \<Rightarrow> u64 \<Rightarrow> action" where
  "kv_append_from_device ws layer pos K_off V_off st = do {
     p \<leftarrow> kv_cache_cur_pos (rkv st);
     guard (pos = p);
     let nbytes = (ucast (kv_dim (ws_cfg ws)) * 4 :: u64);
     let (ok1, s) = malloc (sh (rctx st));
     let (ok2, s) = malloc s;
     let ctx = (rctx st)\<lparr>sh := s\<rparr>;
     if \<not> ok1 \<or> \<not> ok2 then Some (TRANSFORMER_ERR_ALLOC, st\<lparr>rctx := ctx\<rparr>)
     else do {
       (rc, K_host, ctx) \<leftarrow> gpuMemcpy ctx K_off (replicate (unat nbytes) 0) nbytes GPU_MEMCPY_D2H;
       if rc < 0 then Some (TRANSFORMER_ERR_IO, st\<lparr>rctx := ctx\<rparr>)
       else do {
         (rc, V_host, ctx) \<leftarrow> gpuMemcpy ctx V_off (replicate (unat nbytes) 0) nbytes GPU_MEMCPY_D2H;
         if rc < 0 then Some (TRANSFORMER_ERR_IO, st\<lparr>rctx := ctx\<rparr>)
         else do {
           (rc, kv, ctx) \<leftarrow> kv_cache_append_layer ctx (rkv st) layer (words_of K_host) (words_of V_host);
           let st = st\<lparr>rctx := ctx, rkv := kv\<rparr>;
           if rc \<noteq> 0 then Some (TRANSFORMER_ERR_CACHE, st) else Some (TRANSFORMER_OK, st) } } } }"

subsection \<open>The kernels\<close>

definition ONE_WARP :: "dim3 \<times> dim3" where
  "ONE_WARP = ((1, 1, 1), (32, 1, 1))"

definition op_rmsnorm :: "machine \<Rightarrow> transformer_workspace \<Rightarrow> u64 \<Rightarrow> u64 \<Rightarrow> u64 \<Rightarrow> gpgpu_ctx \<Rightarrow> (int \<times> gpgpu_ctx) option" where
  "op_rmsnorm E ws in_off out_off weight_off ctx =
     (let cfg = ws_cfg ws; fp = mfpu E;
          args = rmsnorm_args (ucast in_off) (ucast out_off) (ucast weight_off) (cfg_D cfg)
            (f_div fp F_ONE (f_of_int fp (uint (cfg_D cfg)))) (cfg_rms_norm_eps cfg);
          (grid, block) = ONE_WARP
      in launch_op E ctx (ws_off ws kbin_rmsnorm) (ws_off ws args_rmsnorm) args grid block)"

definition op_gemm ::
  "machine \<Rightarrow> transformer_workspace \<Rightarrow> u64 \<Rightarrow> u64 \<Rightarrow> u64 \<Rightarrow> u32 \<Rightarrow> u32 \<Rightarrow> u32 \<Rightarrow> gpgpu_ctx \<Rightarrow> (int \<times> gpgpu_ctx) option" where
  "op_gemm E ws a_off b_off c_off M K N ctx =
     (let args = gemm_args (ucast a_off) (ucast b_off) (ucast c_off) M K N;
          (grid, block) = calc_dispatch_1warp_per_block (M * N)
      in launch_op E ctx (ws_off ws kbin_gemm) (ws_off ws args_gemm) args grid block)"

definition op_broadcast_add ::
  "machine \<Rightarrow> transformer_workspace \<Rightarrow> u64 \<Rightarrow> u64 \<Rightarrow> u64 \<Rightarrow> u32 \<Rightarrow> u32 \<Rightarrow> gpgpu_ctx \<Rightarrow> (int \<times> gpgpu_ctx) option" where
  "op_broadcast_add E ws x_off b_off y_off M N ctx =
     (let args = broadcast_add_args (ucast x_off) (ucast y_off) (ucast b_off) M N;
          (grid, block) = calc_dispatch_1warp_per_block (M * N)
      in launch_op E ctx (ws_off ws kbin_broadcast_add) (ws_off ws args_broadcast_add) args grid block)"

definition op_silu :: "machine \<Rightarrow> transformer_workspace \<Rightarrow> u64 \<Rightarrow> u64 \<Rightarrow> u32 \<Rightarrow> gpgpu_ctx \<Rightarrow> (int \<times> gpgpu_ctx) option" where
  "op_silu E ws in_off out_off D ctx =
     (let args = silu_args (ucast in_off) (ucast out_off) D;
          (grid, block) = calc_dispatch_1warp_per_block D
      in launch_op E ctx (ws_off ws kbin_silu) (ws_off ws args_silu) args grid block)"

definition op_vmul :: "machine \<Rightarrow> transformer_workspace \<Rightarrow> u64 \<Rightarrow> u64 \<Rightarrow> u64 \<Rightarrow> u32 \<Rightarrow> gpgpu_ctx \<Rightarrow> (int \<times> gpgpu_ctx) option" where
  "op_vmul E ws a_off b_off c_off num ctx = do {
     guard (num mod 32 = 0);
     let args = vmul_args (ucast a_off) (ucast b_off) (ucast c_off) num;
     let (grid, block) = ONE_WARP;
     launch_op E ctx (ws_off ws kbin_vmul) (ws_off ws args_vmul) args grid block }"

definition op_rope :: "machine \<Rightarrow> transformer_workspace \<Rightarrow> u64 \<Rightarrow> u32 \<Rightarrow> u32 \<Rightarrow> gpgpu_ctx \<Rightarrow> (int \<times> gpgpu_ctx) option" where
  "op_rope E ws x_off num_heads token_pos ctx =
     (let args = rope_args (ucast x_off) (ucast (ws_off ws sincos_off)) num_heads (cfg_head_dim (ws_cfg ws)) token_pos;
          (grid, block) = ONE_WARP
      in launch_op E ctx (ws_off ws kbin_rope) (ws_off ws args_rope) args grid block)"

definition op_embedding :: "machine \<Rightarrow> transformer_workspace \<Rightarrow> u64 \<Rightarrow> u64 \<Rightarrow> gpgpu_ctx \<Rightarrow> (int \<times> gpgpu_ctx) option" where
  "op_embedding E ws table_off out_off ctx =
     (let args = embedding_args (ucast table_off) (ucast (ws_off ws token_id_buf_off)) (ucast out_off)
            (cfg_D (ws_cfg ws)) (cfg_D (ws_cfg ws) div 32);
          (grid, block) = ONE_WARP
      in launch_op E ctx (ws_off ws kbin_embedding) (ws_off ws args_embedding) args grid block)"

definition op_argmax :: "machine \<Rightarrow> transformer_workspace \<Rightarrow> gpgpu_ctx \<Rightarrow> (int \<times> gpgpu_ctx) option" where
  "op_argmax E ws ctx =
     (let args = argmax_args (ucast (ws_off ws LOGITS)) (cfg_vocab_size (ws_cfg ws))
            (ucast (ws_off ws token_id_buf_off)) (ucast (ws_off ws argmax_debug_off));
          (grid, block) = ONE_WARP
      in launch_op E ctx (ws_off ws kbin_argmax) (ws_off ws args_argmax) args grid block)"

definition op_qkt_decode ::
  "machine \<Rightarrow> transformer_workspace \<Rightarrow> u64 \<Rightarrow> u64 \<Rightarrow> u64 \<Rightarrow> u32 \<Rightarrow> u32 \<Rightarrow> gpgpu_ctx \<Rightarrow> (int \<times> gpgpu_ctx) option" where
  "op_qkt_decode E ws Q_off K_cache_off scores_off pos scale ctx = (let cfg = ws_cfg ws in do {
     guard (cfg_num_kv_heads cfg \<noteq> 0);
     let args = qkt_decode_args (ucast Q_off) (ucast K_cache_off) (ucast scores_off) pos (cfg_max_seq cfg)
            (cfg_head_dim cfg) (cfg_num_q_heads cfg div cfg_num_kv_heads cfg) scale;
     launch_op E ctx (ws_off ws kbin_qkt_decode) (ws_off ws args_qkt_decode) args (cfg_num_q_heads cfg, 1, 1) (32, 1, 1) })"

definition op_softmax_decode ::
  "machine \<Rightarrow> transformer_workspace \<Rightarrow> u64 \<Rightarrow> u32 \<Rightarrow> gpgpu_ctx \<Rightarrow> (int \<times> gpgpu_ctx) option" where
  "op_softmax_decode E ws scores_off pos ctx =
     launch_op E ctx (ws_off ws kbin_softmax_decode) (ws_off ws args_softmax_decode)
       (softmax_decode_args (ucast scores_off) pos (cfg_max_seq (ws_cfg ws)))
       (cfg_num_q_heads (ws_cfg ws), 1, 1) (32, 1, 1)"

definition op_pv_decode ::
  "machine \<Rightarrow> transformer_workspace \<Rightarrow> u64 \<Rightarrow> u64 \<Rightarrow> u64 \<Rightarrow> u32 \<Rightarrow> gpgpu_ctx \<Rightarrow> (int \<times> gpgpu_ctx) option" where
  "op_pv_decode E ws P_off V_cache_off O_off pos ctx = (let cfg = ws_cfg ws in do {
     guard (cfg_num_kv_heads cfg \<noteq> 0);
     let args = pv_decode_args (ucast P_off) (ucast V_cache_off) (ucast O_off) pos (cfg_max_seq cfg)
            (cfg_head_dim cfg) (cfg_num_q_heads cfg div cfg_num_kv_heads cfg);
     launch_op E ctx (ws_off ws kbin_pv_decode) (ws_off ws args_pv_decode) args (cfg_num_q_heads cfg, 1, 1) (32, 1, 1) })"

subsection \<open>Dumps\<close>

text \<open>\<open>%02d\<close> of a number that is not negative.\<close>

definition dec2 :: "int \<Rightarrow> string" where
  "dec2 n = (if nat n < 10 then ''0'' else []) @ dec (nat n)"

definition dump_dir :: "int \<Rightarrow> string" where
  "dump_dir step = ''dump/step_'' @ dec2 step"

definition dump_path :: "int \<Rightarrow> int \<Rightarrow> string \<Rightarrow> string" where
  "dump_path step layer name =
     (if layer < 0 then dump_dir step @ ''/'' @ name @ ''.bin''
      else dump_dir step @ ''/layer_'' @ dec2 layer @ ''_'' @ name @ ''.bin'')"

text \<open>The directories, made once per step; the result says whether to go on.\<close>

definition dump_mkdir :: "int \<Rightarrow> dump_state \<Rightarrow> bool \<times> dump_state" where
  "dump_mkdir step d =
     (if step \<noteq> last_step_id d then
        if \<not> mkdir_ok d ''dump'' \<or> \<not> mkdir_ok d (dump_dir step) then (False, d)
        else (True, d\<lparr>last_step_id := step\<rparr>)
      else (True, d))"

text \<open>Reading a device buffer back into a fresh host buffer, for a file.\<close>

definition dump_read :: "string \<Rightarrow> u64 \<Rightarrow> u64 \<Rightarrow> run_state \<Rightarrow> run_state option" where
  "dump_read p off nbytes st = (let (ok, s) = malloc (sh (rctx st)); ctx = (rctx st)\<lparr>sh := s\<rparr> in
     if \<not> ok then Some (st\<lparr>rctx := ctx\<rparr>)
     else do {
       (rc, host_buf, ctx) \<leftarrow> gpuMemcpy ctx off (map (uninit (rdump st)) [0..<unat nbytes]) nbytes GPU_MEMCPY_D2H;
       if rc < 0 then Some (st\<lparr>rctx := ctx\<rparr>)
       else Some (st\<lparr>rctx := ctx, rdump := put_file p host_buf (rdump st)\<rparr>) })"

definition dump_scratch_impl :: "int \<Rightarrow> int \<Rightarrow> string \<Rightarrow> u64 \<Rightarrow> u64 \<Rightarrow> run_state \<Rightarrow> run_state option" where
  "dump_scratch_impl step layer name off nbytes st =
     (if step < 0 then Some st
      else let (ok, d) = dump_mkdir step (rdump st); st = st\<lparr>rdump := d\<rparr> in
      if \<not> ok then Some st else dump_read (dump_path step layer name) off nbytes st)"

definition DUMP_SCRATCH :: "machine \<Rightarrow> int \<Rightarrow> int \<Rightarrow> string \<Rightarrow> u64 \<Rightarrow> u64 \<Rightarrow> action" where
  "DUMP_SCRATCH E step layer name off nbytes st =
     (if DUMP_INTERMEDIATES E then do { st \<leftarrow> dump_scratch_impl step layer name off nbytes st; Some (TRANSFORMER_OK, st) }
      else Some (TRANSFORMER_OK, st))"

text \<open>
  The two extra files before the last product of layer 12.  Here the result of the copy is not looked
  at: the file gets what the buffer holds.
\<close>

definition dump_unchecked :: "string \<Rightarrow> u64 \<Rightarrow> u64 \<Rightarrow> run_state \<Rightarrow> run_state option" where
  "dump_unchecked p off nbytes st = (let (ok, s) = malloc (sh (rctx st)); ctx = (rctx st)\<lparr>sh := s\<rparr> in
     if \<not> ok then Some (st\<lparr>rctx := ctx\<rparr>)
     else do {
       (_, tmp, ctx) \<leftarrow> gpuMemcpy ctx off (map (uninit (rdump st)) [0..<unat nbytes]) nbytes GPU_MEMCPY_D2H;
       Some (st\<lparr>rctx := ctx, rdump := put_file p tmp (rdump st)\<rparr>) })"

definition dump_before_down :: "machine \<Rightarrow> transformer_workspace \<Rightarrow> u32 \<Rightarrow> int \<Rightarrow> u64 \<Rightarrow> action" where
  "dump_before_down E ws layer sid down_w_off st =
     (let D = cfg_D (ws_cfg ws); I = cfg_intermediate (ws_cfg ws) in
      if DUMP_INTERMEDIATES E \<and> layer = 12 \<and> sid \<ge> 0 then do {
        st \<leftarrow> dump_unchecked (dump_dir sid @ ''/layer_12_ffn_a_just_before_down.bin'') (ws_off ws SCRATCH_FFN_A) (ucast I * 4) st;
        st \<leftarrow> dump_unchecked (dump_dir sid @ ''/layer_12_down_w_d2h.bin'') down_w_off (size4 I D) st;
        Some (TRANSFORMER_OK, st) }
      else Some (TRANSFORMER_OK, st))"

subsection \<open>One layer\<close>

definition with_weight :: "transformer_workspace \<Rightarrow> u32 \<Rightarrow> wl_tensor \<Rightarrow> (u64 \<Rightarrow> action) \<Rightarrow> action" where
  "with_weight ws layer t f st = do { w \<leftarrow> weight_loader_layer (ws_wl ws) (sint layer) t; f w st }"

text \<open>Steps 1 to 7: the norm and the three projections with their biases.\<close>

definition layer_qkv :: "machine \<Rightarrow> transformer_workspace \<Rightarrow> u32 \<Rightarrow> int \<Rightarrow> action list" where
  "layer_qkv E ws layer sid = (let D = cfg_D (ws_cfg ws); kd = kv_dim (ws_cfg ws); o' = ws_off ws; l = sint layer in [
     with_weight ws layer WL_INPUT_NORM (\<lambda>w. on_ctx (op_rmsnorm E ws (o' RESID_A) (o' SCRATCH_X) w)),
     DUMP_SCRATCH E sid l ''input_norm'' (o' SCRATCH_X) (ucast D * 4),
     with_weight ws layer WL_Q_PROJ_W (\<lambda>w. on_ctx (op_gemm E ws (o' SCRATCH_X) w (o' SCRATCH_Q) 1 D D)),
     with_weight ws layer WL_Q_PROJ_B (\<lambda>w. on_ctx (op_broadcast_add E ws (o' SCRATCH_Q) w (o' SCRATCH_Q) 1 D)),
     DUMP_SCRATCH E sid l ''q_proj'' (o' SCRATCH_Q) (ucast D * 4),
     with_weight ws layer WL_K_PROJ_W (\<lambda>w. on_ctx (op_gemm E ws (o' SCRATCH_X) w (o' SCRATCH_K) 1 D kd)),
     with_weight ws layer WL_K_PROJ_B (\<lambda>w. on_ctx (op_broadcast_add E ws (o' SCRATCH_K) w (o' SCRATCH_K) 1 kd)),
     DUMP_SCRATCH E sid l ''k_proj'' (o' SCRATCH_K) (ucast kd * 4),
     with_weight ws layer WL_V_PROJ_W (\<lambda>w. on_ctx (op_gemm E ws (o' SCRATCH_X) w (o' SCRATCH_V) 1 D kd)),
     with_weight ws layer WL_V_PROJ_B (\<lambda>w. on_ctx (op_broadcast_add E ws (o' SCRATCH_V) w (o' SCRATCH_V) 1 kd)),
     DUMP_SCRATCH E sid l ''v_proj'' (o' SCRATCH_V) (ucast kd * 4)])"

text \<open>Steps 8 to 13: rotation, the cache, and the attention of the current position.\<close>

definition attn_scale :: "machine \<Rightarrow> transformer_workspace \<Rightarrow> u32" where
  "attn_scale E ws = f_div (mfpu E) F_ONE (sqrtf (mfpu E) (f_of_int (mfpu E) (uint (cfg_head_dim (ws_cfg ws)))))"

definition layer_attention :: "machine \<Rightarrow> transformer_workspace \<Rightarrow> u32 \<Rightarrow> int \<Rightarrow> u32 \<Rightarrow> action list" where
  "layer_attention E ws layer sid pos = (let cfg = ws_cfg ws; D = cfg_D cfg; kd = kv_dim cfg; o' = ws_off ws; l = sint layer in [
     on_ctx (op_rope E ws (o' SCRATCH_Q) (cfg_num_q_heads cfg) pos),
     DUMP_SCRATCH E sid l ''q_rope'' (o' SCRATCH_Q) (ucast D * 4),
     on_ctx (op_rope E ws (o' SCRATCH_K) (cfg_num_kv_heads cfg) pos),
     DUMP_SCRATCH E sid l ''k_rope'' (o' SCRATCH_K) (ucast kd * 4),
     kv_append_from_device ws layer pos (o' SCRATCH_K) (o' SCRATCH_V),
     (\<lambda>st. do { k \<leftarrow> kv_cache_K_off (rkv st) layer;
        on_ctx (op_qkt_decode E ws (o' SCRATCH_Q) k (o' SCRATCH_SCORES) pos (attn_scale E ws)) st }),
     DUMP_SCRATCH E sid l ''qkt_scores'' (o' SCRATCH_SCORES) (size4 (cfg_num_q_heads cfg) (cfg_max_seq cfg)),
     on_ctx (op_softmax_decode E ws (o' SCRATCH_SCORES) pos),
     DUMP_SCRATCH E sid l ''softmax_out'' (o' SCRATCH_SCORES) (size4 (cfg_num_q_heads cfg) (cfg_max_seq cfg)),
     (\<lambda>st. do { v \<leftarrow> kv_cache_V_off (rkv st) layer;
        on_ctx (op_pv_decode E ws (o' SCRATCH_SCORES) v (o' SCRATCH_X) pos) st }),
     DUMP_SCRATCH E sid l ''attn_out'' (o' SCRATCH_X) (ucast D * 4)])"

text \<open>Steps 14 and 15: the output projection and the first residual.\<close>

definition layer_out :: "machine \<Rightarrow> transformer_workspace \<Rightarrow> u32 \<Rightarrow> int \<Rightarrow> action list" where
  "layer_out E ws layer sid = (let D = cfg_D (ws_cfg ws); o' = ws_off ws; l = sint layer in [
     with_weight ws layer WL_O_PROJ_W (\<lambda>w. on_ctx (op_gemm E ws (o' SCRATCH_X) w (o' SCRATCH_Q) 1 D D)),
     DUMP_SCRATCH E sid l ''o_proj'' (o' SCRATCH_Q) (ucast D * 4),
     on_ctx (op_broadcast_add E ws (o' RESID_A) (o' SCRATCH_Q) (o' RESID_B) 1 D),
     DUMP_SCRATCH E sid l ''after_attn_res'' (o' RESID_B) (ucast D * 4)])"

text \<open>Steps 16 to 22: the feed-forward part and the second residual.\<close>

definition layer_ffn :: "machine \<Rightarrow> transformer_workspace \<Rightarrow> u32 \<Rightarrow> int \<Rightarrow> action list" where
  "layer_ffn E ws layer sid = (let D = cfg_D (ws_cfg ws); I = cfg_intermediate (ws_cfg ws); o' = ws_off ws; l = sint layer in [
     with_weight ws layer WL_POST_NORM (\<lambda>w. on_ctx (op_rmsnorm E ws (o' RESID_B) (o' SCRATCH_X) w)),
     DUMP_SCRATCH E sid l ''post_norm'' (o' SCRATCH_X) (ucast D * 4),
     with_weight ws layer WL_GATE_PROJ_W (\<lambda>w. on_ctx (op_gemm E ws (o' SCRATCH_X) w (o' SCRATCH_FFN_A) 1 D I)),
     DUMP_SCRATCH E sid l ''gate'' (o' SCRATCH_FFN_A) (ucast I * 4),
     with_weight ws layer WL_UP_PROJ_W (\<lambda>w. on_ctx (op_gemm E ws (o' SCRATCH_X) w (o' SCRATCH_FFN_B) 1 D I)),
     DUMP_SCRATCH E sid l ''up'' (o' SCRATCH_FFN_B) (ucast I * 4),
     on_ctx (op_silu E ws (o' SCRATCH_FFN_A) (o' SCRATCH_FFN_A) I),
     DUMP_SCRATCH E sid l ''silu_gate'' (o' SCRATCH_FFN_A) (ucast I * 4),
     on_ctx (op_vmul E ws (o' SCRATCH_FFN_A) (o' SCRATCH_FFN_B) (o' SCRATCH_FFN_A) I),
     DUMP_SCRATCH E sid l ''silu_mul'' (o' SCRATCH_FFN_A) (ucast I * 4),
     with_weight ws layer WL_DOWN_PROJ_W (\<lambda>w. dump_before_down E ws layer sid w),
     with_weight ws layer WL_DOWN_PROJ_W (\<lambda>w. on_ctx (op_gemm E ws (o' SCRATCH_FFN_A) w (o' SCRATCH_X) 1 I D)),
     DUMP_SCRATCH E sid l ''down'' (o' SCRATCH_X) (ucast D * 4),
     on_ctx (op_broadcast_add E ws (o' RESID_B) (o' SCRATCH_X) (o' RESID_A) 1 D),
     DUMP_SCRATCH E sid l ''after_ffn_res'' (o' RESID_A) (ucast D * 4)])"

definition transformer_decoder_layer :: "machine \<Rightarrow> transformer_workspace \<Rightarrow> u32 \<Rightarrow> step_ctx \<Rightarrow> action" where
  "transformer_decoder_layer E ws layer sctx = (let sid = sctx_dump_step_id sctx; pos = sctx_cur_pos sctx in
     run_ops (layer_qkv E ws layer sid @ layer_attention E ws layer sid pos @ layer_out E ws layer sid @
       layer_ffn E ws layer sid))"

subsection \<open>One token\<close>

definition put_token :: "transformer_workspace \<Rightarrow> u32 \<Rightarrow> action" where
  "put_token ws tok_u32 = on_ctx (\<lambda>ctx. do {
     (rc, _, ctx) \<leftarrow> gpuMemcpy ctx (ws_off ws token_id_buf_off) (bytes_of 4 tok_u32) 4 GPU_MEMCPY_H2D;
     Some (if rc < 0 then TRANSFORMER_ERR_IO else TRANSFORMER_OK, ctx) })"

definition commit_kv :: action where
  "commit_kv st = do {
     (rc, kv) \<leftarrow> kv_cache_commit_token (rkv st);
     Some (if rc < 0 then TRANSFORMER_ERR_CACHE else TRANSFORMER_OK, st\<lparr>rkv := kv\<rparr>) }"

definition step_layers :: "machine \<Rightarrow> transformer_workspace \<Rightarrow> step_ctx \<Rightarrow> action list" where
  "step_layers E ws sctx =
     map (\<lambda>i. transformer_decoder_layer E ws (word_of_nat i) sctx) [0..<unat (cfg_num_layers (ws_cfg ws))]"

definition step_ops :: "machine \<Rightarrow> transformer_workspace \<Rightarrow> u32 \<Rightarrow> step_ctx \<Rightarrow> action list" where
  "step_ops E ws tok_u32 sctx = (let wl = ws_wl ws; D = cfg_D (ws_cfg ws); V = cfg_vocab_size (ws_cfg ws);
       sid = sctx_dump_step_id sctx; o' = ws_off ws in
     [put_token ws tok_u32,
      on_ctx (op_embedding E ws (weight_loader_embedding wl) (o' RESID_A)),
      DUMP_SCRATCH E sid (-1) ''after_embed'' (o' RESID_A) (ucast D * 4)] @
     step_layers E ws sctx @
     [on_ctx (op_rmsnorm E ws (o' RESID_A) (o' SCRATCH_X) (weight_loader_final_norm wl)),
      DUMP_SCRATCH E sid (-1) ''final_norm'' (o' SCRATCH_X) (ucast D * 4),
      on_ctx (op_gemm E ws (o' SCRATCH_X) (weight_loader_lm_head wl) (o' LOGITS) 1 D V),
      DUMP_SCRATCH E sid (-1) ''logits'' (o' LOGITS) (ucast V * 4),
      on_ctx (op_argmax E ws),
      commit_kv])"

definition transformer_step ::
  "machine \<Rightarrow> transformer_workspace \<Rightarrow> int \<Rightarrow> int \<Rightarrow> int \<Rightarrow> run_state \<Rightarrow> (int \<times> run_state) option" where
  "transformer_step E ws input_token_id cur_pos sid st = do {
     (rc, st) \<leftarrow> run_ops (step_ops E ws (word_of_int input_token_id)
        \<lparr>sctx_cur_pos = word_of_int cur_pos, sctx_dump_step_id = sid\<rparr>) st;
     if rc \<noteq> 0 then Some (rc, st)
     else do {
       (rc, next, ctx) \<leftarrow> gpuMemcpy (rctx st) (ws_off ws token_id_buf_off) (bytes_of 4 (0 :: u32)) 4 GPU_MEMCPY_D2H;
       let st = st\<lparr>rctx := ctx\<rparr>;
       if rc < 0 then Some (TRANSFORMER_ERR_IO, st)
       else Some (sint (of_bytes next :: u32), st) } }"

end
