(* ===== verification/Infer.thy ===== *)
theory Infer
  imports Transformer_Step
begin

text \<open>
  The program \<open>lib/test/infer_tokens.c\<close>: it reads the tokens of a prompt from a text file, starts the
  runtime, the weights, the cache and the transformer, runs one step per token, and writes the tokens that
  were generated to a file.  Messages on the terminal are left out.
\<close>

definition INT32_MAX :: int where "INT32_MAX = 2147483647"
definition LONG_MAX :: int where "LONG_MAX = 9223372036854775807"
definition LONG_MIN :: int where "LONG_MIN = - 9223372036854775808"
definition VRAM_SIZE :: u64 where "VRAM_SIZE = 4 * 1024 * 1024 * 1024"

subsection \<open>Numbers in text\<close>

definition is_space :: "char \<Rightarrow> bool" where
  "is_space c \<longleftrightarrow> c \<in> set [CHR '' '', CHR 0x09, CHR 0x0A, CHR 0x0B, CHR 0x0C, CHR 0x0D]"

definition is_digit :: "char \<Rightarrow> bool" where
  "is_digit c \<longleftrightarrow> c \<in> set ''0123456789''"

definition digit_value :: "char \<Rightarrow> nat" where
  "digit_value c = of_char c - 48"

fun scan_digits :: "nat \<Rightarrow> string \<Rightarrow> nat \<times> string" where
  "scan_digits acc [] = (acc, [])"
| "scan_digits acc (c # cs) = (if is_digit c then scan_digits (10 * acc + digit_value c) cs else (acc, c # cs))"

text \<open>
  The longest prefix of a text that \<open>strtol\<close> and the conversion \<open>%ld\<close> take for a decimal number: white
  space, a sign, digits.  The rest of the text starts behind it.
\<close>

fun scan_sign :: "string \<Rightarrow> bool \<times> string" where
  "scan_sign [] = (False, [])"
| "scan_sign (c # cs) = (if c = CHR ''-'' then (True, cs) else if c = CHR ''+'' then (False, cs) else (False, c # cs))"

definition scan_number :: "string \<Rightarrow> (int \<times> string) option" where
  "scan_number s = (let (neg, s) = scan_sign (dropWhile is_space s) in
     if s = [] \<or> \<not> is_digit (hd s) then None
     else let (v, s) = scan_digits 0 s in Some (if neg then - int v else int v, s))"

text \<open>A value outside of the range of \<open>long\<close> is stored as the nearest bound, as the GNU C library does.\<close>

definition clamp_long :: "int \<Rightarrow> int" where
  "clamp_long v = max LONG_MIN (min LONG_MAX v)"

lemma scan_digits_rest: "length (snd (scan_digits acc s)) \<le> length s"
  by (induction acc s rule: scan_digits.induct) auto

lemma scan_number_rest:
  assumes "scan_number s = Some (v, rest)" shows "length rest < length s"
proof -
  obtain neg t where t: "scan_sign (dropWhile is_space s) = (neg, t)" by fastforce
  have l: "length t \<le> length s"
    using t length_dropWhile_le [of is_space s] by (cases "dropWhile is_space s") (auto simp: length_dropWhile_le split: if_splits)
  have n: "t \<noteq> []" "is_digit (hd t)" "rest = snd (scan_digits 0 t)"
    using assms t by (auto simp: scan_number_def split: if_splits prod.splits)
  then have "length rest < length t"
    using scan_digits_rest [of "digit_value (hd t)" "tl t"] by (cases t) auto
  then show ?thesis using l by simp
qed

text \<open>\<open>%d\<close>.\<close>

definition dec_int :: "int \<Rightarrow> string" where
  "dec_int z = (if z < 0 then ''-'' @ dec (nat (- z)) else dec (nat z))"

subsection \<open>Text files\<close>

text \<open>
  The text of a file that can be opened, whether reading it ends in an error, which files can be opened for
  writing, and what has been written.
\<close>

record text_files =
  in_text :: "string \<Rightarrow> string option"
  in_error :: "string \<Rightarrow> bool"
  out_ok :: "string \<Rightarrow> bool"
  written :: "(string \<times> string) list"

text \<open>The loop that reads: the array of \<open>cap\<close> entries is doubled when it is full.\<close>

function read_loop :: "string \<Rightarrow> nat \<Rightarrow> int list \<Rightarrow> shared \<Rightarrow> int list option \<times> shared" where
  "read_loop s cap ids m = (case scan_number s of
     None \<Rightarrow> (Some ids, m)
   | Some (v, rest) \<Rightarrow> let value = clamp_long v in
       if value < 0 \<or> value > INT32_MAX then (None, m)
       else if length ids = cap then
         let (ok, m) = malloc m in
         if \<not> ok then (None, m) else read_loop rest (cap * 2) (ids @ [value]) m
       else read_loop rest cap (ids @ [value]) m)"
  by pat_completeness auto
termination
  by (relation "measure (\<lambda>(s, _). length s)") (auto dest: scan_number_rest)

declare read_loop.simps [simp del]

definition read_tokens :: "text_files \<Rightarrow> string \<Rightarrow> shared \<Rightarrow> int list option \<times> shared" where
  "read_tokens io p m = (case in_text io p of
     None \<Rightarrow> (None, m)
   | Some text \<Rightarrow> let (ok, m) = malloc m in
       if \<not> ok then (None, m)
       else let (ids, m) = read_loop text 64 [] m in
         case ids of None \<Rightarrow> (None, m)
         | Some ids \<Rightarrow> if in_error io p \<or> ids = [] then (None, m) else (Some ids, m))"

definition token_text :: "int list \<Rightarrow> string" where
  "token_text toks = concat (map (\<lambda>(i, t). (if i = 0 then [] else '' '') @ dec_int t) (enumerate 0 toks)) @ [CHR 0x0A]"

definition write_generated :: "text_files \<Rightarrow> string \<Rightarrow> int list \<Rightarrow> int \<times> text_files" where
  "write_generated io p toks =
     (if \<not> out_ok io p then (-1, io) else (0, io\<lparr>written := (p, token_text toks) # written io\<rparr>))"

text \<open>Where there is no digit, \<open>strtol\<close> returns 0 and takes nothing of the text.\<close>

definition parse_long_arg :: "string \<Rightarrow> int" where
  "parse_long_arg s = (case scan_number s of
     None \<Rightarrow> if s = [] then 0 else -1
   | Some (v, rest) \<Rightarrow> if v < LONG_MIN \<or> LONG_MAX < v \<or> rest \<noteq> [] then -1 else v)"

subsection \<open>The steps\<close>

text \<open>The prompt; the first component of the result says whether a step failed.\<close>

fun prefill :: "machine \<Rightarrow> transformer_workspace \<Rightarrow> nat \<Rightarrow> int list \<Rightarrow> int \<Rightarrow> run_state \<Rightarrow> (bool \<times> int \<times> run_state) option" where
  "prefill E ws i [] nxt st = Some (False, nxt, st)"
| "prefill E ws i (tok # toks) nxt st = do {
     (nxt, st) \<leftarrow> transformer_step E ws tok (sint (word_of_nat i :: u32)) (-1) st;
     if nxt < 0 then Some (True, nxt, st) else prefill E ws (Suc i) toks nxt st }"

text \<open>The tokens after the first one: \<open>n\<close> rounds are left, \<open>i\<close> tokens have been generated.\<close>

fun decode ::
  "machine \<Rightarrow> transformer_workspace \<Rightarrow> int \<Rightarrow> nat \<Rightarrow> nat \<Rightarrow> nat \<Rightarrow> int \<Rightarrow> int list \<Rightarrow> run_state \<Rightarrow>
   (bool \<times> int list \<times> run_state) option" where
  "decode E ws eos prompt_count i 0 nxt generated st = Some (False, generated, st)"
| "decode E ws eos prompt_count i (Suc n) nxt generated st =
     (if eos \<ge> 0 \<and> nxt = eos then Some (False, generated, st)
      else do {
        let pos = sint (word_of_nat (prompt_count + i - 1) :: u32);
        (nxt, st) \<leftarrow> transformer_step E ws nxt pos (-1) st;
        if nxt < 0 then Some (True, generated, st)
        else decode E ws eos prompt_count (Suc i) n nxt (generated @ [nxt]) st })"

definition generate ::
  "machine \<Rightarrow> transformer_workspace \<Rightarrow> int list \<Rightarrow> u64 \<Rightarrow> int \<Rightarrow> run_state \<Rightarrow> (int list option \<times> run_state) option" where
  "generate E ws prompt max_new eos st = do {
     (failed, nxt, st) \<leftarrow> prefill E ws 0 prompt (-1) st;
     if failed then Some (None, st)
     else do {
       (failed, generated, st) \<leftarrow> decode E ws eos (length prompt) 1 (unat max_new - 1) nxt [nxt] st;
       Some (if failed then None else Some generated, st) } }"

text \<open>The array of results has \<open>max_new\<close> entries; no more tokens are stored.\<close>

lemma decode_length: "decode E ws eos c i n nxt g st = Some (failed, g', st') \<Longrightarrow> length g' \<le> length g + n"
proof (induction n arbitrary: i nxt g st)
  case (Suc n)
  then show ?case by (fastforce simp: Let_def split: if_splits bind_splits prod.splits dest: Suc.IH)
qed simp

lemma generate_length:
  "generate E ws prompt max_new eos st = Some (Some g, st') \<Longrightarrow> max_new \<noteq> 0 \<Longrightarrow> length g \<le> unat max_new"
  by (fastforce simp: generate_def unat_gt_0 Suc_le_eq split: if_splits bind_splits dest: decode_length)

subsection \<open>The program\<close>

definition calloc_ctx :: "shared \<Rightarrow> gpgpu_ctx" where
  "calloc_ctx m = (let c = \<lparr>object_size = 0, marker = 0, slot_list = 0, metas = []\<rparr> in
     \<lparr>fd = 0, vram_mmap = 0, vram_size = 0, sh = m, ctx_slab_32 = c, ctx_slab_64 = c, ctx_slab_128 = c,
      ctx_slab_256 = c, ctx_slab_512 = c, ctx_slab_2048 = c\<rparr>)"

definition prompt_fits :: "transformer_config \<Rightarrow> int list \<Rightarrow> u64 \<Rightarrow> bool" where
  "prompt_fits cfg prompt max_new \<longleftrightarrow>
     \<not> ((word_of_nat (length prompt) :: u64) > ucast (cfg_max_seq cfg) \<or>
        (word_of_nat (length prompt) :: u64) + max_new - 1 > ucast (cfg_max_seq cfg))"

definition in_vocab :: "transformer_config \<Rightarrow> int list \<Rightarrow> bool" where
  "in_vocab cfg prompt \<longleftrightarrow> list_all (\<lambda>t. \<not> (t < 0 \<or> (word_of_int t :: u32) \<ge> cfg_vocab_size cfg)) prompt"

type_synonym outcome = "int \<times> text_files \<times> gpgpu_ctx \<times> host"

text \<open>The ends of the program: what has been started is stopped in the reverse order.\<close>

definition leave :: "int \<Rightarrow> text_files \<Rightarrow> gpgpu_ctx \<Rightarrow> host \<Rightarrow> outcome" where
  "leave rc io ctx h = (let (ctx, h) = gpuDestroy ctx h in (rc, io, ctx, h))"

definition leave_wl :: "int \<Rightarrow> text_files \<Rightarrow> gpgpu_ctx \<Rightarrow> host \<Rightarrow> weight_loader \<Rightarrow> outcome option" where
  "leave_wl rc io ctx h wl = do { ctx \<leftarrow> weight_loader_destroy ctx (Some wl); Some (leave rc io ctx h) }"

definition leave_kv :: "int \<Rightarrow> text_files \<Rightarrow> gpgpu_ctx \<Rightarrow> host \<Rightarrow> weight_loader \<Rightarrow> kv_cache \<Rightarrow> outcome option" where
  "leave_kv rc io ctx h wl kv = do { ctx \<leftarrow> kv_cache_destroy ctx (Some kv); leave_wl rc io ctx h wl }"

definition leave_ws ::
  "int \<Rightarrow> text_files \<Rightarrow> gpgpu_ctx \<Rightarrow> host \<Rightarrow> weight_loader \<Rightarrow> kv_cache \<Rightarrow> transformer_workspace \<Rightarrow> outcome option" where
  "leave_ws rc io ctx h wl kv ws = do { ctx \<leftarrow> transformer_destroy ctx (Some ws); leave_kv rc io ctx h wl kv }"

text \<open>From the allocation of the result array on.\<close>

definition infer_steps ::
  "machine \<Rightarrow> text_files \<Rightarrow> gpgpu_ctx \<Rightarrow> host \<Rightarrow> dump_state \<Rightarrow> weight_loader \<Rightarrow> kv_cache \<Rightarrow> transformer_workspace \<Rightarrow>
   int list \<Rightarrow> u64 \<Rightarrow> int \<Rightarrow> string \<Rightarrow> outcome option" where
  "infer_steps E io ctx h d wl kv ws prompt max_new eos output_path = do {
     let (ok, m) = malloc (sh ctx);
     let ctx = ctx\<lparr>sh := m\<rparr>;
     if \<not> ok then leave_ws 1 io ctx h wl kv ws
     else do {
       (res, st) \<leftarrow> generate E ws prompt max_new eos \<lparr>rctx = ctx, rkv = kv, rdump = d\<rparr>;
       case res of
         None \<Rightarrow> leave_ws 1 io (rctx st) h wl (rkv st) ws
       | Some generated \<Rightarrow> let (rc, io) = write_generated io output_path generated in
           leave_ws (if rc < 0 then 1 else 0) io (rctx st) h wl (rkv st) ws } }"

text \<open>From the start of the transformer on.\<close>

definition infer_init ::
  "machine \<Rightarrow> file_system \<Rightarrow> text_files \<Rightarrow> gpgpu_ctx \<Rightarrow> host \<Rightarrow> dump_state \<Rightarrow> weight_loader \<Rightarrow> kv_cache \<Rightarrow> string \<Rightarrow>
   int list \<Rightarrow> u64 \<Rightarrow> int \<Rightarrow> string \<Rightarrow> outcome option" where
  "infer_init E fs io ctx h d wl kv kernel_bin_dir prompt max_new eos output_path = do {
     (ws, ctx, d) \<leftarrow> transformer_init (DUMP_INTERMEDIATES E) (mfpu E) fs ctx d (Some wl) (Some kv) (Some transformer_default_config)
        kernel_bin_dir;
     case ws of None \<Rightarrow> leave_kv 1 io ctx h wl kv
     | Some ws \<Rightarrow> infer_steps E io ctx h d wl kv ws prompt max_new eos output_path }"

text \<open>From the check of the prompt on: the three parts are started one after the other.\<close>

definition infer_start ::
  "machine \<Rightarrow> file_system \<Rightarrow> text_files \<Rightarrow> gpgpu_ctx \<Rightarrow> host \<Rightarrow> dump_state \<Rightarrow> string \<Rightarrow> string \<Rightarrow>
   int list \<Rightarrow> u64 \<Rightarrow> int \<Rightarrow> string \<Rightarrow> outcome option" where
  "infer_start E fs io ctx h d weights_dir kernel_bin_dir prompt max_new eos output_path = (let cfg = transformer_default_config in
     if \<not> prompt_fits cfg prompt max_new \<or> \<not> in_vocab cfg prompt then Some (leave 1 io ctx h)
     else do {
       (wl, ctx) \<leftarrow> weight_loader_load fs ctx (Some weights_dir);
       case wl of None \<Rightarrow> Some (leave 1 io ctx h)
       | Some wl \<Rightarrow> do {
           (kv, ctx) \<leftarrow> kv_cache_create ctx (cfg_num_layers cfg) (cfg_num_kv_heads cfg) (cfg_max_seq cfg) (cfg_head_dim cfg);
           case kv of None \<Rightarrow> leave_wl 1 io ctx h wl
           | Some kv \<Rightarrow> infer_init E fs io ctx h d wl kv kernel_bin_dir prompt max_new eos output_path } })"

type_synonym main_outcome = "int \<times> text_files \<times> gpgpu_ctx option \<times> host"

text \<open>From the opening of the device on.\<close>

definition infer_device ::
  "machine \<Rightarrow> file_system \<Rightarrow> text_files \<Rightarrow> shared \<Rightarrow> host \<Rightarrow> dump_state \<Rightarrow> string list \<Rightarrow> int list \<Rightarrow> int \<Rightarrow> int \<Rightarrow> main_outcome option" where
  "infer_device E fs io m h d argv prompt max_new_long eos = do {
     (ret, ctx, h) \<leftarrow> gpuInit (calloc_ctx m) h VRAM_SIZE;
     if ret < 0 then Some (1, io, Some ctx, h)
     else do {
       (rc, io, ctx, h) \<leftarrow> infer_start E fs io ctx h d (argv ! 1) (argv ! 2) prompt (word_of_int max_new_long) eos (argv ! 5);
       Some (rc, io, Some ctx, h) } }"

definition infer_main ::
  "machine \<Rightarrow> file_system \<Rightarrow> text_files \<Rightarrow> shared \<Rightarrow> host \<Rightarrow> dump_state \<Rightarrow> string list \<Rightarrow> main_outcome option" where
  "infer_main E fs io m h d argv =
     (if length argv \<noteq> 6 \<and> length argv \<noteq> 7 then Some (2, io, None, h)
      else let max_new_long = parse_long_arg (argv ! 4);
               eos_long = (if length argv = 7 then parse_long_arg (argv ! 6) else -1) in
      if max_new_long \<le> 0 then Some (2, io, None, h)
      else if length argv = 7 \<and> (eos_long < 0 \<or> eos_long > INT32_MAX) then Some (2, io, None, h)
      else let (prompt, m) = read_tokens io (argv ! 3) m in
      case prompt of None \<Rightarrow> Some (1, io, None, h)
      | Some prompt \<Rightarrow> let (ok, m) = malloc m in
          if \<not> ok then Some (1, io, None, h)
          else infer_device E fs io m h d argv prompt max_new_long eos_long)"

end
