(* ===== verification/Kv_Ops.thy ===== *)
theory Kv_Ops
  imports Kv_Cache
begin

text \<open>
  The cache as a table: which row of a device buffer belongs to a layer, a head and a position,
  that the rows do not overlap, and what appending a layer does to them.
\<close>

definition kv_bytes :: "kv_cache \<Rightarrow> nat" where
  "kv_bytes c = unat (num_layers c) * unat (num_kv_heads c) * unat (max_seq c) * unat (head_dim c) * 4"

definition row_bytes :: "kv_cache \<Rightarrow> nat" where
  "row_bytes c = unat (head_dim c) * 4"

definition kv_index :: "kv_cache \<Rightarrow> nat \<Rightarrow> nat \<Rightarrow> nat \<Rightarrow> nat" where
  "kv_index c L h p = (L * unat (num_kv_heads c) + h) * unat (max_seq c) + p"

definition valid_row :: "kv_cache \<Rightarrow> nat \<Rightarrow> nat \<Rightarrow> nat \<Rightarrow> bool" where
  "valid_row c L h p \<longleftrightarrow> L < unat (num_layers c) \<and> h < unat (num_kv_heads c) \<and> p < unat (max_seq c)"

definition kv_get :: "gpgpu_ctx \<Rightarrow> kv_cache \<Rightarrow> region \<Rightarrow> nat \<Rightarrow> nat \<Rightarrow> nat \<Rightarrow> u8 list" where
  "kv_get ctx c r L h p = take (row_bytes c) (drop (kv_index c L h p * row_bytes c) (rdata ctx r))"

definition kv_ok :: "region set \<Rightarrow> kv_cache \<Rightarrow> region \<Rightarrow> region \<Rightarrow> bool" where
  "kv_ok R c rK rV \<longleftrightarrow> rK \<in> R \<and> rV \<in> R \<and> rK \<noteq> rV \<and>
     K_dev_off c = word_of_nat (fst rK) \<and> V_dev_off c = word_of_nat (fst rV) \<and>
     kv_bytes c \<le> snd rK \<and> kv_bytes c \<le> snd rV \<and> filled c \<le> max_seq c \<and> pending c \<le> num_layers c"

lemma kv_okD:
  assumes "kv_ok R c rK rV"
  shows "rK \<in> R" "rV \<in> R" "rK \<noteq> rV" "K_dev_off c = word_of_nat (fst rK)"
    "V_dev_off c = word_of_nat (fst rV)" "kv_bytes c \<le> snd rK" "kv_bytes c \<le> snd rV"
    "filled c \<le> max_seq c" "pending c \<le> num_layers c"
  using assms by (auto simp: kv_ok_def)

subsection \<open>Rows\<close>

lemma mixed_radix: "(a :: nat) < A \<Longrightarrow> b < B \<Longrightarrow> a * B + b < A * B"
proof -
  assume "a < A" "b < B"
  then have "(a + 1) * B \<le> A * B" by (intro mult_le_mono1) simp
  then show ?thesis using \<open>b < B\<close> by simp
qed

lemma mixed_radix_inj:
  assumes "(a :: nat) * B + b = a' * B + b'" "b < B" "b' < B"
  shows "a = a' \<and> b = b'"
proof -
  have "(a * B + b) div B = a" "(a' * B + b') div B = a'" using assms(2,3) by simp_all
  then have "a = a'" using assms(1) by simp
  then show ?thesis using assms(1) by simp
qed

lemma kv_index_inj:
  assumes "valid_row c L h p" "valid_row c L' h' p'" "kv_index c L h p = kv_index c L' h' p'"
  shows "L = L' \<and> h = h' \<and> p = p'"
proof -
  have v: "p < unat (max_seq c)" "p' < unat (max_seq c)" "h < unat (num_kv_heads c)" "h' < unat (num_kv_heads c)"
    using assms(1,2) by (auto simp: valid_row_def)
  have "L * unat (num_kv_heads c) + h = L' * unat (num_kv_heads c) + h' \<and> p = p'"
    using mixed_radix_inj [OF assms(3) [unfolded kv_index_def] v(1,2)] .
  then show ?thesis using mixed_radix_inj [OF _ v(3,4)] by blast
qed

lemma kv_row_bound:
  assumes "valid_row c L h p"
  shows "kv_index c L h p * row_bytes c + row_bytes c \<le> kv_bytes c"
proof -
  have "L * unat (num_kv_heads c) + h < unat (num_layers c) * unat (num_kv_heads c)"
    using assms by (intro mixed_radix) (auto simp: valid_row_def)
  then have "kv_index c L h p < unat (num_layers c) * unat (num_kv_heads c) * unat (max_seq c)"
    unfolding kv_index_def using assms by (intro mixed_radix) (auto simp: valid_row_def)
  then have "(kv_index c L h p + 1) * row_bytes c \<le>
      (unat (num_layers c) * unat (num_kv_heads c) * unat (max_seq c)) * row_bytes c"
    by (intro mult_le_mono1) simp
  then show ?thesis by (simp add: kv_bytes_def row_bytes_def algebra_simps)
qed

lemma splice_other:
  assumes "o' + k \<le> d \<or> d + length bs \<le> o'" "d + length bs \<le> length xs"
  shows "take k (drop o' (take d xs @ bs @ drop (d + length bs) xs)) = take k (drop o' xs)"
  using assms(1)
proof
  assume l: "o' + k \<le> d"
  then have "take k (drop o' (take d xs)) = take k (drop o' xs)"
    by (simp add: drop_take min_def)
  moreover have "k \<le> length (drop o' (take d xs))" using l assms(2) by simp
  ultimately show ?thesis by simp
next
  assume l: "d + length bs \<le> o'"
  then have "drop o' (take d xs @ bs @ drop (d + length bs) xs) = drop o' xs"
    using assms(2) by simp
  then show ?thesis by simp
qed

lemma splice_same:
  "d + length bs \<le> length xs \<Longrightarrow>
   take (length bs) (drop d (take d xs @ bs @ drop (d + length bs) xs)) = bs"
  by simp

lemma rows_apart:
  assumes "valid_row c L h p" "valid_row c L' h' p'" "(L, h, p) \<noteq> (L', h', p')"
  shows "kv_index c L h p * row_bytes c + row_bytes c \<le> kv_index c L' h' p' * row_bytes c \<or>
    kv_index c L' h' p' * row_bytes c + row_bytes c \<le> kv_index c L h p * row_bytes c"
proof -
  have "kv_index c L h p \<noteq> kv_index c L' h' p'" using kv_index_inj [OF assms(1,2)] assms(3) by auto
  then have "kv_index c L h p + 1 \<le> kv_index c L' h' p' \<or> kv_index c L' h' p' + 1 \<le> kv_index c L h p"
    by linarith
  then have "(kv_index c L h p + 1) * row_bytes c \<le> kv_index c L' h' p' * row_bytes c \<or>
      (kv_index c L' h' p' + 1) * row_bytes c \<le> kv_index c L h p * row_bytes c"
    using mult_le_mono1 by blast
  then show ?thesis by (simp add: algebra_simps)
qed

lemma row_size: "unat (ucast (head_dim c) * 4 :: u64) = row_bytes c"
proof -
  have "unat (head_dim c) < 2 ^ 32" using unsigned_less [of "head_dim c", where 'a = nat] by simp
  then have "unat (word_of_nat (unat (head_dim c) * 4) :: u64) = unat (head_dim c) * 4"
    by (intro unat_of_nat64) simp
  then show ?thesis by (simp add: row_bytes_def)
qed

subsection \<open>Appending a layer\<close>

lemma length_float_bytes [simp]: "length (float_bytes fs) = 4 * length fs"
  by (induction fs) (simp_all add: float_bytes_def)

lemma take_float_bytes: "take (n * 4) (float_bytes fs) = float_bytes (take n fs)"
proof (induction fs arbitrary: n)
  case Nil
  then show ?case by (simp add: float_bytes_def)
next
  case (Cons f fs)
  show ?case
  proof (cases n)
    case (Suc k)
    then show ?thesis using Cons.IH [of k] by (simp add: float_bytes_def)
  qed (simp add: float_bytes_def)
qed

definition head_row :: "kv_cache \<Rightarrow> u32 list \<Rightarrow> nat \<Rightarrow> u8 list" where
  "head_row c fs h = float_bytes (take (unat (head_dim c)) (drop (h * unat (head_dim c)) fs))"

lemma head_offset:
  assumes "kh < unat (num_kv_heads c)" "unat (num_kv_heads c) * unat (head_dim c) < 2 ^ 32"
  shows "unat (word_of_nat kh * head_dim c) = kh * unat (head_dim c)"
    "ucast (word_of_nat kh :: u32) = (word_of_nat kh :: u64)"
proof -
  have n: "unat (num_kv_heads c) < 2 ^ 32" using unsigned_less [of "num_kv_heads c", where 'a = nat] by simp
  then have k: "unat (word_of_nat kh :: u32) = kh" using assms(1) by (simp add: unat_of_nat)
  have "kh * unat (head_dim c) \<le> unat (num_kv_heads c) * unat (head_dim c)"
    using assms(1) by (intro mult_le_mono1) simp
  then have "kh * unat (head_dim c) < 2 ^ 32" using assms(2) by linarith
  then show "unat (word_of_nat kh * head_dim c) = kh * unat (head_dim c)"
    by (simp add: unat_word_ariths k)
  have "ucast (word_of_nat kh :: u32) = (word_of_nat (unat (word_of_nat kh :: u32)) :: u64)" by simp
  then show "ucast (word_of_nat kh :: u32) = (word_of_nat kh :: u64)" unfolding k .
qed

lemma append_address:
  assumes "ucast (word_of_nat kh :: u32) = (word_of_nat kh :: u64)"
  shows "word_of_nat a + ucast layer * ucast (num_kv_heads c) * ucast (max_seq c) * ucast (head_dim c) * 4 +
      ucast (word_of_nat kh :: u32) * (ucast (max_seq c) * ucast (head_dim c) * 4) +
      ucast (filled c) * ucast (head_dim c) * 4 =
    (word_of_nat (a + kv_index c (unat layer) kh (unat (filled c)) * row_bytes c) :: u64)"
  by (simp add: assms kv_index_def row_bytes_def algebra_simps)

text \<open>
  The rows in any memory that can be copied to and from.
\<close>

locale kv_memory = vram_data inv rdata gpuMemcpy
  for inv :: "gpgpu_ctx \<Rightarrow> region set \<Rightarrow> bool"
begin

text \<open>One row written.\<close>

lemma write_row:
  assumes h: "inv ctx R" and r: "r \<in> R" and b: "kv_bytes c \<le> snd r"
    and v: "valid_row c L0 h0 p0" and len: "row_bytes c \<le> length src"
    and dst: "dst = word_of_nat (fst r + kv_index c L0 h0 p0 * row_bytes c)"
  obtains ctx' where "gpuMemcpy ctx dst src (ucast (head_dim c) * 4) 0 = Some (0, src, ctx')"
    "inv ctx' R" "\<forall>q\<in>R - {r}. rdata ctx' q = rdata ctx q"
    "\<And>L h p. valid_row c L h p \<Longrightarrow> kv_get ctx' c r L h p =
       (if (L, h, p) = (L0, h0, p0) then take (row_bytes c) src else kv_get ctx c r L h p)"
proof -
  obtain a l where al: "r = (a, l)" by (cases r)
  let ?d = "kv_index c L0 h0 p0 * row_bytes c" and ?bs = "take (row_bytes c) src"
  have d: "?d + unat (ucast (head_dim c) * 4 :: u64) \<le> l"
    using kv_row_bound [OF v] b al by (simp add: row_size)
  have ln: "unat (ucast (head_dim c) * 4 :: u64) \<le> length src" using len by (simp add: row_size)
  obtain ctx' where m: "gpuMemcpy ctx (word_of_nat (a + ?d)) src (ucast (head_dim c) * 4) GPU_MEMCPY_H2D = Some (0, src, ctx')"
    and h': "inv ctx' R" and o: "\<forall>q\<in>R - {(a, l)}. rdata ctx' q = rdata ctx q"
    and dt: "rdata ctx' (a, l) = take ?d (rdata ctx (a, l)) @ ?bs @ drop (?d + row_bytes c) (rdata ctx (a, l))"
    using copy_in [OF h r [unfolded al] d ln] unfolding row_size by blast
  have lb: "length ?bs = row_bytes c" using len by simp
  have le: "?d + length ?bs \<le> length (rdata ctx (a, l))" using d by (simp add: row_size lb)
  have "kv_get ctx' c r L h p = (if (L, h, p) = (L0, h0, p0) then ?bs else kv_get ctx c r L h p)"
    if "valid_row c L h p" for L h p
  proof (cases "(L, h, p) = (L0, h0, p0)")
    case True
    then have "kv_get ctx' c r L h p = take (row_bytes c)
        (drop ?d (take ?d (rdata ctx (a, l)) @ ?bs @ drop (?d + row_bytes c) (rdata ctx (a, l))))"
      by (simp only: kv_get_def al dt prod.inject)
    also have "\<dots> = ?bs" using splice_same [OF le] unfolding lb .
    finally show ?thesis using True by simp
  next
    case False
    have "kv_get ctx' c r L h p = kv_get ctx c r L h p"
      unfolding kv_get_def al dt
      by (rule splice_other [of _ _ ?d ?bs, unfolded lb]) (use rows_apart [OF that v False] le lb in simp_all)
    then show ?thesis using False by auto
  qed
  then show thesis using m h' o dst al by (intro that [of ctx']) (auto simp: GPU_MEMCPY_H2D_def)
qed

lemma head_product_bound:
  assumes "inv ctx R" "kv_ok R c rK rV" "0 < unat (num_layers c)" "0 < unat (max_seq c)"
  shows "unat (num_kv_heads c) * unat (head_dim c) < 2 ^ 32"
proof -
  have "unat (num_kv_heads c) * unat (head_dim c) * 4 * 1 \<le>
      unat (num_kv_heads c) * unat (head_dim c) * 4 * (unat (num_layers c) * unat (max_seq c))"
    using assms(3,4) by (intro mult_le_mono2) simp
  also have "\<dots> = kv_bytes c" by (simp add: kv_bytes_def algebra_simps)
  also have "\<dots> \<le> 2 ^ 32"
    using addr_limit [OF assms(1), of "fst rK" "snd rK"] kv_okD(1,6) [OF assms(2)] by simp
  finally show ?thesis by (simp add: mult.commute)
qed

lemma append_heads_rows:
  assumes ok: "kv_ok R c rK rV" and lay: "layer < num_layers c" and fil: "filled c < max_seq c"
    and lenK: "unat (num_kv_heads c) * unat (head_dim c) \<le> length K"
    and lenV: "unat (num_kv_heads c) * unat (head_dim c) \<le> length V"
    and Kb: "Kb = word_of_nat (fst rK) + ucast layer * ucast (num_kv_heads c) * ucast (max_seq c) * ucast (head_dim c) * 4"
    and Vb: "Vb = word_of_nat (fst rV) + ucast layer * ucast (num_kv_heads c) * ucast (max_seq c) * ucast (head_dim c) * 4"
    and hs: "hs = ucast (max_seq c) * ucast (head_dim c) * 4" and ro: "ro = ucast (filled c) * ucast (head_dim c) * 4"
  shows "inv ctx R \<Longrightarrow> kh + n = unat (num_kv_heads c) \<Longrightarrow>
    \<exists>ctx'. append_heads n (word_of_nat kh) c Kb Vb hs ro K V ctx = Some (0, ctx') \<and> inv ctx' R \<and>
      (\<forall>q\<in>R - {rK, rV}. rdata ctx' q = rdata ctx q) \<and>
      (\<forall>L h p. valid_row c L h p \<longrightarrow>
        kv_get ctx' c rK L h p = (if L = unat layer \<and> p = unat (filled c) \<and> kh \<le> h then head_row c K h
          else kv_get ctx c rK L h p) \<and>
        kv_get ctx' c rV L h p = (if L = unat layer \<and> p = unat (filled c) \<and> kh \<le> h then head_row c V h
          else kv_get ctx c rV L h p))"
proof (induction n arbitrary: kh ctx)
  case 0
  then show ?case by (auto simp: valid_row_def)
next
  case (Suc n)
  note h0 = Suc.prems(1)
  let ?l = "unat layer" and ?f = "unat (filled c)"
  have kh: "kh < unat (num_kv_heads c)" using Suc.prems(2) by simp
  have lf: "?l < unat (num_layers c)" "?f < unat (max_seq c)" using lay fil by (simp_all add: word_less_nat_alt)
  then have hb: "unat (num_kv_heads c) * unat (head_dim c) < 2 ^ 32"
    using head_product_bound [OF h0 ok] by simp
  note ho = head_offset [OF kh hb]
  have v: "valid_row c ?l kh ?f" using kh lf by (simp add: valid_row_def)
  let ?K = "float_bytes (drop (unat (word_of_nat kh * head_dim c)) K)"
  let ?V = "float_bytes (drop (unat (word_of_nat kh * head_dim c)) V)"
  have "(kh + 1) * unat (head_dim c) \<le> unat (num_kv_heads c) * unat (head_dim c)"
    using kh by (intro mult_le_mono1) simp
  then have len: "row_bytes c \<le> length ?K" "row_bytes c \<le> length ?V"
    using lenK lenV by (simp_all add: ho row_bytes_def)
  have rows: "take (row_bytes c) ?K = head_row c K kh" "take (row_bytes c) ?V = head_row c V kh"
    by (simp_all add: head_row_def row_bytes_def ho take_float_bytes)
  note ad = append_address [OF ho(2), of _ layer c]
  obtain ctx1 where c1: "gpuMemcpy ctx (Kb + ucast (word_of_nat kh :: u32) * hs + ro) ?K (ucast (head_dim c) * 4) 0 = Some (0, ?K, ctx1)"
    and h1: "inv ctx1 R" and o1: "\<forall>q\<in>R - {rK}. rdata ctx1 q = rdata ctx q"
    and g1: "\<And>L h p. valid_row c L h p \<Longrightarrow> kv_get ctx1 c rK L h p =
       (if (L, h, p) = (?l, kh, ?f) then take (row_bytes c) ?K else kv_get ctx c rK L h p)"
    by (rule write_row [OF h0 kv_okD(1,6) [OF ok] v len(1) ad [of "fst rK", folded Kb hs ro]]) (rule that)
  obtain ctx2 where c2: "gpuMemcpy ctx1 (Vb + ucast (word_of_nat kh :: u32) * hs + ro) ?V (ucast (head_dim c) * 4) 0 = Some (0, ?V, ctx2)"
    and h2: "inv ctx2 R" and o2: "\<forall>q\<in>R - {rV}. rdata ctx2 q = rdata ctx1 q"
    and g2: "\<And>L h p. valid_row c L h p \<Longrightarrow> kv_get ctx2 c rV L h p =
       (if (L, h, p) = (?l, kh, ?f) then take (row_bytes c) ?V else kv_get ctx1 c rV L h p)"
    by (rule write_row [OF h1 kv_okD(2,7) [OF ok] v len(2) ad [of "fst rV", folded Vb hs ro]]) (rule that)
  have gK: "kv_get ctx2 c rK L h p = kv_get ctx1 c rK L h p" "kv_get ctx1 c rV L h p = kv_get ctx c rV L h p" for L h p
    using o1 o2 kv_okD(1-3) [OF ok] by (simp_all add: kv_get_def)
  have e: "Suc kh + n = unat (num_kv_heads c)" using Suc.prems(2) by simp
  obtain ctx' where r: "append_heads n (word_of_nat (Suc kh)) c Kb Vb hs ro K V ctx2 = Some (0, ctx')"
    "inv ctx' R" "\<forall>q\<in>R - {rK, rV}. rdata ctx' q = rdata ctx2 q"
    and g: "\<And>L h p. valid_row c L h p \<Longrightarrow>
        kv_get ctx' c rK L h p = (if L = ?l \<and> p = ?f \<and> Suc kh \<le> h then head_row c K h else kv_get ctx2 c rK L h p) \<and>
        kv_get ctx' c rV L h p = (if L = ?l \<and> p = ?f \<and> Suc kh \<le> h then head_row c V h else kv_get ctx2 c rV L h p)"
    using Suc.IH [OF h2 e] by blast
  have "append_heads (Suc n) (word_of_nat kh) c Kb Vb hs ro K V ctx = Some (0, ctx')"
    using c1 c2 r(1) by (simp add: Let_def add.commute)
  moreover have "kv_get ctx' c rK L h p = (if L = ?l \<and> p = ?f \<and> kh \<le> h then head_row c K h else kv_get ctx c rK L h p)"
    "kv_get ctx' c rV L h p = (if L = ?l \<and> p = ?f \<and> kh \<le> h then head_row c V h else kv_get ctx c rV L h p)"
    if "valid_row c L h p" for L h p
    using g [OF that] g1 [OF that] g2 [OF that] gK rows by (auto simp: le_less Suc_le_eq)
  moreover have "\<forall>q\<in>R - {rK, rV}. rdata ctx' q = rdata ctx q" using r(3) o1 o2 by auto
  ultimately show ?case using r(2) by blast
qed

theorem append_layer_rows:
  assumes h: "inv ctx R" and ok: "kv_ok R c rK rV" and fil: "filled c < max_seq c"
    and lay: "pending c < num_layers c"
    and lenK: "unat (num_kv_heads c) * unat (head_dim c) \<le> length K"
    and lenV: "unat (num_kv_heads c) * unat (head_dim c) \<le> length V"
  obtains ctx' where
    "kv_cache_append_layer ctx c (pending c) K V = Some (0, c\<lparr>pending := pending c + 1\<rparr>, ctx')"
    "inv ctx' R" "kv_ok R (c\<lparr>pending := pending c + 1\<rparr>) rK rV"
    "\<forall>q\<in>R - {rK, rV}. rdata ctx' q = rdata ctx q"
    "\<And>L h p. valid_row c L h p \<Longrightarrow>
        kv_get ctx' c rK L h p = (if L = unat (pending c) \<and> p = unat (filled c) then head_row c K h
          else kv_get ctx c rK L h p) \<and>
        kv_get ctx' c rV L h p = (if L = unat (pending c) \<and> p = unat (filled c) then head_row c V h
          else kv_get ctx c rV L h p)"
proof -
  obtain ctx' where a: "append_heads (unat (num_kv_heads c)) (word_of_nat 0) c
      (word_of_nat (fst rK) + ucast (pending c) * ucast (num_kv_heads c) * ucast (max_seq c) * ucast (head_dim c) * 4)
      (word_of_nat (fst rV) + ucast (pending c) * ucast (num_kv_heads c) * ucast (max_seq c) * ucast (head_dim c) * 4)
      (ucast (max_seq c) * ucast (head_dim c) * 4) (ucast (filled c) * ucast (head_dim c) * 4) K V ctx = Some (0, ctx')"
    and r: "inv ctx' R" "\<forall>q\<in>R - {rK, rV}. rdata ctx' q = rdata ctx q"
    and g: "\<And>L h p. valid_row c L h p \<Longrightarrow>
        kv_get ctx' c rK L h p = (if L = unat (pending c) \<and> p = unat (filled c) \<and> 0 \<le> h then head_row c K h
          else kv_get ctx c rK L h p) \<and>
        kv_get ctx' c rV L h p = (if L = unat (pending c) \<and> p = unat (filled c) \<and> 0 \<le> h then head_row c V h
          else kv_get ctx c rV L h p)"
    using append_heads_rows [OF ok lay fil lenK lenV refl refl refl refl h, of 0] by auto
  have "kv_cache_append_layer ctx c (pending c) K V = Some (0, c\<lparr>pending := pending c + 1\<rparr>, ctx')"
    unfolding kv_cache_append_layer_def kv_cache_K_off_def kv_cache_V_off_def
    using a lay fil kv_okD(4,5) [OF ok] by (simp add: not_le [symmetric])
  moreover have "pending c + 1 \<le> num_layers c" using lay by (simp add: inc_le)
  then have "kv_ok R (c\<lparr>pending := pending c + 1\<rparr>) rK rV"
    using ok by (simp add: kv_ok_def kv_bytes_def)
  ultimately show thesis using r g by (intro that [of ctx']) auto
qed

end

interpretation kvh: kv_memory "heap B S N" for B S N
  by unfold_locales

lemma append_layer_refused:
  "max_seq c \<le> filled c \<Longrightarrow> kv_cache_append_layer ctx c layer K V = Some (-1, c, ctx)"
  "filled c < max_seq c \<Longrightarrow> num_layers c \<le> layer \<or> layer \<noteq> pending c \<Longrightarrow>
    kv_cache_append_layer ctx c layer K V = Some (-2, c, ctx)"
  by (auto simp: kv_cache_append_layer_def not_le [symmetric])

subsection \<open>Creation, commit and end\<close>

lemma heap_malloc:
  assumes "heap B S N ctx R"
  shows "heap B S N (ctx\<lparr>sh := snd (malloc (sh ctx))\<rparr>) R" "rdata (ctx\<lparr>sh := snd (malloc (sh ctx))\<rparr>) = rdata ctx"
proof -
  have m: "buddy (snd (malloc (sh ctx))) = buddy (sh ctx)" "vmem (snd (malloc (sh ctx))) = vmem (sh ctx)"
    by (auto simp: malloc_def split: list.splits)
  show "heap B S N (ctx\<lparr>sh := snd (malloc (sh ctx))\<rparr>) R"
    using assms by (simp add: heap_def ginv_def m)
  show "rdata (ctx\<lparr>sh := snd (malloc (sh ctx))\<rparr>) = rdata ctx"
    by (simp add: fun_eq_iff rdata_def m)
qed

lemma kv_total_bytes:
  assumes "unat nl * unat nh * unat ms * unat hdim * 4 < (2 :: nat) ^ 64"
  shows "unat (ucast nl * ucast nh * ucast ms * ucast hdim * 4 :: u64) =
    unat nl * unat nh * unat ms * unat (hdim :: u32) * 4"
proof -
  have "ucast nl * ucast nh * ucast ms * ucast hdim * 4 =
      (word_of_nat (unat nl * unat nh * unat ms * unat hdim * 4) :: u64)" by simp
  then show ?thesis using unat_of_nat64 [OF assms] by simp
qed

theorem kv_create_cases:
  assumes h: "heap B S N ctx R" and sz: "unat nl * unat nh * unat ms * unat hdim * 4 < (2 :: nat) ^ 64"
  obtains (fail) ctx' where "kv_cache_create ctx nl nh ms hdim = Some (None, ctx')" "heap B S N ctx' R"
    "\<forall>r\<in>R. rdata ctx' r = rdata ctx r"
  | (ok) c rK rV ctx' where "kv_cache_create ctx nl nh ms hdim = Some (Some c, ctx')"
    "heap B S N ctx' (insert rK (insert rV R))" "rK \<notin> R" "rV \<notin> R"
    "kv_ok (insert rK (insert rV R)) c rK rV" "filled c = 0" "pending c = 0"
    "num_layers c = nl" "num_kv_heads c = nh" "max_seq c = ms" "head_dim c = hdim"
    "\<forall>r\<in>R. rdata ctx' r = rdata ctx r"
proof -
  let ?n = "ucast nl * ucast nh * ucast ms * ucast hdim * 4 :: u64"
  let ?ctx = "ctx\<lparr>sh := snd (malloc (sh ctx))\<rparr>"
  note h0 = heap_malloc [OF h]
  obtain b s where ms: "malloc (sh ctx) = (b, s)" by fastforce
  show thesis
  proof (cases b)
    case False
    then show thesis
      using h0 by (intro fail [of ?ctx]) (simp_all add: kv_cache_create_def ms)
  next
    case True
    consider (f1) c1 where "gpuMalloc ?ctx ?n = Some (-1, c1)" "heap B S N c1 R" "\<forall>r\<in>R. rdata c1 r = rdata ?ctx r"
      | (k1) a l c1 where "gpuMalloc ?ctx ?n = Some (word_of_nat a, c1)" "heap B S N c1 (insert (a, l) R)" "(a, l) \<notin> R"
        "unat ?n \<le> l" "\<forall>r\<in>R. rdata c1 r = rdata ?ctx r"
      using gpu.alloc_cases [OF h0(1)] by blast
    then show thesis
    proof cases
      case f1
      then show thesis
        using h0(2) True by (intro fail [of c1]) (simp_all add: kv_cache_create_def ms)
    next
      case k1
      have a1: "word_of_nat a \<noteq> (-1 :: u64)" using gpu.addr_valid(1) [OF k1(2)] by blast
      consider (f2) c2 where "gpuMalloc c1 ?n = Some (-1, c2)" "heap B S N c2 (insert (a, l) R)"
          "\<forall>r\<in>insert (a, l) R. rdata c2 r = rdata c1 r"
        | (k2) a' l' c2 where "gpuMalloc c1 ?n = Some (word_of_nat a', c2)"
          "heap B S N c2 (insert (a', l') (insert (a, l) R))" "(a', l') \<notin> insert (a, l) R"
          "unat ?n \<le> l'" "\<forall>r\<in>insert (a, l) R. rdata c2 r = rdata c1 r"
        using gpu.alloc_cases [OF k1(2)] by blast
      then show thesis
      proof cases
        case f2
        obtain c3 where "gpuFree c2 (word_of_nat a) = Some (0, c3)" "heap B S N c3 (insert (a, l) R - {(a, l)})"
          "\<forall>r\<in>insert (a, l) R - {(a, l)}. rdata c3 r = rdata c2 r"
          using gpu.free_ok [OF f2(2), of a l] by blast
        then show thesis
          using h0(2) True k1 f2 a1 by (intro fail [of c3]) (auto simp: kv_cache_create_def ms)
      next
        case k2
        have a2: "word_of_nat a' \<noteq> (-1 :: u64)" using gpu.addr_valid(1) [OF k2(2)] by blast
        let ?c = "\<lparr>num_layers = nl, num_kv_heads = nh, max_seq = ms, head_dim = hdim,
             K_dev_off = word_of_nat a, V_dev_off = word_of_nat a', filled = 0, pending = 0\<rparr>"
        have "kv_cache_create ctx nl nh ms hdim = Some (Some ?c, c2)"
          using True k1(1) k2(1) a1 a2 by (simp add: kv_cache_create_def ms)
        moreover have "kv_ok (insert (a, l) (insert (a', l') R)) ?c (a, l) (a', l')"
          using k1(3,4) k2(3,4) by (auto simp: kv_ok_def kv_bytes_def kv_total_bytes [OF sz])
        ultimately show thesis
          using k1(3,5) k2(2,3,5) h0(2) by (intro ok [of ?c c2 "(a, l)" "(a', l')"]) (auto simp: insert_commute)
      qed
    qed
  qed
qed

theorem kv_destroy_frees:
  assumes h: "heap B S N ctx R" and ok: "kv_ok R c rK rV"
  obtains ctx' where "kv_cache_destroy ctx (Some c) = Some ctx'" "heap B S N ctx' (R - {rK, rV})"
    "\<forall>r\<in>R - {rK, rV}. rdata ctx' r = rdata ctx r"
proof -
  note k = kv_okD [OF ok]
  have "R - {rK, rV} \<union> set [rK, rV] = R" using k(1,2) by auto
  then have "heap B S N ctx (R - {rK, rV} \<union> set [rK, rV])" using h by simp
  then obtain ctx' where f: "free_list_all gpuFree ctx (bases [rK, rV]) = Some ctx'"
    "heap B S N ctx' (R - {rK, rV})" "\<forall>r\<in>R - {rK, rV}. rdata ctx' r = rdata ctx r"
    using gpu.free_list_regions [of B S N ctx "R - {rK, rV}" "[rK, rV]"] k(3) by auto
  have "kv_cache_destroy ctx (Some c) = Some ctx'"
    using f(1) k(4,5) by (simp add: kv_cache_destroy_def split_def)
  then show thesis using f by (intro that)
qed

subsection \<open>A whole token\<close>

text \<open>
  The protocol of \<open>lib/include/kv_cache.h\<close>: one append per layer, in order, then the commit.
\<close>

fun append_layers :: "gpgpu_ctx \<Rightarrow> kv_cache \<Rightarrow> (u32 list \<times> u32 list) list \<Rightarrow> (int \<times> kv_cache \<times> gpgpu_ctx) option" where
  "append_layers ctx c [] = Some (0, c, ctx)"
| "append_layers ctx c ((K, V) # kvs) = do {
     (rc, c, ctx) \<leftarrow> kv_cache_append_layer ctx c (pending c) K V;
     if rc < 0 then Some (rc, c, ctx) else append_layers ctx c kvs }"

definition append_token :: "gpgpu_ctx \<Rightarrow> kv_cache \<Rightarrow> (u32 list \<times> u32 list) list \<Rightarrow> (int \<times> kv_cache \<times> gpgpu_ctx) option" where
  "append_token ctx c kvs = do {
     (rc, c, ctx) \<leftarrow> append_layers ctx c kvs;
     if rc < 0 then Some (rc, c, ctx)
     else do { (rc, c) \<leftarrow> kv_cache_commit_token c; Some (rc, c, ctx) } }"

lemma kv_pending [simp]:
  "kv_get ctx (c\<lparr>pending := n\<rparr>) = kv_get ctx c" "valid_row (c\<lparr>pending := n\<rparr>) = valid_row c"
  "head_row (c\<lparr>pending := n\<rparr>) = head_row c"
  by (simp_all add: fun_eq_iff kv_get_def valid_row_def head_row_def row_bytes_def kv_index_def)

lemma unat_inc: "(p :: u32) < n \<Longrightarrow> unat (p + 1) = unat p + 1"
  using unsigned_less [of n, where 'a = nat] by (simp add: word_less_nat_alt unat_word_ariths)

definition token_len :: "kv_cache \<Rightarrow> u32 list \<times> u32 list \<Rightarrow> bool" where
  "token_len c kv \<longleftrightarrow> unat (num_kv_heads c) * unat (head_dim c) \<le> length (fst kv) \<and>
     unat (num_kv_heads c) * unat (head_dim c) \<le> length (snd kv)"

lemma append_layers_rows:
  "heap B S N ctx R \<Longrightarrow> kv_ok R c rK rV \<Longrightarrow> filled c < max_seq c \<Longrightarrow>
   unat (pending c) + length kvs = unat (num_layers c) \<Longrightarrow> list_all (token_len c) kvs \<Longrightarrow>
   \<exists>ctx'. append_layers ctx c kvs = Some (0, c\<lparr>pending := num_layers c\<rparr>, ctx') \<and> heap B S N ctx' R \<and>
     (\<forall>q\<in>R - {rK, rV}. rdata ctx' q = rdata ctx q) \<and>
     (\<forall>L h p. valid_row c L h p \<longrightarrow>
        kv_get ctx' c rK L h p = (if p = unat (filled c) \<and> unat (pending c) \<le> L
          then head_row c (fst (kvs ! (L - unat (pending c)))) h else kv_get ctx c rK L h p) \<and>
        kv_get ctx' c rV L h p = (if p = unat (filled c) \<and> unat (pending c) \<le> L
          then head_row c (snd (kvs ! (L - unat (pending c)))) h else kv_get ctx c rV L h p))"
proof (induction kvs arbitrary: ctx c)
  case Nil
  then have "pending c = num_layers c" by (simp add: word_unat_eq_iff)
  then show ?case using Nil by (auto simp: valid_row_def)
next
  case (Cons kv kvs)
  obtain K V where kv: "kv = (K, V)" by (cases kv)
  have lay: "pending c < num_layers c" using Cons.prems(4) by (simp add: word_less_nat_alt)
  have len: "unat (num_kv_heads c) * unat (head_dim c) \<le> length K" "unat (num_kv_heads c) * unat (head_dim c) \<le> length V"
    using Cons.prems(5) kv by (simp_all add: token_len_def)
  let ?c = "c\<lparr>pending := pending c + 1\<rparr>"
  note up = unat_inc [OF lay]
  obtain ctx1 where a: "kv_cache_append_layer ctx c (pending c) K V = Some (0, ?c, ctx1)"
    "heap B S N ctx1 R" "kv_ok R ?c rK rV" "\<forall>q\<in>R - {rK, rV}. rdata ctx1 q = rdata ctx q"
    and g1: "\<And>L h p. valid_row c L h p \<Longrightarrow>
        kv_get ctx1 c rK L h p = (if L = unat (pending c) \<and> p = unat (filled c) then head_row c K h
          else kv_get ctx c rK L h p) \<and>
        kv_get ctx1 c rV L h p = (if L = unat (pending c) \<and> p = unat (filled c) then head_row c V h
          else kv_get ctx c rV L h p)"
    by (rule kvh.append_layer_rows [OF Cons.prems(1-3) lay len]) (rule that)
  have pr: "filled ?c < max_seq ?c" "unat (pending ?c) + length kvs = unat (num_layers ?c)" "list_all (token_len ?c) kvs"
    using Cons.prems(3-5) up by (simp_all add: token_len_def list_all_iff)
  obtain ctx' where r: "append_layers ctx1 ?c kvs = Some (0, c\<lparr>pending := num_layers c\<rparr>, ctx')"
    "heap B S N ctx' R" "\<forall>q\<in>R - {rK, rV}. rdata ctx' q = rdata ctx1 q"
    and g: "\<And>L h p. valid_row c L h p \<Longrightarrow>
        kv_get ctx' c rK L h p = (if p = unat (filled c) \<and> unat (pending c) + 1 \<le> L
          then head_row c (fst (kvs ! (L - (unat (pending c) + 1)))) h else kv_get ctx1 c rK L h p) \<and>
        kv_get ctx' c rV L h p = (if p = unat (filled c) \<and> unat (pending c) + 1 \<le> L
          then head_row c (snd (kvs ! (L - (unat (pending c) + 1)))) h else kv_get ctx1 c rV L h p)"
    using Cons.IH [OF a(2,3) pr] by (auto simp: up)
  have n: "(kv # kvs) ! (L - unat (pending c)) = (if L = unat (pending c) then kv else kvs ! (L - (unat (pending c) + 1)))"
    if "unat (pending c) \<le> L" for L
    using that by (cases "L = unat (pending c)") (simp_all add: nth_Cons')
  have "kv_get ctx' c rK L h p = (if p = unat (filled c) \<and> unat (pending c) \<le> L
          then head_row c (fst ((kv # kvs) ! (L - unat (pending c)))) h else kv_get ctx c rK L h p) \<and>
        kv_get ctx' c rV L h p = (if p = unat (filled c) \<and> unat (pending c) \<le> L
          then head_row c (snd ((kv # kvs) ! (L - unat (pending c)))) h else kv_get ctx c rV L h p)"
    if "valid_row c L h p" for L h p
    using g [OF that] g1 [OF that] n [of L] kv by auto
  then show ?case using a r kv by auto
qed

theorem append_token_rows:
  assumes h: "heap B S N ctx R" and ok: "kv_ok R c rK rV" and fil: "filled c < max_seq c"
    and p: "pending c = 0" "0 < num_layers c" and l: "length kvs = unat (num_layers c)" "list_all (token_len c) kvs"
  obtains ctx' where "append_token ctx c kvs = Some (0, c\<lparr>filled := filled c + 1\<rparr>, ctx')"
    "heap B S N ctx' R" "kv_ok R (c\<lparr>filled := filled c + 1\<rparr>) rK rV" "\<forall>q\<in>R - {rK, rV}. rdata ctx' q = rdata ctx q"
    "\<And>L h p. valid_row c L h p \<Longrightarrow>
        kv_get ctx' c rK L h p = (if p = unat (filled c) then head_row c (fst (kvs ! L)) h else kv_get ctx c rK L h p) \<and>
        kv_get ctx' c rV L h p = (if p = unat (filled c) then head_row c (snd (kvs ! L)) h else kv_get ctx c rV L h p)"
proof -
  have e: "unat (pending c) + length kvs = unat (num_layers c)" using p(1) l(1) by simp
  obtain ctx' where a: "append_layers ctx c kvs = Some (0, c\<lparr>pending := num_layers c\<rparr>, ctx')"
    "heap B S N ctx' R" "\<forall>q\<in>R - {rK, rV}. rdata ctx' q = rdata ctx q"
    and g: "\<And>L h p. valid_row c L h p \<Longrightarrow>
        kv_get ctx' c rK L h p = (if p = unat (filled c) \<and> unat (pending c) \<le> L
          then head_row c (fst (kvs ! (L - unat (pending c)))) h else kv_get ctx c rK L h p) \<and>
        kv_get ctx' c rV L h p = (if p = unat (filled c) \<and> unat (pending c) \<le> L
          then head_row c (snd (kvs ! (L - unat (pending c)))) h else kv_get ctx c rV L h p)"
    using append_layers_rows [OF h ok fil e l(2)] by blast
  have "append_token ctx c kvs = Some (0, c\<lparr>filled := filled c + 1\<rparr>, ctx')"
    using a(1) p fil by (simp add: append_token_def kv_cache_commit_token_def)
  moreover have "filled c + 1 \<le> max_seq c" using fil by (simp add: inc_le)
  then have "kv_ok R (c\<lparr>filled := filled c + 1\<rparr>) rK rV" using ok by (simp add: kv_ok_def kv_bytes_def)
  ultimately show thesis using a(2,3) g p(1) by (intro that [of ctx']) auto
qed

subsection \<open>Any sequence of calls\<close>

datatype kv_op = Append u32 "u32 list" "u32 list" | Commit

fun kv_do :: "kv_op \<Rightarrow> kv_cache \<times> gpgpu_ctx \<Rightarrow> (int \<times> kv_cache \<times> gpgpu_ctx) option" where
  "kv_do (Append layer K V) (c, ctx) = kv_cache_append_layer ctx c layer K V"
| "kv_do Commit (c, ctx) = do { (rc, c) \<leftarrow> kv_cache_commit_token c; Some (rc, c, ctx) }"

fun kv_run :: "kv_op list \<Rightarrow> kv_cache \<times> gpgpu_ctx \<Rightarrow> (kv_cache \<times> gpgpu_ctx) option" where
  "kv_run [] s = Some s"
| "kv_run (x # xs) s = do { (_, s) \<leftarrow> kv_do x s; kv_run xs s }"

fun kv_op_len :: "kv_cache \<Rightarrow> kv_op \<Rightarrow> bool" where
  "kv_op_len c (Append layer K V) \<longleftrightarrow> token_len c (K, V)"
| "kv_op_len c Commit \<longleftrightarrow> True"

text \<open>A started token has its slot: the assertion of the commit cannot fail.\<close>

definition kv_live :: "kv_cache \<Rightarrow> bool" where
  "kv_live c \<longleftrightarrow> pending c = 0 \<or> filled c < max_seq c"

definition kv_shape :: "kv_cache \<Rightarrow> u32 \<times> u32 \<times> u32 \<times> u32 \<times> u64 \<times> u64" where
  "kv_shape c = (num_layers c, num_kv_heads c, max_seq c, head_dim c, K_dev_off c, V_dev_off c)"

lemma kv_shape_cong:
  assumes "kv_shape c' = kv_shape c"
  shows "kv_get ctx c' = kv_get ctx c" "valid_row c' = valid_row c" "token_len c' = token_len c" "kv_op_len c' = kv_op_len c"
proof -
  show t: "token_len c' = token_len c" using assms by (simp add: fun_eq_iff kv_shape_def token_len_def)
  show "kv_get ctx c' = kv_get ctx c" "valid_row c' = valid_row c"
    using assms by (simp_all add: fun_eq_iff kv_shape_def kv_get_def valid_row_def row_bytes_def kv_index_def)
  show "kv_op_len c' = kv_op_len c"
  proof
    fix x show "kv_op_len c' x = kv_op_len c x" by (cases x) (simp_all add: t)
  qed
qed

definition kept :: "region set \<Rightarrow> region \<Rightarrow> region \<Rightarrow> kv_cache \<Rightarrow> gpgpu_ctx \<Rightarrow> gpgpu_ctx \<Rightarrow> bool" where
  "kept R rK rV c ctx ctx' \<longleftrightarrow> (\<forall>q\<in>R - {rK, rV}. rdata ctx' q = rdata ctx q) \<and>
     (\<forall>L h p. valid_row c L h p \<longrightarrow> p < unat (filled c) \<longrightarrow>
        kv_get ctx' c rK L h p = kv_get ctx c rK L h p \<and> kv_get ctx' c rV L h p = kv_get ctx c rV L h p)"

lemma kv_do_safe:
  assumes h: "heap B S N ctx R" and ok: "kv_ok R c rK rV" and lv: "kv_live c" and len: "kv_op_len c x"
  obtains (fin) rc c' ctx' where "kv_do x (c, ctx) = Some (rc, c', ctx')" "heap B S N ctx' R" "kv_ok R c' rK rV" "kv_live c'"
    "kv_shape c' = kv_shape c" "filled c \<le> filled c'" "kept R rK rV c ctx ctx'"
proof (cases x)
  case (Append layer K V)
  note x = this
  have same: thesis if "kv_cache_append_layer ctx c layer K V = Some (rc, c, ctx)" for rc
    using that x h ok lv by (intro fin [of rc c ctx]) (simp_all add: kept_def)
  consider (full) "max_seq c \<le> filled c" | (bad) "filled c < max_seq c" "num_layers c \<le> layer \<or> layer \<noteq> pending c"
    | (good) "filled c < max_seq c" "layer = pending c" "pending c < num_layers c"
    using not_le [of "max_seq c" "filled c"] not_le [of "num_layers c" layer] by blast
  then show thesis
  proof cases
    case full
    then show thesis by (rule same [OF append_layer_refused(1)])
  next
    case bad
    then show thesis by (rule same [OF append_layer_refused(2)])
  next
    case good
    have l: "unat (num_kv_heads c) * unat (head_dim c) \<le> length K" "unat (num_kv_heads c) * unat (head_dim c) \<le> length V"
      using len x by (simp_all add: token_len_def)
    obtain ctx' where a: "kv_cache_append_layer ctx c (pending c) K V = Some (0, c\<lparr>pending := pending c + 1\<rparr>, ctx')"
      "heap B S N ctx' R" "kv_ok R (c\<lparr>pending := pending c + 1\<rparr>) rK rV" "\<forall>q\<in>R - {rK, rV}. rdata ctx' q = rdata ctx q"
      and g: "\<And>L h p. valid_row c L h p \<Longrightarrow>
        kv_get ctx' c rK L h p = (if L = unat (pending c) \<and> p = unat (filled c) then head_row c K h
          else kv_get ctx c rK L h p) \<and>
        kv_get ctx' c rV L h p = (if L = unat (pending c) \<and> p = unat (filled c) then head_row c V h
          else kv_get ctx c rV L h p)"
      by (rule kvh.append_layer_rows [OF h ok good(1,3) l]) (rule that)
    have "kept R rK rV c ctx ctx'" using a(4) g by (simp add: kept_def)
    then show thesis using a good x
      by (intro that [of 0 "c\<lparr>pending := pending c + 1\<rparr>" ctx']) (simp_all add: kv_live_def kv_shape_def)
  qed
next
  case Commit
  show thesis
  proof (cases "pending c \<noteq> 0 \<and> pending c = num_layers c")
    case True
    then have f: "filled c < max_seq c" using lv by (auto simp: kv_live_def)
    then have u: "filled c + 1 \<le> max_seq c" "filled c \<le> filled c + 1"
      using unat_inc [OF f] by (simp add: inc_le, simp add: word_le_nat_alt)
    have "kv_do x (c, ctx) = Some (0, c\<lparr>pending := 0, filled := filled c + 1\<rparr>, ctx)"
      using Commit True f by (auto simp: kv_cache_commit_token_def)
    then show thesis using h ok u
      by (intro that [of 0 "c\<lparr>pending := 0, filled := filled c + 1\<rparr>" ctx])
        (simp_all add: kv_ok_def kv_bytes_def kv_live_def kv_shape_def kept_def)
  next
    case False
    then have "\<exists>rc. kv_do x (c, ctx) = Some (rc, c, ctx)" using Commit by (auto simp: kv_cache_commit_token_def)
    then show thesis using h ok lv that [of _ c ctx] by (auto simp: kept_def)
  qed
qed

lemma kept_trans:
  assumes "kept R rK rV c ctx ctx1" "kept R rK rV c1 ctx1 ctx'" "kv_shape c1 = kv_shape c" "filled c \<le> filled c1"
  shows "kept R rK rV c ctx ctx'"
  using assms(1,2,4) unfolding kept_def kv_shape_cong [OF assms(3)] word_le_nat_alt by fastforce

theorem kv_run_safe:
  "heap B S N ctx R \<Longrightarrow> kv_ok R c rK rV \<Longrightarrow> kv_live c \<Longrightarrow> list_all (kv_op_len c) xs \<Longrightarrow>
   \<exists>c' ctx'. kv_run xs (c, ctx) = Some (c', ctx') \<and> heap B S N ctx' R \<and> kv_ok R c' rK rV \<and> kv_live c' \<and>
     kv_shape c' = kv_shape c \<and> filled c \<le> filled c' \<and> kept R rK rV c ctx ctx'"
proof (induction xs arbitrary: c ctx)
  case Nil
  then show ?case by (simp add: kept_def)
next
  case (Cons x xs)
  obtain rc c1 ctx1 where 1: "kv_do x (c, ctx) = Some (rc, c1, ctx1)" "heap B S N ctx1 R" "kv_ok R c1 rK rV" "kv_live c1"
    "kv_shape c1 = kv_shape c" "filled c \<le> filled c1" "kept R rK rV c ctx ctx1"
    by (rule kv_do_safe [OF Cons.prems(1-3), of x]) (use Cons.prems(4) in simp, rule that)
  have "list_all (kv_op_len c1) xs" using Cons.prems(4) kv_shape_cong(4) [OF 1(5)] by simp
  from Cons.IH [OF 1(2-4) this] obtain c' ctx' where "kv_run xs (c1, ctx1) = Some (c', ctx')" "heap B S N ctx' R"
    "kv_ok R c' rK rV" "kv_live c'" "kv_shape c' = kv_shape c1" "filled c1 \<le> filled c'" "kept R rK rV c1 ctx1 ctx'"
    by blast
  then show ?case using 1 kept_trans [OF 1(7) _ 1(5,6)] by auto
qed

end
