(* ===== verification/Arena.thy ===== *)
theory Arena
  imports Kv_Ops
begin

text \<open>
  Device memory as a kernel sees it: mapped bytes and regions in it that do not overlap, without the
  structures of the allocators.  Every heap is such an arena; it is all that the steps of the
  transformer need, and the kernels write it directly.  An arena remembers the context it comes from: no
  byte outside the regions has changed since, and nothing else but the host memory that is left.
\<close>

definition rest_of :: "gpgpu_ctx \<Rightarrow> gpgpu_ctx" where
  "rest_of ctx = ctx\<lparr>sh := (sh ctx)\<lparr>vmem := (\<lambda>_. None), mallocs := []\<rparr>\<rparr>"

definition within :: "u64 \<Rightarrow> nat set \<Rightarrow> gpgpu_ctx \<Rightarrow> gpgpu_ctx \<Rightarrow> bool" where
  "within B X G ctx \<longleftrightarrow> bframe B X (vmem (sh G)) (vmem (sh ctx)) \<and> rest_of ctx = rest_of G"

type_synonym origin = "nat \<times> gpgpu_ctx"

definition arena :: "u64 \<Rightarrow> origin \<Rightarrow> gpgpu_ctx \<Rightarrow> region set \<Rightarrow> bool" where
  "arena B S ctx R \<longleftrightarrow> vram_mmap ctx = B \<and> vram_at (vmem (sh ctx)) B (fst S) \<and> fst S \<le> 2 ^ 64 \<and>
     (\<forall>r\<in>R. fst r + snd r \<le> fst S \<and> fst r + snd r \<le> 2 ^ 32) \<and>
     (\<forall>r\<in>R. \<forall>q\<in>R. r \<noteq> q \<longrightarrow> rbytes r \<inter> rbytes q = {}) \<and> within B (\<Union> (rbytes ` R)) (snd S) ctx"

definition set_vmem :: "mem \<Rightarrow> gpgpu_ctx \<Rightarrow> gpgpu_ctx" where
  "set_vmem m ctx = ctx\<lparr>sh := (sh ctx)\<lparr>vmem := m\<rparr>\<rparr>"

lemma set_vmem_simps [simp]:
  "vmem (sh (set_vmem m ctx)) = m" "vram_mmap (set_vmem m ctx) = vram_mmap ctx" "fd (set_vmem m ctx) = fd ctx"
  "mallocs (sh (set_vmem m ctx)) = mallocs (sh ctx)" "set_vmem m (set_vmem m' ctx) = set_vmem m ctx"
  by (simp_all add: set_vmem_def)

lemma arenaD:
  assumes "arena B S ctx R"
  shows "vram_mmap ctx = B" "vram_at (vmem (sh ctx)) B (fst S)" "fst S \<le> 2 ^ 64"
    "(a, l) \<in> R \<Longrightarrow> a + l \<le> fst S" "(a, l) \<in> R \<Longrightarrow> a + l \<le> 2 ^ 32"
    "r \<in> R \<Longrightarrow> q \<in> R \<Longrightarrow> r \<noteq> q \<Longrightarrow> rbytes r \<inter> rbytes q = {}"
  using assms by (auto simp: arena_def)

lemma within_refl [simp]: "within B X ctx ctx"
  by (simp add: within_def bframe_def)

lemma rest_of_simps [simp]: "rest_of (set_vmem m ctx) = rest_of ctx" "rest_of (ctx\<lparr>sh := snd (malloc (sh ctx))\<rparr>) = rest_of ctx"
  by (simp_all add: rest_of_def set_vmem_def malloc_def split: list.splits)

lemma rest_of_eqD:
  assumes "rest_of ctx = rest_of G"
  shows "fd ctx = fd G" "vram_mmap ctx = vram_mmap G" "vram_size ctx = vram_size G" "buddy (sh ctx) = buddy (sh G)"
    "slab_at ctx p = slab_at G p"
proof -
  have f: "fd (rest_of c) = fd c" "vram_mmap (rest_of c) = vram_mmap c" "vram_size (rest_of c) = vram_size c"
    "buddy (sh (rest_of c)) = buddy (sh c)" "slab_at (rest_of c) p = slab_at c p" for c
    by (cases p; simp add: rest_of_def)+
  show "fd ctx = fd G" "vram_mmap ctx = vram_mmap G" "vram_size ctx = vram_size G" "buddy (sh ctx) = buddy (sh G)"
    "slab_at ctx p = slab_at G p"
    using assms f by metis+
qed

text \<open>Writes inside the regions leave the structures of the allocators alone.\<close>

lemma heap_within:
  assumes h: "heap B S N G R" and w: "within B X G ctx" and X: "X \<subseteq> \<Union> (rbytes ` R)" and v: "vram_at (vmem (sh ctx)) B S"
  shows "heap B S N ctx R"
proof -
  obtain F U L P where g: "ginv B S N G F U L P" and R: "R = regions U L P" using h by (rule heapE)
  note i = ginvD(2) [OF g]
  have fr: "bframe B X (vmem (sh G)) (vmem (sh ctx))" and c: "rest_of ctx = rest_of G" using w by (simp_all add: within_def)
  have "binv B S N (buddy (sh G)) (vmem (sh ctx)) F (all_blocks U P)"
    using binv_bframe [OF i fr v] region_free_pages X R by blast
  moreover have "sinv B N (osz_of p) (slab_at G p) (vmem (sh ctx)) (L p) (P p)" for p
  proof (intro sinv_bframe_slots [OF binvD(1) [OF i] ginvD(3) [OF g] fr])
    have "slot_bytes 8 (set (L p)) \<inter> rbytes r = {}" if r: "r \<in> R" for r
      using live_vs_free [OF g r [unfolded R] sinvD(6) [OF ginvD(3) [OF g]] live_not_free [OF r [unfolded R]]] by blast
    then show "slot_bytes 8 (set (L p)) \<inter> X = {}" using X by blast
  qed
  ultimately have "ginv B S N ctx F U L P" using g rest_of_eqD [OF c] unfolding ginv_def by simp
  then show ?thesis using R by (rule heapI)
qed

lemma heap_arena:
  assumes "heap B S N ctx R" shows "arena B (S, ctx) ctx R"
proof -
  obtain F U L P where g: "ginv B S N ctx F U L P" and R: "R = regions U L P" using assms by (rule heapE)
  note i = ginvD(2) [OF g]
  have "fst r + snd r \<le> S \<and> fst r + snd r \<le> 2 ^ 32" if "r \<in> R" for r
    using heap_addr_bound [OF assms, of "fst r" "snd r"] heap_bounds(1) [OF assms, of r] that
      base_okD(3) [OF binvD(1) [OF i]] by simp
  then show ?thesis
    using ginvD(1) [OF g] binvD(2) [OF i] base_okD(5) [OF binvD(1) [OF i]] heap_disjoint [OF assms]
    by (auto simp: arena_def)
qed

lemma arena_load:
  assumes "arena B S ctx R" "(a, l) \<in> R" "d + n \<le> l"
  shows "load_bytes (vmem (sh ctx)) (ofs B (a + d)) n = Some (take n (drop d (rdata ctx (a, l))))"
proof -
  have "a + d + n \<le> fst S" using arenaD(4) [OF assms(1,2)] assms(3) by simp
  then have "mapped (vmem (sh ctx)) (ofs B (a + d)) n"
    by (rule vram_mapped [OF arenaD(2) [OF assms(1)] _ arenaD(3) [OF assms(1)]])
  moreover have "get_bytes (vmem (sh ctx)) (ofs B (a + d)) n = take n (drop d (rdata ctx (a, l)))"
    using get_bytes_sub [OF assms(3), of "vmem (sh ctx)" "ofs B a"] arenaD(1) [OF assms(1)]
    by (simp add: rdata_def add.assoc)
  ultimately show ?thesis by (simp add: load_bytes_def)
qed

lemma arena_store:
  assumes A: "arena B S ctx R" and r: "(a, l) \<in> R" and d: "d + length bs \<le> l"
  obtains m where "store_bytes (vmem (sh ctx)) (ofs B (a + d)) bs = Some m" "arena B S (set_vmem m ctx) R"
    "rdata (set_vmem m ctx) (a, l) = take d (rdata ctx (a, l)) @ bs @ drop (d + length bs) (rdata ctx (a, l))"
    "\<forall>q\<in>R - {(a, l)}. rdata (set_vmem m ctx) q = rdata ctx q"
proof -
  let ?m = "vmem (sh ctx)" and ?m' = "put_bytes (vmem (sh ctx)) (ofs B (a + d)) bs"
  have b: "a + d + length bs \<le> fst S" "a + l \<le> 2 ^ 64" using arenaD(3,4) [OF A] r d by fastforce+
  have mp: "mapped ?m (ofs B (a + d)) (length bs)"
    by (rule vram_mapped [OF arenaD(2) [OF A] b(1) arenaD(3) [OF A]])
  have v: "vram_at ?m' B (fst S)" using arenaD(2) [OF A] mp by (simp add: vram_at_put_bytes)
  have same: "rdata (set_vmem ?m' ctx) q = rdata ctx q" if q: "q \<in> R - {(a, l)}" for q
  proof -
    have dj: "rbytes q \<inter> rbytes (a, l) = {}" using arenaD(6) [OF A, of q "(a, l)"] r q by blast
    have "get_bytes ?m' (ofs B (fst q)) (snd q) = get_bytes ?m (ofs B (fst q)) (snd q)"
    proof (cases "length bs = 0 \<or> snd q = 0")
      case True
      then show ?thesis by (auto simp: get_bytes_def put_bytes_def)
    next
      case False
      have "fst q + snd q \<le> 2 ^ 64" using arenaD(3) [OF A] arenaD(4) [OF A, of "fst q" "snd q"] q by simp
      moreover have "a + d + length bs \<le> fst q \<or> fst q + snd q \<le> a + d"
      proof (rule ccontr)
        assume n: "\<not> ?thesis"
        then have "max (fst q) (a + d) \<in> rbytes q \<inter> rbytes (a, l)" using d n False by (cases bs) (auto simp: rbytes_def)
        then show False using dj by blast
      qed
      ultimately show ?thesis using b d by (intro get_bytes_put_bytes_other) auto
    qed
    then show ?thesis using arenaD(1) [OF A] by (simp add: rdata_def)
  qed
  show thesis
  proof (rule that [of ?m'])
    show "store_bytes ?m (ofs B (a + d)) bs = Some ?m'" using mp by (simp add: store_bytes_def)
    have "bframe B (rbytes (a, l)) ?m ?m'"
      using b d by (intro bframe_put_bytes) (auto simp: rbytes_def)
    then have "within B (\<Union> (rbytes ` R)) (snd S) (set_vmem ?m' ctx)"
      using A r by (fastforce simp: arena_def within_def bframe_def)
    then show "arena B S (set_vmem ?m' ctx) R" using A v by (simp add: arena_def)
    show "rdata (set_vmem ?m' ctx) (a, l) = take d (rdata ctx (a, l)) @ bs @ drop (d + length bs) (rdata ctx (a, l))"
      using get_put_bytes_within [OF b(2) d, of ?m B] arenaD(1) [OF A] by (simp add: rdata_def del: of_nat_add)
  qed (use same in blast)
qed

interpretation ar: kv_memory "arena B S" for B S
proof unfold_locales
  fix s R a l d and n :: u64 and src :: "u8 list" assume A: "arena B S s R" "(a, l) \<in> R" "d + unat n \<le> l" "unat n \<le> length src"
  have l: "length (take (unat n) src) = unat n" using A(4) by simp
  obtain m where m: "store_bytes (vmem (sh s)) (ofs B (a + d)) (take (unat n) src) = Some m" "arena B S (set_vmem m s) R"
    "rdata (set_vmem m s) (a, l) = take d (rdata s (a, l)) @ take (unat n) src @ drop (d + unat n) (rdata s (a, l))"
    "\<forall>q\<in>R - {(a, l)}. rdata (set_vmem m s) q = rdata s q"
    by (rule arena_store [OF A(1,2), of d "take (unat n) src", unfolded l]) (use A(3) that in auto)
  moreover have "gpuMemcpy s (word_of_nat (a + d)) src n GPU_MEMCPY_H2D = Some (0, src, set_vmem m s)"
    using m(1) A(4) arenaD(1) [OF A(1)] by (simp add: gpuMemcpy_def set_vmem_def del: of_nat_add)
  ultimately show "\<exists>s'. gpuMemcpy s (word_of_nat (a + d)) src n GPU_MEMCPY_H2D = Some (0, src, s') \<and> arena B S s' R \<and>
        rdata s' (a, l) = take d (rdata s (a, l)) @ take (unat n) src @ drop (d + unat n) (rdata s (a, l)) \<and>
        (\<forall>r\<in>R - {(a, l)}. rdata s' r = rdata s r)"
    by blast
next
  fix s R a l d and n :: u64 and dst assume A: "arena B S s R" "(a, l) \<in> R" "d + unat n \<le> l" "unat n \<le> length (dst :: u8 list)"
  show "gpuMemcpy s (word_of_nat (a + d)) dst n GPU_MEMCPY_D2H =
        Some (0, take (unat n) (drop d (rdata s (a, l))) @ drop (unat n) dst, s)"
    using arena_load [OF A(1-3)] A(4) arenaD(1) [OF A(1)]
    by (simp add: gpuMemcpy_def GPU_MEMCPY_H2D_def GPU_MEMCPY_D2H_def del: of_nat_add)
qed (use arenaD(5) in auto)

lemma arena_malloc:
  assumes "arena B S ctx R"
  shows "arena B S (ctx\<lparr>sh := snd (malloc (sh ctx))\<rparr>) R" "rdata (ctx\<lparr>sh := snd (malloc (sh ctx))\<rparr>) = rdata ctx"
proof -
  have m: "vmem (snd (malloc (sh ctx))) = vmem (sh ctx)" by (auto simp: malloc_def split: list.splits)
  show "arena B S (ctx\<lparr>sh := snd (malloc (sh ctx))\<rparr>) R" using assms by (simp add: arena_def within_def m)
  show "rdata (ctx\<lparr>sh := snd (malloc (sh ctx))\<rparr>) = rdata ctx" by (simp add: fun_eq_iff rdata_def m)
qed

end
