(* ===== verification/Device.thy ===== *)
theory Device
  imports Transformer_Step Arena
begin

text \<open>
  The device from the point of view of the host: what a launch of each kernel reads and writes.  The
  kernels are assembly for a processor whose instructions are not part of the repository, so the values
  they compute are an argument; the layout of the argument block, the operands, the shapes a kernel is
  written for and the bytes it writes are those of the sources and comments in \<open>kernels/*.S\<close>.

  A kernel is a function from its scalar arguments and the bytes of its operands to the bytes of each of
  its results.
\<close>

type_synonym span = "u32 \<times> nat"
type_synonym kernel_fun = "ws_field \<Rightarrow> u32 list \<Rightarrow> u8 list list \<Rightarrow> nat \<Rightarrow> nat \<Rightarrow> u8"

definition rows_at :: "u32 \<Rightarrow> nat \<Rightarrow> nat \<Rightarrow> nat \<Rightarrow> span list" where
  "rows_at a stride n g = map (\<lambda>h. (a + word_of_nat (h * stride), n)) [0..<g]"

definition io_rmsnorm :: "u32 list \<Rightarrow> nat \<Rightarrow> (u32 list \<times> span list \<times> span list) option" where
  "io_rmsnorm args g = (case args of [in_off, out_off, w, d, inv_d, eps] \<Rightarrow>
     if d = 896 \<and> g = 1 then Some ([d, inv_d, eps], [(in_off, 4 * unat d), (w, 4 * unat d)], [(out_off, 4 * unat d)]) else None
   | _ \<Rightarrow> None)"

definition io_gemm :: "u32 list \<Rightarrow> nat \<Rightarrow> (u32 list \<times> span list \<times> span list) option" where
  "io_gemm args g = (case args of [a, b, c, M, K, N] \<Rightarrow>
     if unat M * unat N \<le> 32 * g then
       Some ([M, K, N], [(a, 4 * (unat M * unat K)), (b, 4 * (unat K * unat N))], [(c, 4 * (unat M * unat N))])
     else None
   | _ \<Rightarrow> None)"

definition io_broadcast_add :: "u32 list \<Rightarrow> nat \<Rightarrow> (u32 list \<times> span list \<times> span list) option" where
  "io_broadcast_add args g = (case args of [x, y, b, M, N] \<Rightarrow>
     if unat M * unat N \<le> 32 * g then
       Some ([M, N], [(x, 4 * (unat M * unat N)), (b, 4 * unat N)], [(y, 4 * (unat M * unat N))])
     else None
   | _ \<Rightarrow> None)"

definition io_silu :: "u32 list \<Rightarrow> nat \<Rightarrow> (u32 list \<times> span list \<times> span list) option" where
  "io_silu args g = (case args of [in_off, out_off, n] \<Rightarrow>
     if unat n \<le> 32 * g then Some ([n], [(in_off, 4 * unat n)], [(out_off, 4 * unat n)]) else None
   | _ \<Rightarrow> None)"

definition io_vmul :: "u32 list \<Rightarrow> nat \<Rightarrow> (u32 list \<times> span list \<times> span list) option" where
  "io_vmul args g = (case args of [a, b, c, n] \<Rightarrow>
     if n mod 32 = 0 \<and> g = 1 then Some ([n], [(a, 4 * unat n), (b, 4 * unat n)], [(c, 4 * unat n)]) else None
   | _ \<Rightarrow> None)"

definition io_rope :: "u32 list \<Rightarrow> nat \<Rightarrow> (u32 list \<times> span list \<times> span list) option" where
  "io_rope args g = (case args of [x, table, heads, hdim, pos] \<Rightarrow>
     if hdim = 64 \<and> g = 1 then
       Some ([heads, hdim, pos], [(x, 4 * (unat heads * unat hdim)), (table + pos * hdim * 4, 4 * unat hdim)],
         [(x, 4 * (unat heads * unat hdim))])
     else None
   | _ \<Rightarrow> None)"

text \<open>The row that the embedding reads depends on the token in device memory.\<close>

definition io_embedding ::
  "(u32 \<Rightarrow> nat \<Rightarrow> u8 list option) \<Rightarrow> u32 list \<Rightarrow> nat \<Rightarrow> (u32 list \<times> span list \<times> span list) option" where
  "io_embedding rd args g = (case args of [table, buf, out, n, per_lane] \<Rightarrow>
     if n = 32 * per_lane \<and> g = 1 then do {
       t \<leftarrow> rd buf 4;
       Some ([n], [(table + of_bytes t * n * 4, 4 * unat n)], [(out, 4 * unat n)]) }
     else None
   | _ \<Rightarrow> None)"

definition io_argmax :: "u32 list \<Rightarrow> nat \<Rightarrow> (u32 list \<times> span list \<times> span list) option" where
  "io_argmax args g = (case args of [logits, V, out, debug] \<Rightarrow>
     if g = 1 then Some ([V], [(logits, 4 * unat V)], (out, 4) # rows_at debug 32 28 32) else None
   | _ \<Rightarrow> None)"

text \<open>The rows of the first positions of every head of one layer of the cache.\<close>

definition cache_rows :: "u32 \<Rightarrow> nat \<Rightarrow> nat \<Rightarrow> nat \<Rightarrow> nat \<Rightarrow> span list" where
  "cache_rows base ms hdim kv_heads positions =
     concat (map (\<lambda>kh. rows_at (base + word_of_nat (kh * (ms * hdim * 4))) (4 * hdim) (4 * hdim) positions) [0..<kv_heads])"

definition io_qkt_decode :: "u32 list \<Rightarrow> nat \<Rightarrow> (u32 list \<times> span list \<times> span list) option" where
  "io_qkt_decode args g = (case args of [Q, K, scores, pos, ms, hdim, q_per_kv, scale] \<Rightarrow>
     if q_per_kv \<noteq> 0 \<and> unat q_per_kv dvd g then
       Some ([pos, hdim, q_per_kv, scale],
         (Q, 4 * (g * unat hdim)) # cache_rows K (unat ms) (unat hdim) (g div unat q_per_kv) (unat pos + 1),
         rows_at scores (4 * unat ms) (4 * (unat pos + 1)) g)
     else None
   | _ \<Rightarrow> None)"

definition io_softmax_decode :: "u32 list \<Rightarrow> nat \<Rightarrow> (u32 list \<times> span list \<times> span list) option" where
  "io_softmax_decode args g = (case args of [scores, pos, ms] \<Rightarrow>
     Some ([pos], rows_at scores (4 * unat ms) (4 * (unat pos + 1)) g, rows_at scores (4 * unat ms) (4 * (unat pos + 1)) g)
   | _ \<Rightarrow> None)"

definition io_pv_decode :: "u32 list \<Rightarrow> nat \<Rightarrow> (u32 list \<times> span list \<times> span list) option" where
  "io_pv_decode args g = (case args of [P, V, out, pos, ms, hdim, q_per_kv] \<Rightarrow>
     if q_per_kv \<noteq> 0 \<and> unat q_per_kv dvd g \<and> hdim mod 32 = 0 then
       Some ([pos, hdim, q_per_kv],
         rows_at P (4 * unat ms) (4 * (unat pos + 1)) g @
         cache_rows V (unat ms) (unat hdim) (g div unat q_per_kv) (unat pos + 1),
         [(out, 4 * (g * unat hdim))])
     else None
   | _ \<Rightarrow> None)"

lemmas io_defs = io_rmsnorm_def io_gemm_def io_broadcast_add_def io_silu_def io_vmul_def io_rope_def io_embedding_def
  io_argmax_def io_qkt_decode_def io_softmax_decode_def io_pv_decode_def

definition kernel_io ::
  "(u32 \<Rightarrow> nat \<Rightarrow> u8 list option) \<Rightarrow> ws_field \<Rightarrow> u32 list \<Rightarrow> nat \<Rightarrow> (u32 list \<times> span list \<times> span list) option" where
  "kernel_io rd k args g = (case k of
     kbin_rmsnorm \<Rightarrow> io_rmsnorm args g
   | kbin_gemm \<Rightarrow> io_gemm args g
   | kbin_broadcast_add \<Rightarrow> io_broadcast_add args g
   | kbin_silu \<Rightarrow> io_silu args g
   | kbin_vmul \<Rightarrow> io_vmul args g
   | kbin_rope \<Rightarrow> io_rope args g
   | kbin_embedding \<Rightarrow> io_embedding rd args g
   | kbin_argmax \<Rightarrow> io_argmax args g
   | kbin_qkt_decode \<Rightarrow> io_qkt_decode args g
   | kbin_softmax_decode \<Rightarrow> io_softmax_decode args g
   | kbin_pv_decode \<Rightarrow> io_pv_decode args g
   | _ \<Rightarrow> None)"

definition kernel_arity :: "ws_field \<Rightarrow> nat" where
  "kernel_arity k = (case k of kbin_rmsnorm \<Rightarrow> 6 | kbin_gemm \<Rightarrow> 6 | kbin_broadcast_add \<Rightarrow> 5 | kbin_silu \<Rightarrow> 3
     | kbin_vmul \<Rightarrow> 4 | kbin_rope \<Rightarrow> 5 | kbin_embedding \<Rightarrow> 5 | kbin_argmax \<Rightarrow> 4 | kbin_qkt_decode \<Rightarrow> 8
     | kbin_softmax_decode \<Rightarrow> 3 | kbin_pv_decode \<Rightarrow> 7 | _ \<Rightarrow> 0)"

fun read_spans :: "(u32 \<Rightarrow> nat \<Rightarrow> u8 list option) \<Rightarrow> span list \<Rightarrow> u8 list list option" where
  "read_spans rd [] = Some []"
| "read_spans rd ((a, n) # xs) = do { b \<leftarrow> rd a n; bs \<leftarrow> read_spans rd xs; Some (b # bs) }"

fun write_spans :: "u64 \<Rightarrow> (nat \<Rightarrow> nat \<Rightarrow> u8) \<Rightarrow> nat \<Rightarrow> span list \<Rightarrow> mem \<Rightarrow> mem option" where
  "write_spans B f j [] m = Some m"
| "write_spans B f j ((a, n) # xs) m = do {
     m \<leftarrow> store_bytes m (B + ucast a) (map (f j) [0..<n]);
     write_spans B f (Suc j) xs m }"

definition rd32 :: "u64 \<Rightarrow> mem \<Rightarrow> u32 \<Rightarrow> nat \<Rightarrow> u8 list option" where
  "rd32 B m a n = load_bytes m (B + ucast a) n"

text \<open>A dispatch of kernel \<open>k\<close>, whose machine code is \<open>code k\<close>, on a memory at \<open>B\<close>.\<close>

definition launch_effect ::
  "kernel_fun \<Rightarrow> (ws_field \<Rightarrow> u8 list) \<Rightarrow> u64 \<Rightarrow> ws_field \<Rightarrow> gpgpu_dispatch_args \<Rightarrow> mem \<Rightarrow> mem option" where
  "launch_effect KF code B k d m = do {
     c \<leftarrow> load_bytes m (B + kernel_addr d) (length (code k));
     guard (c = code k \<and> block_dim d = (32, 1, 1) \<and> snd (grid_dim d) = (1, 1));
     bs \<leftarrow> load_bytes m (B + kernel_args d) (4 * kernel_arity k);
     (sc, ins, outs) \<leftarrow> kernel_io (rd32 B m) k (words_of bs) (unat (fst (grid_dim d)));
     xs \<leftarrow> read_spans (rd32 B m) ins;
     write_spans B (KF k sc xs) 0 outs m }"

text \<open>A device that runs every kernel so, and reports success.\<close>

definition device_runs :: "kernel_fun \<Rightarrow> (ws_field \<Rightarrow> u8 list) \<Rightarrow> u64 \<Rightarrow> machine \<Rightarrow> bool" where
  "device_runs KF code B E \<longleftrightarrow> (\<forall>fd k d m m'. launch_effect KF code B k d m = Some m' \<longrightarrow> mioctl E fd d m = (0, m'))"

subsection \<open>Named places in memory\<close>

text \<open>Every object that a step touches has a region of its own.\<close>

datatype slot = Buf ws_field | Weight nat wl_tensor | Embedding | Lm_Head | Final_Norm | K_cache | V_cache

definition mem_ok :: "u64 \<Rightarrow> origin \<Rightarrow> (slot \<Rightarrow> region) \<Rightarrow> gpgpu_ctx \<Rightarrow> bool" where
  "mem_ok B S reg ctx \<longleftrightarrow> arena B S ctx (range reg) \<and> (\<forall>s t. s \<noteq> t \<longrightarrow> rbytes (reg s) \<inter> rbytes (reg t) = {})"

definition held :: "(slot \<Rightarrow> region) \<Rightarrow> gpgpu_ctx \<Rightarrow> slot \<Rightarrow> u8 list" where
  "held reg ctx s = rdata ctx (reg s)"

lemma length_held [simp]: "length (held reg ctx s) = snd (reg s)"
  by (simp add: held_def)

text \<open>A part of the object at a slot: where it starts and how many bytes it has.\<close>

type_synonym part = "slot \<times> nat \<times> nat"

definition at :: "(slot \<Rightarrow> region) \<Rightarrow> part \<Rightarrow> span" where
  "at reg = (\<lambda>(s, d, n). (word_of_nat (fst (reg s) + d), n))"

definition inside :: "(slot \<Rightarrow> region) \<Rightarrow> part \<Rightarrow> bool" where
  "inside reg = (\<lambda>(s, d, n). 0 < n \<and> d + n \<le> snd (reg s))"

definition peek :: "(slot \<Rightarrow> u8 list) \<Rightarrow> part \<Rightarrow> u8 list" where
  "peek C = (\<lambda>(s, d, n). take n (drop d (C s)))"

definition poke :: "part \<Rightarrow> u8 list \<Rightarrow> (slot \<Rightarrow> u8 list) \<Rightarrow> slot \<Rightarrow> u8 list" where
  "poke = (\<lambda>(s, d, n) bs C. C(s := take d (C s) @ bs @ drop (d + n) (C s)))"

fun pokes :: "(nat \<Rightarrow> nat \<Rightarrow> u8) \<Rightarrow> nat \<Rightarrow> part list \<Rightarrow> (slot \<Rightarrow> u8 list) \<Rightarrow> slot \<Rightarrow> u8 list" where
  "pokes f j [] C = C"
| "pokes f j (p # ps) C = pokes f (Suc j) ps (poke p (map (f j) [0..<snd (snd p)]) C)"

lemma part_address:
  assumes "mem_ok B S reg ctx" "inside reg (s, d, n)"
  shows "ucast (fst (at reg (s, d, n))) = (word_of_nat (fst (reg s) + d) :: u64)"
proof -
  have "fst (reg s) + snd (reg s) \<le> 2 ^ 32" using assms(1) by (auto simp: mem_ok_def arena_def)
  then have "fst (reg s) + d < 2 ^ 32" using assms(2) by (simp add: inside_def)
  then have "unat (word_of_nat (fst (reg s) + d) :: u32) = fst (reg s) + d"
    by (simp add: unat_of_nat del: of_nat_add)
  moreover have "ucast (w :: u32) = (word_of_nat (unat w) :: u64)" for w by simp
  ultimately show ?thesis by (metis at_def case_prod_conv fst_conv)
qed

lemma slot_load:
  assumes "mem_ok B S reg ctx" "inside reg (s, d, n)"
  shows "load_bytes (vmem (sh ctx)) (ofs B (fst (reg s) + d)) n = Some (peek (held reg ctx) (s, d, n))"
  using arena_load [of B S ctx "range reg" "fst (reg s)" "snd (reg s)" d n] assms
  by (simp add: mem_ok_def inside_def peek_def held_def)

lemma slot_store:
  assumes m: "mem_ok B S reg ctx" and d: "d + length bs \<le> snd (reg s)" "bs \<noteq> []"
  obtains m' where "store_bytes (vmem (sh ctx)) (ofs B (fst (reg s) + d)) bs = Some m'" "mem_ok B S reg (set_vmem m' ctx)"
    "held reg (set_vmem m' ctx) = poke (s, d, length bs) bs (held reg ctx)"
proof -
  have A: "arena B S ctx (range reg)" "(fst (reg s), snd (reg s)) \<in> range reg" using m by (simp_all add: mem_ok_def)
  obtain m' where m': "store_bytes (vmem (sh ctx)) (ofs B (fst (reg s) + d)) bs = Some m'" "arena B S (set_vmem m' ctx) (range reg)"
    "rdata (set_vmem m' ctx) (reg s) = take d (rdata ctx (reg s)) @ bs @ drop (d + length bs) (rdata ctx (reg s))"
    "\<forall>q\<in>range reg - {reg s}. rdata (set_vmem m' ctx) q = rdata ctx q"
    by (rule arena_store [OF A d(1)]) (simp add: that)
  have ne: "reg t \<noteq> reg s" if "t \<noteq> s" for t
  proof
    assume e: "reg t = reg s"
    have "rbytes (reg t) \<inter> rbytes (reg s) = {}" using m that by (simp add: mem_ok_def)
    moreover have "fst (reg s) \<in> rbytes (reg s)" using d by (cases bs) (auto simp: rbytes_def)
    ultimately show False using e by auto
  qed
  show thesis
    using m' m ne by (intro that [of m']) (auto simp: mem_ok_def held_def poke_def fun_eq_iff)
qed

lemma read_parts:
  assumes "mem_ok B S reg ctx" "list_all (inside reg) ps"
  shows "read_spans (rd32 B (vmem (sh ctx))) (map (at reg) ps) = Some (map (peek (held reg ctx)) ps)"
  using assms(2)
proof (induction ps)
  case (Cons p ps)
  obtain s d n where p: "p = (s, d, n)" by (cases p)
  have i: "inside reg (s, d, n)" using Cons.prems p by simp
  have "rd32 B (vmem (sh ctx)) (fst (at reg p)) n = Some (peek (held reg ctx) p)"
    using slot_load [OF assms(1) i] part_address [OF assms(1) i] by (simp add: rd32_def p)
  moreover have "at reg p = (fst (at reg p), n)" by (simp add: at_def p)
  moreover have "read_spans (rd32 B (vmem (sh ctx))) (map (at reg) ps) = Some (map (peek (held reg ctx)) ps)"
    using Cons by simp
  ultimately show ?case by (metis (no_types, lifting) bind.bind_lunit list.simps(9) read_spans.simps(2))
qed simp

lemma write_parts:
  assumes "mem_ok B S reg ctx" "list_all (inside reg) ps"
  obtains m' where "write_spans B f j (map (at reg) ps) (vmem (sh ctx)) = Some m'" "mem_ok B S reg (set_vmem m' ctx)"
    "held reg (set_vmem m' ctx) = pokes f j ps (held reg ctx)"
  using assms
proof (induction ps arbitrary: j ctx thesis)
  case Nil
  have "set_vmem (vmem (sh ctx)) ctx = ctx" by (simp add: set_vmem_def)
  then show ?case using Nil.prems(2) by (intro Nil.prems(1) [of "vmem (sh ctx)"]) simp_all
next
  case (Cons p ps)
  obtain s d n where p: "p = (s, d, n)" by (cases p)
  have i: "inside reg (s, d, n)" using Cons.prems(3) p by simp
  let ?bs = "map (f j) [0..<n]"
  have l: "d + length ?bs \<le> snd (reg s)" "?bs \<noteq> []" using i by (simp_all add: inside_def)
  obtain m1 where m1: "store_bytes (vmem (sh ctx)) (ofs B (fst (reg s) + d)) ?bs = Some m1" "mem_ok B S reg (set_vmem m1 ctx)"
    "held reg (set_vmem m1 ctx) = poke (s, d, length ?bs) ?bs (held reg ctx)"
    by (rule slot_store [OF Cons.prems(2) l]) (rule that)
  obtain m' where m': "write_spans B f (Suc j) (map (at reg) ps) (vmem (sh (set_vmem m1 ctx))) = Some m'"
    "mem_ok B S reg (set_vmem m' (set_vmem m1 ctx))"
    "held reg (set_vmem m' (set_vmem m1 ctx)) = pokes f (Suc j) ps (held reg (set_vmem m1 ctx))"
    by (rule Cons.IH [OF _ m1(2)]) (use Cons.prems(3) that in auto)
  have "at reg p = (fst (at reg p), n)" by (simp add: at_def p)
  then have "write_spans B f j (map (at reg) (p # ps)) (vmem (sh ctx)) = Some m'"
    using m1(1) m'(1) part_address [OF Cons.prems(2) i] p
    by (metis (no_types, lifting) bind.bind_lunit list.simps(9) set_vmem_simps(1) write_spans.simps(2))
  then show ?case using m' m1(3) by (intro Cons.prems(1) [of m']) (simp_all add: p)
qed

end
