(* ===== verification/Transformer_Spec.thy ===== *)
theory Transformer_Spec
  imports Device
begin

text \<open>
  What one step of the transformer is meant to compute, without memory: values flow from kernel to
  kernel.  The kernels are the functions of \<open>kernel_fun\<close>; the shapes are those of the default
  configuration, the only one the kernels are written for.
\<close>

definition result :: "kernel_fun \<Rightarrow> ws_field \<Rightarrow> u32 list \<Rightarrow> u8 list list \<Rightarrow> nat \<Rightarrow> u8 list" where
  "result KF k sc xs n = map (KF k sc xs 0) [0..<n]"

lemma length_result [simp]: "length (result KF k sc xs n) = n"
  by (simp add: result_def)

definition spec_rmsnorm :: "kernel_fun \<Rightarrow> fpu \<Rightarrow> u8 list \<Rightarrow> u8 list \<Rightarrow> u8 list" where
  "spec_rmsnorm KF fp x w = result KF kbin_rmsnorm [896, f_div fp F_ONE (f_of_int fp 896), 0x358637BD] [x, w] 3584"

definition spec_gemm :: "kernel_fun \<Rightarrow> u32 \<Rightarrow> u32 \<Rightarrow> u8 list \<Rightarrow> u8 list \<Rightarrow> u8 list" where
  "spec_gemm KF K N x w = result KF kbin_gemm [1, K, N] [x, w] (4 * unat N)"

definition spec_add :: "kernel_fun \<Rightarrow> u32 \<Rightarrow> u8 list \<Rightarrow> u8 list \<Rightarrow> u8 list" where
  "spec_add KF N x b = result KF kbin_broadcast_add [1, N] [x, b] (4 * unat N)"

definition spec_silu :: "kernel_fun \<Rightarrow> u8 list \<Rightarrow> u8 list" where
  "spec_silu KF x = result KF kbin_silu [4864] [x] 19456"

definition spec_vmul :: "kernel_fun \<Rightarrow> u8 list \<Rightarrow> u8 list \<Rightarrow> u8 list" where
  "spec_vmul KF x y = result KF kbin_vmul [4864] [x, y] 19456"

definition spec_rope :: "kernel_fun \<Rightarrow> u8 list \<Rightarrow> u32 \<Rightarrow> nat \<Rightarrow> u8 list \<Rightarrow> u8 list" where
  "spec_rope KF table heads pos x =
     result KF kbin_rope [heads, 64, word_of_nat pos] [x, take 256 (drop (256 * pos) table)] (4 * (unat heads * 64))"

definition spec_embed :: "kernel_fun \<Rightarrow> u8 list \<Rightarrow> nat \<Rightarrow> u8 list" where
  "spec_embed KF table tok = result KF kbin_embedding [896] [take 3584 (drop (3584 * tok) table)] 3584"

definition spec_argmax :: "kernel_fun \<Rightarrow> u8 list \<Rightarrow> u8 list" where
  "spec_argmax KF logits = result KF kbin_argmax [151936] [logits] 4"

text \<open>Attention: one row of scores per query head, over the positions up to the current one.\<close>

definition spec_rows :: "kernel_fun \<Rightarrow> ws_field \<Rightarrow> u32 list \<Rightarrow> u8 list list \<Rightarrow> nat \<Rightarrow> u8 list list" where
  "spec_rows KF k sc xs n = map (\<lambda>h. map (KF k sc xs h) [0..<n]) [0..<14]"

definition spec_scores :: "kernel_fun \<Rightarrow> fpu \<Rightarrow> nat \<Rightarrow> u8 list \<Rightarrow> u8 list list \<Rightarrow> u8 list list" where
  "spec_scores KF fp pos q ks =
     spec_rows KF kbin_qkt_decode [word_of_nat pos, 64, 7, f_div fp F_ONE (sqrtf fp (f_of_int fp 64))] (q # ks) (4 * (pos + 1))"

definition spec_softmax :: "kernel_fun \<Rightarrow> nat \<Rightarrow> u8 list list \<Rightarrow> u8 list list" where
  "spec_softmax KF pos rows = spec_rows KF kbin_softmax_decode [word_of_nat pos] rows (4 * (pos + 1))"

definition spec_pv :: "kernel_fun \<Rightarrow> nat \<Rightarrow> u8 list list \<Rightarrow> u8 list list \<Rightarrow> u8 list" where
  "spec_pv KF pos rows vs = result KF kbin_pv_decode [word_of_nat pos, 64, 7] (rows @ vs) 3584"

text \<open>The rows of the cache, by layer, head and position.\<close>

type_synonym kv_rows = "nat \<Rightarrow> nat \<Rightarrow> nat \<Rightarrow> u8 list"

definition add_rows :: "nat \<Rightarrow> nat \<Rightarrow> u8 list \<Rightarrow> kv_rows \<Rightarrow> kv_rows" where
  "add_rows L pos v K = (\<lambda>L' h p. if L' = L \<and> p = pos \<and> h < 2 then take 256 (drop (256 * h) v) else K L' h p)"

definition rows_upto :: "kv_rows \<Rightarrow> nat \<Rightarrow> nat \<Rightarrow> u8 list list" where
  "rows_upto K L pos = concat (map (\<lambda>h. map (K L h) [0..<pos + 1]) [0..<2])"

record model_weights =
  w_layer :: "nat \<Rightarrow> wl_tensor \<Rightarrow> u8 list"
  w_embedding :: "u8 list"
  w_lm_head :: "u8 list"
  w_final_norm :: "u8 list"
  w_table :: "u8 list"

definition spec_qkv :: "kernel_fun \<Rightarrow> fpu \<Rightarrow> model_weights \<Rightarrow> nat \<Rightarrow> nat \<Rightarrow> u8 list \<Rightarrow> u8 list \<times> u8 list \<times> u8 list" where
  "spec_qkv KF fp W pos L x = (let
     n = spec_rmsnorm KF fp x (w_layer W L WL_INPUT_NORM);
     q = spec_add KF 896 (spec_gemm KF 896 896 n (w_layer W L WL_Q_PROJ_W)) (w_layer W L WL_Q_PROJ_B);
     k = spec_add KF 128 (spec_gemm KF 896 128 n (w_layer W L WL_K_PROJ_W)) (w_layer W L WL_K_PROJ_B);
     v = spec_add KF 128 (spec_gemm KF 896 128 n (w_layer W L WL_V_PROJ_W)) (w_layer W L WL_V_PROJ_B)
   in (spec_rope KF (w_table W) 14 pos q, spec_rope KF (w_table W) 2 pos k, v))"

definition spec_ffn :: "kernel_fun \<Rightarrow> fpu \<Rightarrow> model_weights \<Rightarrow> nat \<Rightarrow> u8 list \<Rightarrow> u8 list" where
  "spec_ffn KF fp W L y = (let
     n = spec_rmsnorm KF fp y (w_layer W L WL_POST_NORM);
     g = spec_silu KF (spec_gemm KF 896 4864 n (w_layer W L WL_GATE_PROJ_W));
     u = spec_gemm KF 896 4864 n (w_layer W L WL_UP_PROJ_W)
   in spec_add KF 896 y (spec_gemm KF 4864 896 (spec_vmul KF g u) (w_layer W L WL_DOWN_PROJ_W)))"

text \<open>A decoder layer: the cache gets the rows of the new position, the value goes through attention and
  the feed-forward part, each with its residual.\<close>

definition spec_layer ::
  "kernel_fun \<Rightarrow> fpu \<Rightarrow> model_weights \<Rightarrow> nat \<Rightarrow> nat \<Rightarrow> kv_rows \<times> kv_rows \<times> u8 list \<Rightarrow> kv_rows \<times> kv_rows \<times> u8 list" where
  "spec_layer KF fp W pos L = (\<lambda>(K, V, x). let
     (q, k, v) = spec_qkv KF fp W pos L x;
     K = add_rows L pos k K;
     V = add_rows L pos v V;
     p = spec_softmax KF pos (spec_scores KF fp pos q (rows_upto K L pos));
     a = spec_pv KF pos p (rows_upto V L pos);
     y = spec_add KF 896 x (spec_gemm KF 896 896 a (w_layer W L WL_O_PROJ_W))
   in (K, V, spec_ffn KF fp W L y))"

fun spec_layers :: "kernel_fun \<Rightarrow> fpu \<Rightarrow> model_weights \<Rightarrow> nat \<Rightarrow> nat \<Rightarrow> kv_rows \<times> kv_rows \<times> u8 list \<Rightarrow> kv_rows \<times> kv_rows \<times> u8 list" where
  "spec_layers KF fp W pos 0 s = s"
| "spec_layers KF fp W pos (Suc n) s = spec_layer KF fp W pos n (spec_layers KF fp W pos n s)"

definition spec_head :: "kernel_fun \<Rightarrow> fpu \<Rightarrow> model_weights \<Rightarrow> u8 list \<Rightarrow> u8 list" where
  "spec_head KF fp W x =
     spec_argmax KF (spec_gemm KF 896 151936 (spec_rmsnorm KF fp x (w_final_norm W)) (w_lm_head W))"

text \<open>One token at position \<open>pos\<close>: the cache grows by a row per layer and head, and the bytes of the next
  token come out.\<close>

definition spec_step :: "kernel_fun \<Rightarrow> fpu \<Rightarrow> model_weights \<Rightarrow> nat \<Rightarrow> nat \<Rightarrow> kv_rows \<times> kv_rows \<Rightarrow> kv_rows \<times> kv_rows \<times> u8 list" where
  "spec_step KF fp W pos tok = (\<lambda>(K, V). let
     (K, V, x) = spec_layers KF fp W pos 24 (K, V, spec_embed KF (w_embedding W) tok)
   in (K, V, spec_head KF fp W x))"

text \<open>The rows of earlier positions, and those of later layers, are not touched.\<close>

lemma spec_layer_rows:
  assumes "spec_layer KF fp W pos L (K, V, x) = (K', V', x')"
  shows "p \<noteq> pos \<or> L' \<noteq> L \<Longrightarrow> K' L' h p = K L' h p \<and> V' L' h p = V L' h p"
  using assms by (auto simp: spec_layer_def Let_def add_rows_def split: prod.splits)

end
