(* ===== verification/Infer_Spec.thy ===== *)
theory Infer_Spec
  imports Transformer_Spec
begin

text \<open>
  Greedy generation as a function of the prompt: the tokens of the prompt fill an empty cache, then each
  token chosen is the next input, until the number of tokens asked for or the end token is reached.
\<close>

definition token_of :: "u8 list \<Rightarrow> int" where
  "token_of t = sint (of_bytes t :: u32)"

fun spec_prompt :: "kernel_fun \<Rightarrow> fpu \<Rightarrow> model_weights \<Rightarrow> nat \<Rightarrow> int list \<Rightarrow> kv_rows \<times> kv_rows \<Rightarrow> int \<Rightarrow> (kv_rows \<times> kv_rows) \<times> int" where
  "spec_prompt KF fp W pos [] kv nxt = (kv, nxt)"
| "spec_prompt KF fp W pos (tok # toks) kv nxt =
     (let (K, V, t) = spec_step KF fp W pos (nat tok) kv in spec_prompt KF fp W (Suc pos) toks (K, V) (token_of t))"

fun spec_decode :: "kernel_fun \<Rightarrow> fpu \<Rightarrow> model_weights \<Rightarrow> nat \<Rightarrow> nat \<Rightarrow> int \<Rightarrow> kv_rows \<times> kv_rows \<Rightarrow> int \<Rightarrow> int list" where
  "spec_decode KF fp W pos 0 eos kv nxt = []"
| "spec_decode KF fp W pos (Suc n) eos kv nxt =
     (if 0 \<le> eos \<and> nxt = eos then []
      else let (K, V, t) = spec_step KF fp W pos (nat nxt) kv in
        token_of t # spec_decode KF fp W (Suc pos) n eos (K, V) (token_of t))"

definition spec_run :: "kernel_fun \<Rightarrow> fpu \<Rightarrow> model_weights \<Rightarrow> kv_rows \<times> kv_rows \<Rightarrow> int list \<Rightarrow> nat \<Rightarrow> int \<Rightarrow> int list" where
  "spec_run KF fp W kv prompt n eos = (let (kv, nxt) = spec_prompt KF fp W 0 prompt kv (-1) in
     nxt # spec_decode KF fp W (length prompt) (n - 1) eos kv nxt)"

definition spec_generate :: "kernel_fun \<Rightarrow> fpu \<Rightarrow> model_weights \<Rightarrow> int list \<Rightarrow> nat \<Rightarrow> int \<Rightarrow> int list" where
  "spec_generate KF fp W prompt n eos = spec_run KF fp W (\<lambda>_ _ _. [], \<lambda>_ _ _. []) prompt n eos"

subsection \<open>What was in the cache before does not matter\<close>

text \<open>The rows below a position agree, and those at the position in the first \<open>n\<close> layers.\<close>

definition agree_rows :: "nat \<Rightarrow> nat \<Rightarrow> kv_rows \<Rightarrow> kv_rows \<Rightarrow> bool" where
  "agree_rows pos n K K' \<longleftrightarrow> (\<forall>L<24. \<forall>h<2. \<forall>p. p < pos \<or> p = pos \<and> L < n \<longrightarrow> K L h p = K' L h p)"

lemma agree_rows_next: "agree_rows pos 24 K K' \<longleftrightarrow> agree_rows (Suc pos) 0 K K'"
  by (auto simp: agree_rows_def less_Suc_eq)

lemma agree_rows_add: "agree_rows pos L K K' \<Longrightarrow> agree_rows pos (Suc L) (add_rows L pos v K) (add_rows L pos v K')"
  by (auto simp: agree_rows_def add_rows_def less_Suc_eq)

lemma rows_upto_agree: "agree_rows pos (Suc L) K K' \<Longrightarrow> L < 24 \<Longrightarrow> rows_upto K L pos = rows_upto K' L pos"
  by (auto simp: rows_upto_def agree_rows_def less_Suc_eq intro!: arg_cong [of _ _ concat])

lemma spec_layer_agree:
  assumes a: "agree_rows pos L K K'" "agree_rows pos L V V'" and L: "L < 24"
    and s: "spec_layer KF fp W pos L (K, V, x) = (K1, V1, x1)" "spec_layer KF fp W pos L (K', V', x) = (K2, V2, x2)"
  shows "agree_rows pos (Suc L) K1 K2 \<and> agree_rows pos (Suc L) V1 V2 \<and> x1 = x2"
proof -
  obtain q k v where q: "spec_qkv KF fp W pos L x = (q, k, v)" by (metis prod_cases3)
  note b = agree_rows_add [OF a(1), of k] agree_rows_add [OF a(2), of v]
  show ?thesis using s b rows_upto_agree [OF b(1) L] rows_upto_agree [OF b(2) L] by (auto simp: spec_layer_def q Let_def)
qed

lemma spec_layers_agree:
  assumes "agree_rows pos 0 K K'" "agree_rows pos 0 V V'" "n \<le> 24"
    "spec_layers KF fp W pos n (K, V, x) = (K1, V1, x1)" "spec_layers KF fp W pos n (K', V', x) = (K2, V2, x2)"
  shows "agree_rows pos n K1 K2 \<and> agree_rows pos n V1 V2 \<and> x1 = x2"
  using assms(3-)
proof (induction n arbitrary: K1 V1 x1 K2 V2 x2)
  case 0
  then show ?case using assms(1,2) by simp
next
  case (Suc n)
  obtain A B y where 1: "spec_layers KF fp W pos n (K, V, x) = (A, B, y)" by (metis prod_cases3)
  obtain A' B' y' where 2: "spec_layers KF fp W pos n (K', V', x) = (A', B', y')" by (metis prod_cases3)
  have "agree_rows pos n A A'" "agree_rows pos n B B'" "y = y'" using Suc.IH [OF _ 1 2] Suc.prems(1) by auto
  then show ?case
    using spec_layer_agree [of pos n A A' B B' KF fp W y K1 V1 x1 K2 V2 x2] Suc.prems 1 2 by simp
qed

lemma spec_step_agree:
  assumes "agree_rows pos 0 K K'" "agree_rows pos 0 V V'"
    "spec_step KF fp W pos tok (K, V) = (K1, V1, t1)" "spec_step KF fp W pos tok (K', V') = (K2, V2, t2)"
  shows "agree_rows (Suc pos) 0 K1 K2 \<and> agree_rows (Suc pos) 0 V1 V2 \<and> t1 = t2"
proof -
  let ?x = "spec_embed KF (w_embedding W) tok"
  obtain A B y where 1: "spec_layers KF fp W pos 24 (K, V, ?x) = (A, B, y)" by (metis prod_cases3)
  obtain A' B' y' where 2: "spec_layers KF fp W pos 24 (K', V', ?x) = (A', B', y')" by (metis prod_cases3)
  have "agree_rows pos 24 A A' \<and> agree_rows pos 24 B B' \<and> y = y'" using spec_layers_agree [OF assms(1,2) _ 1 2] by simp
  then show ?thesis using assms(3,4) 1 2 by (auto simp: spec_step_def agree_rows_next)
qed

lemma spec_prompt_agree:
  assumes "agree_rows pos 0 K K'" "agree_rows pos 0 V V'"
    "spec_prompt KF fp W pos toks (K, V) nxt = ((K1, V1), n1)" "spec_prompt KF fp W pos toks (K', V') nxt = ((K2, V2), n2)"
  shows "agree_rows (pos + length toks) 0 K1 K2 \<and> agree_rows (pos + length toks) 0 V1 V2 \<and> n1 = n2"
  using assms
proof (induction toks arbitrary: pos K V K' V' nxt)
  case (Cons tok toks)
  obtain A B t where 1: "spec_step KF fp W pos (nat tok) (K, V) = (A, B, t)" by (metis prod_cases3)
  obtain A' B' t' where 2: "spec_step KF fp W pos (nat tok) (K', V') = (A', B', t')" by (metis prod_cases3)
  have "agree_rows (Suc pos) 0 A A' \<and> agree_rows (Suc pos) 0 B B' \<and> t = t'" by (rule spec_step_agree [OF Cons.prems(1,2) 1 2])
  then show ?case using Cons.IH [of "Suc pos" A A' B B' "token_of t"] Cons.prems(3,4) 1 2 by simp
qed simp

lemma spec_decode_agree:
  assumes "agree_rows pos 0 K K'" "agree_rows pos 0 V V'"
  shows "spec_decode KF fp W pos n eos (K, V) nxt = spec_decode KF fp W pos n eos (K', V') nxt"
  using assms
proof (induction n arbitrary: pos K V K' V' nxt)
  case (Suc n)
  obtain A B t where 1: "spec_step KF fp W pos (nat nxt) (K, V) = (A, B, t)" by (metis prod_cases3)
  obtain A' B' t' where 2: "spec_step KF fp W pos (nat nxt) (K', V') = (A', B', t')" by (metis prod_cases3)
  have "agree_rows (Suc pos) 0 A A' \<and> agree_rows (Suc pos) 0 B B' \<and> t = t'" by (rule spec_step_agree [OF Suc.prems 1 2])
  then show ?case using Suc.IH [of "Suc pos" A A' B B' "token_of t"] 1 2 by simp
qed simp

lemma spec_run_generate: "spec_run KF fp W (K, V) prompt n eos = spec_generate KF fp W prompt n eos"
proof -
  let ?E = "\<lambda>_ _ _. []"
  obtain K1 V1 n1 where 1: "spec_prompt KF fp W 0 prompt (K, V) (-1) = ((K1, V1), n1)" by (metis prod.collapse)
  obtain K2 V2 n2 where 2: "spec_prompt KF fp W 0 prompt (?E, ?E) (-1) = ((K2, V2), n2)" by (metis prod.collapse)
  have "agree_rows 0 0 A B" for A B by (simp add: agree_rows_def)
  then have a: "agree_rows (length prompt) 0 K1 K2 \<and> agree_rows (length prompt) 0 V1 V2 \<and> n1 = n2"
    using spec_prompt_agree [OF _ _ 1 2] by simp
  then show ?thesis using spec_decode_agree [of "length prompt" K1 K2 V1 V2] 1 2 by (simp add: spec_generate_def spec_run_def)
qed

end
