(* ===== verification/Launch.thy ===== *)
theory Launch
  imports Device
begin

text \<open>
  What a launch does to the named places: the argument block is copied, the device runs the kernel, and
  the results are in place.  The lemmas here say it once, for any kernel.
\<close>

subsection \<open>Floats and bytes\<close>

lemma bytes_of4: "bytes_of 4 w = [ucast w, ucast (drop_bit 8 w), ucast (drop_bit 16 w), ucast (drop_bit 24 w)]"
  by (simp add: bytes_of_def upt_rec)

lemma words_of_float_bytes [simp]: "words_of (float_bytes ws) = ws"
proof (induction ws)
  case (Cons w ws)
  have "of_bytes [ucast w, ucast (drop_bit 8 w), ucast (drop_bit 16 w), ucast (drop_bit 24 w)] = w"
    using of_bytes_bytes_of32 [of w] by (simp only: bytes_of4)
  then show ?case using Cons by (simp add: float_bytes_def bytes_of4)
qed (simp add: float_bytes_def)

lemma bytes_of_of_bytes: "bytes_of 4 (of_bytes [a, b, c, d] :: u32) = [a, b, c, d :: u8]"
proof -
  have "of_bytes [a, b, c, d] = (ucast a OR push_bit 8 (ucast b) OR push_bit 16 (ucast c) OR push_bit 24 (ucast d) :: u32)"
    (is "_ = ?w")
  proof -
    have "of_bytes [a, b, c, d] = (ucast a + (push_bit 8 (ucast b) + (push_bit 16 (ucast c) + push_bit 24 (ucast d))) :: u32)"
      by (simp add: of_bytes_def push_bit_eq_mult algebra_simps)
    also have "push_bit 16 (ucast c) + push_bit 24 (ucast d) = (push_bit 16 (ucast c) OR push_bit 24 (ucast d) :: u32)"
      by (rule disjunctive_add) (auto simp: bit_simps dest: bit_imp_le_length)
    also have "push_bit 8 (ucast b) + (push_bit 16 (ucast c) OR push_bit 24 (ucast d)) =
        (push_bit 8 (ucast b) OR (push_bit 16 (ucast c) OR push_bit 24 (ucast d)) :: u32)"
      by (rule disjunctive_add) (auto simp: bit_simps dest: bit_imp_le_length)
    also have "ucast a + (push_bit 8 (ucast b) OR (push_bit 16 (ucast c) OR push_bit 24 (ucast d))) = ?w"
      by (subst disjunctive_add) (auto simp: bit_simps dest: bit_imp_le_length)
    finally show ?thesis .
  qed
  moreover have "\<not> bit (x :: u8) (8 + i)" "\<not> bit x (16 + i)" "\<not> bit x (24 + i)" for x i
    by (auto dest: bit_imp_le_length)
  ultimately show ?thesis unfolding bytes_of4 by (auto intro!: bit_word_eqI simp: bit_simps)
qed

lemma float_bytes_words_of: "length bs = 4 * n \<Longrightarrow> float_bytes (words_of bs) = bs"
proof (induction bs arbitrary: n rule: words_of.induct)
  case (1 a b c d bs)
  then have "float_bytes (words_of bs) = bs" by (cases n) auto
  then show ?case by (simp add: float_bytes_def bytes_of_of_bytes)
qed (simp_all add: float_bytes_def, presburger+)

lemma length_words_of: "length bs = 4 * n \<Longrightarrow> length (words_of bs) = n"
  using float_bytes_words_of [of bs n] length_float_bytes [of "words_of bs"] by simp

lemma float_bytes_Nil [simp]: "float_bytes fs = [] \<longleftrightarrow> fs = []"
  using length_float_bytes [of fs] by (cases "float_bytes fs"; cases fs) auto

lemma drop_float_bytes: "drop (n * 4) (float_bytes fs) = float_bytes (drop n fs)"
proof (induction fs arbitrary: n)
  case (Cons f fs)
  then show ?case by (cases n) (simp_all add: float_bytes_def)
qed (simp add: float_bytes_def)

subsection \<open>One launch\<close>

lemma peek_poke_same [simp]: "d + n \<le> length (C s) \<Longrightarrow> length bs = n \<Longrightarrow> peek (poke (s, d, n) bs C) (s, d, n) = bs"
  by (simp add: peek_def poke_def)

lemma peek_poke_other [simp]: "s \<noteq> t \<Longrightarrow> peek (poke (s, d, n) bs C) (t, e, k) = peek C (t, e, k)"
  by (simp add: peek_def poke_def)

lemma poke_other [simp]: "s \<noteq> t \<Longrightarrow> poke (s, d, n) bs C t = C t"
  by (simp add: poke_def)

lemma launch_parts:
  assumes m: "mem_ok B S reg ctx" and dev: "device_runs KF code B E"
    and k: "inside reg (Buf k, 0, length (code k))" "peek (held reg ctx) (Buf k, 0, length (code k)) = code k"
    and a: "inside reg (Buf a, 0, 4 * length args)" "length args = kernel_arity k" "k \<noteq> a"
    and C1: "C1 = poke (Buf a, 0, 4 * length args) (float_bytes args) (held reg ctx)"
    and io: "\<And>m1. mem_ok B S reg (set_vmem m1 ctx) \<Longrightarrow> held reg (set_vmem m1 ctx) = C1 \<Longrightarrow>
      kernel_io (rd32 B m1) k args (unat g) = Some (sc, map (at reg) ins, map (at reg) outs)"
    and ps: "list_all (inside reg) ins" "list_all (inside reg) outs"
  obtains m' where "launch_op E ctx (word_of_nat (fst (reg (Buf k)))) (word_of_nat (fst (reg (Buf a)))) args (g, 1, 1) (32, 1, 1) =
      Some (0, set_vmem m' ctx)" "mem_ok B S reg (set_vmem m' ctx)"
    "held reg (set_vmem m' ctx) = pokes (KF k sc (map (peek C1) ins)) 0 outs C1"
proof -
  let ?n = "4 * length args" and ?ka = "word_of_nat (fst (reg (Buf k))) :: u64" and ?aa = "word_of_nat (fst (reg (Buf a))) :: u64"
  have n: "0 < ?n" "0 + ?n \<le> snd (reg (Buf a))" using a(1) by (simp_all add: inside_def)
  have "fst (reg (Buf a)) + snd (reg (Buf a)) \<le> 2 ^ 32" using m by (auto simp: mem_ok_def arena_def)
  then have "?n \<le> 2 ^ 32" using n(2) by linarith
  then have un: "unat (word_of_nat ?n :: u64) = ?n" by (intro unat_of_nat64) simp
  obtain m1 where m1: "store_bytes (vmem (sh ctx)) (ofs B (fst (reg (Buf a)) + 0)) (float_bytes args) = Some m1"
    "mem_ok B S reg (set_vmem m1 ctx)" "held reg (set_vmem m1 ctx) = C1"
    by (rule slot_store [OF m, of 0 "float_bytes args" "Buf a"]) (use n that C1 length_float_bytes [of args] in fastforce)+
  let ?c1 = "set_vmem m1 ctx" and ?d = "\<lparr>kernel_addr = ?ka, kernel_args = ?aa, grid_dim = (g, 1, 1), block_dim = (32, 1, 1),
     shared_mem_size = 0\<rparr>"
  have B: "vram_mmap ctx = B" using m by (simp add: mem_ok_def arena_def)
  have cp: "gpuMemcpy ctx ?aa (float_bytes args) (word_of_nat ?n) GPU_MEMCPY_H2D = Some (0, float_bytes args, ?c1)"
    using m1(1) un B by (simp add: gpuMemcpy_def set_vmem_def)
  obtain m' where w: "write_spans B (KF k sc (map (peek C1) ins)) 0 (map (at reg) outs) (vmem (sh ?c1)) = Some m'"
    "mem_ok B S reg (set_vmem m' ?c1)" "held reg (set_vmem m' ?c1) = pokes (KF k sc (map (peek C1) ins)) 0 outs (held reg ?c1)"
    by (rule write_parts [OF m1(2) ps(2)]) (rule that)
  have "load_bytes m1 (ofs B (fst (reg (Buf k)) + 0)) (length (code k)) = Some (code k)"
    using slot_load [OF m1(2) k(1)] k(2) a(3) by (simp add: m1(3) C1)
  moreover have "load_bytes m1 (ofs B (fst (reg (Buf a)) + 0)) (4 * kernel_arity k) = Some (float_bytes args)"
    using slot_load [OF m1(2) a(1)] n(2) a(2) by (simp add: m1(3) C1)
  ultimately have "launch_effect KF code B k ?d m1 = Some m'"
    using io [OF m1(2,3)] read_parts [OF m1(2) ps(1)] w(1) by (simp add: launch_effect_def m1(3))
  then have "mioctl E (fd ctx) ?d m1 = (0, m')" using dev by (simp add: device_runs_def)
  then have "launch_op E ctx ?ka ?aa args (g, 1, 1) (32, 1, 1) = Some (0, set_vmem m' ctx)"
    using cp by (simp add: launch_op_def gpuLaunchKernel_def TRANSFORMER_OK_def Let_def)
      (simp add: set_vmem_def)
  then show thesis using w m1(3) by (intro that [of m']) simp_all
qed

end
