(* ===== verification/Transformer_Run.thy ===== *)
theory Transformer_Run
  imports Launch Transformer_Spec
begin

text \<open>
  The steps of \<open>lib/src/transformer.c\<close> against the values they are meant to compute.  A setting fixes
  the device, the places of all objects in its memory and the workspace; the abstraction of a state forgets
  the addresses, the argument blocks and the bytes behind the current position.
\<close>

record setting =
  s_kf :: kernel_fun
  s_code :: "ws_field \<Rightarrow> u8 list"
  s_base :: u64
  s_from :: origin
  s_reg :: "slot \<Rightarrow> region"
  s_mach :: machine
  s_ws :: transformer_workspace
  s_pos :: nat

definition kernels :: "ws_field list" where
  "kernels = map fst kernel_plan"

definition slot_size :: "setting \<Rightarrow> slot \<Rightarrow> nat" where
  "slot_size P s = (case s of
     Buf f \<Rightarrow> (case map_of (scratch_plan transformer_default_config @ args_plan) f of Some n \<Rightarrow> unat n | None \<Rightarrow> length (s_code P f))
   | Weight L t \<Rightarrow> if L < 24 then 4 * snd (TENSOR_TABLE t) else 0
   | Embedding \<Rightarrow> WL_EMBEDDING_BYTES
   | Lm_Head \<Rightarrow> WL_LM_HEAD_BYTES
   | Final_Norm \<Rightarrow> WL_FINAL_NORM_BYTES
   | K_cache \<Rightarrow> 24 * 2 * 128 * 64 * 4
   | V_cache \<Rightarrow> 24 * 2 * 128 * 64 * 4)"

definition setting_ok :: "setting \<Rightarrow> bool" where
  "setting_ok P \<longleftrightarrow> device_runs (s_kf P) (s_code P) (s_base P) (s_mach P) \<and>
     ws_cfg (s_ws P) = transformer_default_config \<and> s_pos P < 128 \<and>
     (\<forall>s. slot_size P s \<le> snd (s_reg P s)) \<and> (\<forall>k\<in>set kernels. s_code P k \<noteq> []) \<and>
     (\<forall>f. ws_off (s_ws P) f = word_of_nat (fst (s_reg P (Buf f)))) \<and>
     (\<forall>L<24. \<forall>t. weight_loader_layer (ws_wl (s_ws P)) (int L) t = Some (word_of_nat (fst (s_reg P (Weight L t))))) \<and>
     weight_loader_embedding (ws_wl (s_ws P)) = word_of_nat (fst (s_reg P Embedding)) \<and>
     weight_loader_lm_head (ws_wl (s_ws P)) = word_of_nat (fst (s_reg P Lm_Head)) \<and>
     weight_loader_final_norm (ws_wl (s_ws P)) = word_of_nat (fst (s_reg P Final_Norm))"

lemma setting_okD:
  assumes "setting_ok P"
  shows "device_runs (s_kf P) (s_code P) (s_base P) (s_mach P)" "ws_cfg (s_ws P) = transformer_default_config"
    "s_pos P < 128" "slot_size P s \<le> snd (s_reg P s)" "k \<in> set kernels \<Longrightarrow> s_code P k \<noteq> []"
    "ws_off (s_ws P) f = word_of_nat (fst (s_reg P (Buf f)))"
  using assms by (auto simp: setting_ok_def)

text \<open>The sizes.\<close>

lemma slot_sizes [simp]:
  "slot_size P (Buf RESID_A) = 3584" "slot_size P (Buf RESID_B) = 3584" "slot_size P (Buf SCRATCH_X) = 3584"
  "slot_size P (Buf SCRATCH_Q) = 3584" "slot_size P (Buf SCRATCH_K) = 512" "slot_size P (Buf SCRATCH_V) = 512"
  "slot_size P (Buf SCRATCH_SCORES) = 7168" "slot_size P (Buf SCRATCH_FFN_A) = 19456" "slot_size P (Buf SCRATCH_FFN_B) = 19456"
  "slot_size P (Buf LOGITS) = 607744" "slot_size P (Buf sincos_off) = 32768" "slot_size P (Buf token_id_buf_off) = 4"
  "slot_size P (Buf argmax_debug_off) = 1024"
  "slot_size P Embedding = 544538624" "slot_size P Lm_Head = 544538624" "slot_size P Final_Norm = 3584"
  by (simp_all add: slot_size_def scratch_plan_def transformer_default_config_def size4_def kv_dim_def wl_defs)

lemma weight_sizes [simp]:
  assumes "L < 24"
  shows "slot_size P (Weight L WL_INPUT_NORM) = 3584" "slot_size P (Weight L WL_Q_PROJ_W) = 3211264"
    "slot_size P (Weight L WL_Q_PROJ_B) = 3584" "slot_size P (Weight L WL_K_PROJ_W) = 458752"
    "slot_size P (Weight L WL_K_PROJ_B) = 512" "slot_size P (Weight L WL_V_PROJ_W) = 458752"
    "slot_size P (Weight L WL_V_PROJ_B) = 512" "slot_size P (Weight L WL_O_PROJ_W) = 3211264"
    "slot_size P (Weight L WL_POST_NORM) = 3584" "slot_size P (Weight L WL_GATE_PROJ_W) = 17432576"
    "slot_size P (Weight L WL_UP_PROJ_W) = 17432576" "slot_size P (Weight L WL_DOWN_PROJ_W) = 17432576"
  using assms by (simp_all add: slot_size_def wl_defs)

lemma kernel_size: "k \<in> set kernels \<Longrightarrow> slot_size P (Buf k) = length (s_code P k)"
  by (auto simp: slot_size_def kernels_def kernel_plan_def scratch_plan_def args_plan_def)

lemma args_from: "a \<in> set (map fst args_plan) \<Longrightarrow> slot_size P (Buf a) = 32"
  by (auto simp: slot_size_def scratch_plan_def args_plan_def)

subsection \<open>Abstraction\<close>

definition hidden :: "slot \<Rightarrow> bool" where
  "hidden s \<longleftrightarrow> (case s of Buf f \<Rightarrow> f \<in> set (map fst args_plan) \<or> f = argmax_debug_off \<or> f = SCRATCH_SCORES
     | K_cache \<Rightarrow> True | V_cache \<Rightarrow> True | _ \<Rightarrow> False)"

lemma hidden_simps [simp]:
  "\<not> hidden (Weight L t)" "\<not> hidden Embedding" "\<not> hidden Lm_Head" "\<not> hidden Final_Norm" "hidden K_cache" "hidden V_cache"
  "hidden (Buf f) \<longleftrightarrow> f \<in> set (map fst args_plan) \<or> f = argmax_debug_off \<or> f = SCRATCH_SCORES"
  by (simp_all add: hidden_def)

record astate =
  a_buf :: "slot \<Rightarrow> u8 list"
  a_scores :: "u8 list list"
  a_K :: kv_rows
  a_V :: kv_rows
  a_kv :: kv_cache

definition row_ok :: "nat \<Rightarrow> nat \<Rightarrow> nat \<Rightarrow> bool" where
  "row_ok L h p \<longleftrightarrow> L < 24 \<and> h < 2 \<and> p < 128"

definition row_at :: "nat \<Rightarrow> nat \<Rightarrow> nat \<Rightarrow> nat" where
  "row_at L h p = ((L * 2 + h) * 128 + p) * 256"

definition cache_row :: "u8 list \<Rightarrow> kv_rows" where
  "cache_row bs L h p = (if row_ok L h p then take 256 (drop (row_at L h p) bs) else [])"

definition abstr :: "setting \<Rightarrow> (slot \<Rightarrow> u8 list) \<Rightarrow> kv_cache \<Rightarrow> astate" where
  "abstr P C kv = \<lparr>a_buf = (\<lambda>s. if hidden s then [] else take (slot_size P s) (C s)),
     a_scores = map (\<lambda>h. take (4 * (s_pos P + 1)) (drop (512 * h) (C (Buf SCRATCH_SCORES)))) [0..<14],
     a_K = cache_row (C K_cache), a_V = cache_row (C V_cache), a_kv = kv\<rparr>"

definition kv_fits :: "setting \<Rightarrow> kv_cache \<Rightarrow> bool" where
  "kv_fits P kv \<longleftrightarrow> num_layers kv = 24 \<and> num_kv_heads kv = 2 \<and> max_seq kv = 128 \<and> head_dim kv = 64 \<and>
     K_dev_off kv = word_of_nat (fst (s_reg P K_cache)) \<and> V_dev_off kv = word_of_nat (fst (s_reg P V_cache))"

definition state_ok :: "setting \<Rightarrow> run_state \<Rightarrow> bool" where
  "state_ok P st \<longleftrightarrow> mem_ok (s_base P) (s_from P) (s_reg P) (rctx st) \<and> kv_fits P (rkv st) \<and>
     False \<notin> set (mallocs (sh (rctx st))) \<and>
     (\<forall>k\<in>set kernels. take (length (s_code P k)) (held (s_reg P) (rctx st) (Buf k)) = s_code P k)"

abbreviation abs_of :: "setting \<Rightarrow> run_state \<Rightarrow> astate" where
  "abs_of P st \<equiv> abstr P (held (s_reg P) (rctx st)) (rkv st)"

text \<open>An action that succeeds on every state with the abstraction \<open>a\<close> and leaves one with the abstraction \<open>b\<close>.\<close>

definition does :: "setting \<Rightarrow> action \<Rightarrow> astate \<Rightarrow> astate \<Rightarrow> bool" where
  "does P f a b \<longleftrightarrow> (\<forall>st. state_ok P st \<longrightarrow> abs_of P st = a \<longrightarrow>
     (\<exists>st'. f st = Some (TRANSFORMER_OK, st') \<and> state_ok P st' \<and> abs_of P st' = b))"

lemma does_Nil: "does P (run_ops []) a a"
  by (simp add: does_def)

lemma does_Cons: "does P f a b \<Longrightarrow> does P (run_ops fs) b c \<Longrightarrow> does P (run_ops (f # fs)) a c"
  unfolding does_def by (fastforce simp: TRANSFORMER_OK_def)

lemma run_ops_append:
  "run_ops (fs @ gs) st = do { (rc, st) \<leftarrow> run_ops fs st; if rc \<noteq> 0 then Some (rc, st) else run_ops gs st }"
proof (induction fs arbitrary: st)
  case (Cons f fs)
  show ?case by (cases "f st") (auto simp: Cons.IH split: if_splits)
qed (simp add: TRANSFORMER_OK_def)

lemma does_append: "does P (run_ops fs) a b \<Longrightarrow> does P (run_ops gs) b c \<Longrightarrow> does P (run_ops (fs @ gs)) a c"
  unfolding does_def by (fastforce simp: run_ops_append TRANSFORMER_OK_def)

lemma does_eq: "does P f a b \<Longrightarrow> b = c \<Longrightarrow> does P f a c"
  by simp

subsection \<open>A launch on the abstract state\<close>

lemma pokes_other: "s \<notin> fst ` set ps \<Longrightarrow> pokes f j ps C s = C s"
proof (induction ps arbitrary: j C)
  case (Cons p ps)
  then show ?case by (cases p) (auto simp: poke_def)
qed simp

lemma abstr_poke_args: "a \<in> set (map fst args_plan) \<Longrightarrow> abstr P (poke (Buf a, d, n) bs C) kv = abstr P C kv"
proof -
  assume a: "a \<in> set (map fst args_plan)"
  then have "a \<noteq> SCRATCH_SCORES" by (auto simp: args_plan_def)
  then show ?thesis using a by (auto simp: abstr_def fun_eq_iff poke_def)
qed

lemma abs_arg_state:
  assumes "state_ok P st" "a \<in> set (map fst args_plan)" "mem_ok (s_base P) (s_from P) (s_reg P) (set_vmem m (rctx st))"
    "held (s_reg P) (set_vmem m (rctx st)) = poke (Buf a, 0, n) bs (held (s_reg P) (rctx st))"
  shows "state_ok P (st\<lparr>rctx := set_vmem m (rctx st)\<rparr>)" "abs_of P (st\<lparr>rctx := set_vmem m (rctx st)\<rparr>) = abs_of P st"
proof -
  have "a \<notin> set kernels" using assms(2) by (auto simp: args_plan_def kernels_def kernel_plan_def)
  then show "state_ok P (st\<lparr>rctx := set_vmem m (rctx st)\<rparr>)"
    using assms(1,3,4) by (auto simp: state_ok_def poke_def)
  show "abs_of P (st\<lparr>rctx := set_vmem m (rctx st)\<rparr>) = abs_of P st"
    using assms(2,4) by (simp add: abstr_poke_args)
qed

lemma arity_bound: "k \<in> set kernels \<Longrightarrow> 0 < kernel_arity k \<and> kernel_arity k \<le> 8"
  by (auto simp: kernels_def kernel_plan_def kernel_arity_def)

lemma launch_does:
  assumes P: "setting_ok P" and k: "k \<in> set kernels" and a: "arg \<in> set (map fst args_plan)" "length args = kernel_arity k"
    and io: "\<And>st. state_ok P st \<Longrightarrow> abs_of P st = x \<Longrightarrow>
      kernel_io (rd32 (s_base P) (vmem (sh (rctx st)))) k args (unat g) = Some (sc, map (at (s_reg P)) ins, map (at (s_reg P)) outs)"
    and ps: "list_all (inside (s_reg P)) ins" "list_all (inside (s_reg P)) outs" "\<forall>k\<in>set kernels. Buf k \<notin> fst ` set outs"
    and vals: "\<And>st. state_ok P st \<Longrightarrow> abs_of P st = x \<Longrightarrow> map (peek (held (s_reg P) (rctx st))) ins = xs"
    and post: "\<And>C kv. (\<And>s. length (C s) = snd (s_reg P s)) \<Longrightarrow> abstr P C kv = x \<Longrightarrow> abstr P (pokes (s_kf P k sc xs) 0 outs C) kv = y"
  shows "does P (on_ctx (\<lambda>ctx. launch_op (s_mach P) ctx (ws_off (s_ws P) k) (ws_off (s_ws P) arg) args (g, 1, 1) (32, 1, 1))) x y"
  unfolding does_def
proof (intro allI impI)
  fix st assume ok: "state_ok P st" and x: "abs_of P st = x"
  let ?C = "held (s_reg P) (rctx st)" and ?n = "4 * length args" and ?B = "s_base P" and ?S = "s_from P" and ?reg = "s_reg P"
  let ?C1 = "poke (Buf arg, 0, ?n) (float_bytes args) ?C"
  note D = setting_okD [OF P]
  have m: "mem_ok ?B ?S ?reg (rctx st)" using ok by (simp add: state_ok_def)
  have kin: "inside ?reg (Buf k, 0, length (s_code P k))"
    using D(4) [of "Buf k"] D(5) [OF k] by (simp add: inside_def kernel_size [OF k])
  have kc: "peek ?C (Buf k, 0, length (s_code P k)) = s_code P k" using ok k by (simp add: state_ok_def peek_def)
  have ain: "inside ?reg (Buf arg, 0, ?n)"
    using D(4) [of "Buf arg"] arity_bound [OF k] a by (simp add: inside_def args_from)
  have ka: "k \<noteq> arg" using k a(1) by (auto simp: args_plan_def kernels_def kernel_plan_def)
  note st1 = abs_arg_state [OF ok a(1)]
  obtain m' where m': "launch_op (s_mach P) (rctx st) (word_of_nat (fst (?reg (Buf k)))) (word_of_nat (fst (?reg (Buf arg)))) args (g, 1, 1) (32, 1, 1) =
      Some (0, set_vmem m' (rctx st))" "mem_ok ?B ?S ?reg (set_vmem m' (rctx st))"
    "held ?reg (set_vmem m' (rctx st)) = pokes (s_kf P k sc (map (peek ?C1) ins)) 0 outs ?C1"
  proof (rule launch_parts [OF m D(1) kin kc ain a(2) ka refl _ ps(1,2)])
    fix m1 assume u: "mem_ok ?B ?S ?reg (set_vmem m1 (rctx st))" "held ?reg (set_vmem m1 (rctx st)) = ?C1"
    show "kernel_io (rd32 ?B m1) k args (unat g) = Some (sc, map (at ?reg) ins, map (at ?reg) outs)"
      using io [OF st1(1) [OF u]] st1(2) [OF u] x by simp
  qed
  obtain m1 where u: "mem_ok ?B ?S ?reg (set_vmem m1 (rctx st))" "held ?reg (set_vmem m1 (rctx st)) = ?C1"
    by (rule slot_store [OF m, of 0 "float_bytes args" "Buf arg"])
      (use ain length_float_bytes [of args] in \<open>auto simp: inside_def\<close>)
  have xs: "map (peek ?C1) ins = xs" using vals [OF st1(1) [OF u]] st1(2) [OF u] x u(2) by simp
  have len: "length (?C1 s) = snd (?reg s)" for s using length_held [of ?reg "set_vmem m1 (rctx st)" s] u(2) by simp
  have a1: "abstr P ?C1 (rkv st) = x" using abstr_poke_args [OF a(1)] x by simp
  have "take (length (s_code P k)) (held ?reg (set_vmem m' (rctx st)) (Buf k)) = s_code P k" if "k \<in> set kernels" for k
  proof -
    have "Buf k \<notin> fst ` set outs" "k \<noteq> arg" using that ps(3) a(1) by (auto simp: args_plan_def kernels_def kernel_plan_def)
    then show ?thesis using ok that by (simp add: m'(3) pokes_other state_ok_def)
  qed
  then have "state_ok P (st\<lparr>rctx := set_vmem m' (rctx st)\<rparr>)" using ok m'(2) by (simp add: state_ok_def)
  moreover have "abs_of P (st\<lparr>rctx := set_vmem m' (rctx st)\<rparr>) = y" using post [OF len a1] by (simp add: m'(3) xs)
  ultimately show "\<exists>st'. on_ctx (\<lambda>ctx. launch_op (s_mach P) ctx (ws_off (s_ws P) k) (ws_off (s_ws P) arg) args (g, 1, 1) (32, 1, 1)) st =
      Some (TRANSFORMER_OK, st') \<and> state_ok P st' \<and> abs_of P st' = y"
    using m'(1) D(6) by (intro exI [of _ "st\<lparr>rctx := set_vmem m' (rctx st)\<rparr>"]) (simp add: on_ctx_def TRANSFORMER_OK_def)
qed

text \<open>The usual case: the result fills a visible object.\<close>

definition put :: "slot \<Rightarrow> u8 list \<Rightarrow> astate \<Rightarrow> astate" where
  "put s v a = a\<lparr>a_buf := (a_buf a)(s := v)\<rparr>"

lemma put_simps [simp]:
  "a_buf (put s v a) = (a_buf a)(s := v)" "a_scores (put s v a) = a_scores a" "a_K (put s v a) = a_K a"
  "a_V (put s v a) = a_V a" "a_kv (put s v a) = a_kv a"
  by (simp_all add: put_def)

lemma abstr_put:
  assumes "\<not> hidden out" "slot_size P out \<le> length (C out)" "length bs = slot_size P out"
  shows "abstr P (poke (out, 0, slot_size P out) bs C) kv = put out bs (abstr P C kv)"
  using assms by (auto simp: abstr_def put_def poke_def fun_eq_iff)

lemma launch_put:
  assumes P: "setting_ok P" and k: "k \<in> set kernels" and a: "arg \<in> set (map fst args_plan)" "length args = kernel_arity k"
    and io: "\<And>st. state_ok P st \<Longrightarrow> abs_of P st = x \<Longrightarrow>
      kernel_io (rd32 (s_base P) (vmem (sh (rctx st)))) k args (unat g) =
        Some (sc, map (at (s_reg P)) ins, [at (s_reg P) (out, 0, slot_size P out)])"
    and ps: "list_all (inside (s_reg P)) ins" "\<not> hidden out" "0 < slot_size P out" "\<forall>k\<in>set kernels. out \<noteq> Buf k"
    and vals: "\<And>st. state_ok P st \<Longrightarrow> abs_of P st = x \<Longrightarrow> map (peek (held (s_reg P) (rctx st))) ins = xs"
  shows "does P (on_ctx (\<lambda>ctx. launch_op (s_mach P) ctx (ws_off (s_ws P) k) (ws_off (s_ws P) arg) args (g, 1, 1) (32, 1, 1))) x
    (put out (result (s_kf P) k sc xs (slot_size P out)) x)"
proof (rule launch_does [OF P k a, where ins = ins and outs = "[(out, 0, slot_size P out)]" and sc = sc and xs = xs])
  show "list_all (inside (s_reg P)) [(out, 0, slot_size P out)]"
    using ps(3) setting_okD(4) [OF P, of out] by (simp add: inside_def)
  fix C kv assume l: "\<And>s. length (C s) = snd (s_reg P s)" and x: "abstr P C kv = x"
  show "abstr P (pokes (s_kf P k sc xs) 0 [(out, 0, slot_size P out)] C) kv = put out (result (s_kf P) k sc xs (slot_size P out)) x"
    using abstr_put [OF ps(2), of P C] setting_okD(4) [OF P, of out] l x by (simp add: result_def)
qed (use io ps vals in auto)

end
