(* ===== verification/Transformer_Layer.thy ===== *)
theory Transformer_Layer
  imports Transformer_Run
begin

text \<open>
  The launches of \<open>lib/src/transformer.c\<close>, each against the value it is meant to compute.
\<close>

subsection \<open>Operands\<close>

definition visible :: "setting \<Rightarrow> slot \<Rightarrow> nat \<Rightarrow> bool" where
  "visible P s n \<longleftrightarrow> \<not> hidden s \<and> slot_size P s = n \<and> 0 < n"

definition writable :: "setting \<Rightarrow> slot \<Rightarrow> nat \<Rightarrow> bool" where
  "writable P s n \<longleftrightarrow> visible P s n \<and> s \<notin> Buf ` set kernels"

lemma writable_visible: "writable P s n \<Longrightarrow> visible P s n"
  by (simp add: writable_def)

lemma ucast_of_nat32 [simp]: "ucast (word_of_nat x :: u64) = (word_of_nat x :: u32)"
  by (simp add: bit_eq_iff bit_simps)

lemma peek_visible:
  assumes "\<not> hidden s" "d + n \<le> slot_size P s"
  shows "peek C (s, d, n) = take n (drop d (a_buf (abstr P C kv) s))"
  using assms by (simp add: peek_def abstr_def drop_take min_def)

lemma peek_whole: "visible P s n \<Longrightarrow> peek C (s, 0, n) = a_buf (abstr P C kv) s"
  by (auto simp: visible_def peek_def abstr_def)

lemma visible_inside: "setting_ok P \<Longrightarrow> visible P s n \<Longrightarrow> inside (s_reg P) (s, 0, n)"
  using setting_okD(4) [of P s] by (simp add: visible_def inside_def)

lemma part_inside: "setting_ok P \<Longrightarrow> visible P s z \<Longrightarrow> 0 < n \<Longrightarrow> d + n \<le> z \<Longrightarrow> inside (s_reg P) (s, d, n)"
  using setting_okD(4) [of P s] by (simp add: visible_def inside_def)

text \<open>A launch with whole objects as operands and result.\<close>

lemma launch_whole:
  assumes P: "setting_ok P" and k: "k \<in> set kernels" and a: "arg \<in> set (map fst args_plan)" "length args = kernel_arity k"
    and io: "\<And>rd. kernel_io rd k args (unat g) = Some (sc, map (\<lambda>(s, n). (word_of_nat (fst (s_reg P s)), n)) ins, [(word_of_nat (fst (s_reg P out)), n)])"
    and v: "list_all (\<lambda>(s, n). visible P s n) ins" "writable P out n"
  shows "does P (on_ctx (\<lambda>ctx. launch_op (s_mach P) ctx (ws_off (s_ws P) k) (ws_off (s_ws P) arg) args (g, 1, 1) (32, 1, 1))) x
    (put out (result (s_kf P) k sc (map (\<lambda>(s, n). a_buf x s) ins) n) x)"
proof -
  have w: "visible P out n" "slot_size P out = n" using v(2) by (auto simp: writable_def visible_def)
  have "does P (on_ctx (\<lambda>ctx. launch_op (s_mach P) ctx (ws_off (s_ws P) k) (ws_off (s_ws P) arg) args (g, 1, 1) (32, 1, 1))) x
    (put out (result (s_kf P) k sc (map (\<lambda>(s, n). a_buf x s) ins) (slot_size P out)) x)"
  proof (rule launch_put [OF P k a, where ins = "map (\<lambda>(s, n). (s, 0, n)) ins"])
    show "list_all (inside (s_reg P)) (map (\<lambda>(s, n). (s, 0, n)) ins)"
      using v(1) visible_inside [OF P] by (auto simp: list_all_iff)
    fix st assume "state_ok P st" "abs_of P st = x"
    then show "map (peek (held (s_reg P) (rctx st))) (map (\<lambda>(s, n). (s, 0, n)) ins) = map (\<lambda>(s, n). a_buf x s) ins"
      using v(1) peek_whole by (fastforce simp: list_all_iff)
    show "kernel_io (rd32 (s_base P) (vmem (sh (rctx st)))) k args (unat g) =
        Some (sc, map (at (s_reg P)) (map (\<lambda>(s, n). (s, 0, n)) ins), [at (s_reg P) (out, 0, slot_size P out)])"
      by (simp add: io at_def w(2) o_def case_prod_unfold)
  qed (use v(2) in \<open>auto simp: writable_def visible_def\<close>)
  then show ?thesis by (simp only: w(2))
qed

subsection \<open>Kernels with whole objects\<close>

abbreviation off :: "setting \<Rightarrow> slot \<Rightarrow> u64" where
  "off P s \<equiv> word_of_nat (fst (s_reg P s))"

lemma in_plans [simp]:
  "kbin_rmsnorm \<in> set kernels" "kbin_gemm \<in> set kernels" "kbin_broadcast_add \<in> set kernels" "kbin_silu \<in> set kernels"
  "kbin_vmul \<in> set kernels" "kbin_rope \<in> set kernels" "kbin_embedding \<in> set kernels" "kbin_argmax \<in> set kernels"
  "kbin_qkt_decode \<in> set kernels" "kbin_softmax_decode \<in> set kernels" "kbin_pv_decode \<in> set kernels"
  "args_rmsnorm \<in> fst ` set args_plan" "args_gemm \<in> fst ` set args_plan" "args_broadcast_add \<in> fst ` set args_plan"
  "args_silu \<in> fst ` set args_plan" "args_vmul \<in> fst ` set args_plan" "args_rope \<in> fst ` set args_plan"
  "args_embedding \<in> fst ` set args_plan" "args_argmax \<in> fst ` set args_plan" "args_qkt_decode \<in> fst ` set args_plan"
  "args_softmax_decode \<in> fst ` set args_plan" "args_pv_decode \<in> fst ` set args_plan"
  by (simp_all add: kernels_def kernel_plan_def args_plan_def)

lemma grid_covers: "unat (n :: u32) \<le> 2 ^ 31 \<Longrightarrow> unat n \<le> 32 * unat ((n + 31) div 32)"
proof -
  assume "unat n \<le> 2 ^ 31"
  then have "unat (n + 31) = unat n + 31" by (simp add: unat_word_ariths)
  then have "unat ((n + 31) div 32) = (unat n + 31) div 32" by (simp add: unat_div)
  then show ?thesis by simp
qed

lemma does_rmsnorm:
  assumes P: "setting_ok P" and v: "visible P i 3584" "visible P w 3584" "writable P out 3584"
  shows "does P (on_ctx (op_rmsnorm (s_mach P) (s_ws P) (off P i) (off P out) (off P w))) x
    (put out (spec_rmsnorm (s_kf P) (mfpu (s_mach P)) (a_buf x i) (a_buf x w)) x)"
proof -
  let ?fp = "mfpu (s_mach P)"
  let ?args = "rmsnorm_args (word_of_nat (fst (s_reg P i))) (word_of_nat (fst (s_reg P out))) (word_of_nat (fst (s_reg P w)))
    896 (f_div ?fp F_ONE (f_of_int ?fp 896)) 0x358637BD"
  have "does P (on_ctx (\<lambda>ctx. launch_op (s_mach P) ctx (ws_off (s_ws P) kbin_rmsnorm) (ws_off (s_ws P) args_rmsnorm) ?args (1, 1, 1) (32, 1, 1))) x
    (put out (result (s_kf P) kbin_rmsnorm [896, f_div ?fp F_ONE (f_of_int ?fp 896), 0x358637BD]
       (map (\<lambda>(s, n). a_buf x s) [(i, 3584 :: nat), (w, 3584 :: nat)]) 3584) x)"
    using v by (intro launch_whole [OF P]) (simp_all add: args_defs kernel_arity_def kernel_io_def io_rmsnorm_def)
  moreover have "op_rmsnorm (s_mach P) (s_ws P) (off P i) (off P out) (off P w) =
      (\<lambda>ctx. launch_op (s_mach P) ctx (ws_off (s_ws P) kbin_rmsnorm) (ws_off (s_ws P) args_rmsnorm) ?args (1, 1, 1) (32, 1, 1))"
    using setting_okD(2) [OF P] by (simp add: fun_eq_iff op_rmsnorm_def ONE_WARP_def transformer_default_config_def Let_def)
  ultimately show ?thesis by (simp add: spec_rmsnorm_def)
qed

lemma does_gemm:
  assumes P: "setting_ok P" and N: "unat N \<le> 2 ^ 31"
    and v: "visible P i (4 * unat K)" "visible P w (4 * (unat K * unat N))" "writable P out (4 * unat N)"
  shows "does P (on_ctx (op_gemm (s_mach P) (s_ws P) (off P i) (off P w) (off P out) 1 K N)) x
    (put out (spec_gemm (s_kf P) K N (a_buf x i) (a_buf x w)) x)"
proof -
  let ?args = "gemm_args (word_of_nat (fst (s_reg P i))) (word_of_nat (fst (s_reg P w))) (word_of_nat (fst (s_reg P out))) 1 K N"
  have "does P (on_ctx (\<lambda>ctx. launch_op (s_mach P) ctx (ws_off (s_ws P) kbin_gemm) (ws_off (s_ws P) args_gemm) ?args ((N + 31) div 32, 1, 1) (32, 1, 1))) x
    (put out (result (s_kf P) kbin_gemm [1, K, N] (map (\<lambda>(s, n). a_buf x s) [(i, 4 * unat K), (w, 4 * (unat K * unat N))]) (4 * unat N)) x)"
    using v grid_covers [OF N] by (intro launch_whole [OF P]) (simp_all add: args_defs kernel_arity_def kernel_io_def io_gemm_def)
  moreover have "op_gemm (s_mach P) (s_ws P) (off P i) (off P w) (off P out) 1 K N =
      (\<lambda>ctx. launch_op (s_mach P) ctx (ws_off (s_ws P) kbin_gemm) (ws_off (s_ws P) args_gemm) ?args ((N + 31) div 32, 1, 1) (32, 1, 1))"
    by (simp add: fun_eq_iff op_gemm_def calc_dispatch_1warp_per_block_def Let_def)
  ultimately show ?thesis by (simp add: spec_gemm_def)
qed

lemma does_add:
  assumes P: "setting_ok P" and N: "unat N \<le> 2 ^ 31"
    and v: "visible P i (4 * unat N)" "visible P b (4 * unat N)" "writable P out (4 * unat N)"
  shows "does P (on_ctx (op_broadcast_add (s_mach P) (s_ws P) (off P i) (off P b) (off P out) 1 N)) x
    (put out (spec_add (s_kf P) N (a_buf x i) (a_buf x b)) x)"
proof -
  let ?args = "broadcast_add_args (word_of_nat (fst (s_reg P i))) (word_of_nat (fst (s_reg P out))) (word_of_nat (fst (s_reg P b))) 1 N"
  have "does P (on_ctx (\<lambda>ctx. launch_op (s_mach P) ctx (ws_off (s_ws P) kbin_broadcast_add) (ws_off (s_ws P) args_broadcast_add) ?args ((N + 31) div 32, 1, 1) (32, 1, 1))) x
    (put out (result (s_kf P) kbin_broadcast_add [1, N] (map (\<lambda>(s, n). a_buf x s) [(i, 4 * unat N), (b, 4 * unat N)]) (4 * unat N)) x)"
    using v grid_covers [OF N] by (intro launch_whole [OF P]) (simp_all add: args_defs kernel_arity_def kernel_io_def io_broadcast_add_def)
  moreover have "op_broadcast_add (s_mach P) (s_ws P) (off P i) (off P b) (off P out) 1 N =
      (\<lambda>ctx. launch_op (s_mach P) ctx (ws_off (s_ws P) kbin_broadcast_add) (ws_off (s_ws P) args_broadcast_add) ?args ((N + 31) div 32, 1, 1) (32, 1, 1))"
    by (simp add: fun_eq_iff op_broadcast_add_def calc_dispatch_1warp_per_block_def Let_def)
  ultimately show ?thesis by (simp add: spec_add_def)
qed

lemma does_silu:
  assumes P: "setting_ok P" and v: "visible P i 19456" "writable P out 19456"
  shows "does P (on_ctx (op_silu (s_mach P) (s_ws P) (off P i) (off P out) 4864)) x (put out (spec_silu (s_kf P) (a_buf x i)) x)"
proof -
  let ?args = "silu_args (word_of_nat (fst (s_reg P i))) (word_of_nat (fst (s_reg P out))) 4864"
  have "does P (on_ctx (\<lambda>ctx. launch_op (s_mach P) ctx (ws_off (s_ws P) kbin_silu) (ws_off (s_ws P) args_silu) ?args (152, 1, 1) (32, 1, 1))) x
    (put out (result (s_kf P) kbin_silu [4864] (map (\<lambda>(s, n). a_buf x s) [(i, 19456 :: nat)]) 19456) x)"
    using v by (intro launch_whole [OF P]) (simp_all add: args_defs kernel_arity_def kernel_io_def io_silu_def)
  moreover have "op_silu (s_mach P) (s_ws P) (off P i) (off P out) 4864 =
      (\<lambda>ctx. launch_op (s_mach P) ctx (ws_off (s_ws P) kbin_silu) (ws_off (s_ws P) args_silu) ?args (152, 1, 1) (32, 1, 1))"
    by (simp add: fun_eq_iff op_silu_def calc_dispatch_1warp_per_block_def Let_def)
  ultimately show ?thesis by (simp add: spec_silu_def)
qed

lemma does_vmul:
  assumes P: "setting_ok P" and v: "visible P i 19456" "visible P j 19456" "writable P out 19456"
  shows "does P (on_ctx (op_vmul (s_mach P) (s_ws P) (off P i) (off P j) (off P out) 4864)) x
    (put out (spec_vmul (s_kf P) (a_buf x i) (a_buf x j)) x)"
proof -
  let ?args = "vmul_args (word_of_nat (fst (s_reg P i))) (word_of_nat (fst (s_reg P j))) (word_of_nat (fst (s_reg P out))) 4864"
  have "does P (on_ctx (\<lambda>ctx. launch_op (s_mach P) ctx (ws_off (s_ws P) kbin_vmul) (ws_off (s_ws P) args_vmul) ?args (1, 1, 1) (32, 1, 1))) x
    (put out (result (s_kf P) kbin_vmul [4864] (map (\<lambda>(s, n). a_buf x s) [(i, 19456 :: nat), (j, 19456 :: nat)]) 19456) x)"
    using v by (intro launch_whole [OF P]) (simp_all add: args_defs kernel_arity_def kernel_io_def io_vmul_def)
  moreover have "op_vmul (s_mach P) (s_ws P) (off P i) (off P j) (off P out) 4864 =
      (\<lambda>ctx. launch_op (s_mach P) ctx (ws_off (s_ws P) kbin_vmul) (ws_off (s_ws P) args_vmul) ?args (1, 1, 1) (32, 1, 1))"
    by (simp add: fun_eq_iff op_vmul_def ONE_WARP_def Let_def)
  ultimately show ?thesis by (simp add: spec_vmul_def)
qed

end
