(* ===== verification/Transformer_Attn.thy ===== *)
theory Transformer_Attn
  imports Transformer_Layer
begin

text \<open>
  The launches that read or write parts of an object: the rotation, the attention over the rows of the
  cache, the embedding and the choice of the token.
\<close>

lemma rd_part:
  assumes "state_ok P st" "inside (s_reg P) (s, d, n)"
  shows "rd32 (s_base P) (vmem (sh (rctx st))) (word_of_nat (fst (s_reg P s) + d)) n = Some (peek (held (s_reg P) (rctx st)) (s, d, n))"
proof -
  have m: "mem_ok (s_base P) (s_from P) (s_reg P) (rctx st)" using assms(1) by (simp add: state_ok_def)
  then show ?thesis
    using slot_load [OF m assms(2)] part_address [OF m assms(2)] by (simp add: rd32_def at_def del: of_nat_add)
qed

lemma does_cong: "(\<And>st. state_ok P st \<Longrightarrow> abs_of P st = a \<Longrightarrow> f st = g st) \<Longrightarrow> does P g a b \<Longrightarrow> does P f a b"
  by (simp add: does_def)

subsection \<open>Rotation\<close>

lemma visible_table: "visible P (Buf sincos_off) 32768"
  by (simp add: visible_def args_plan_def)

lemma does_rope:
  assumes P: "setting_ok P" and v: "writable P i (4 * (unat heads * 64))"
  shows "does P (on_ctx (op_rope (s_mach P) (s_ws P) (off P i) heads (word_of_nat (s_pos P)))) x
    (put i (spec_rope (s_kf P) (a_buf x (Buf sincos_off)) heads (s_pos P) (a_buf x i)) x)"
proof -
  let ?pos = "s_pos P" and ?n = "4 * (unat heads * 64)"
  let ?args = "rope_args (word_of_nat (fst (s_reg P i))) (word_of_nat (fst (s_reg P (Buf sincos_off)))) heads 64 (word_of_nat ?pos)"
  let ?ins = "[(i, 0, ?n), (Buf sincos_off, 256 * ?pos, 256)]"
  have pos: "?pos < 128" using setting_okD(3) [OF P] .
  have table_row: "word_of_nat a + word_of_nat ?pos * 64 * 4 = (word_of_nat (a + 256 * ?pos) :: u32)" for a by simp
  have w: "visible P i ?n" "slot_size P i = ?n" using v by (auto simp: writable_def visible_def)
  have "does P (on_ctx (\<lambda>ctx. launch_op (s_mach P) ctx (ws_off (s_ws P) kbin_rope) (ws_off (s_ws P) args_rope) ?args (1, 1, 1) (32, 1, 1))) x
    (put i (result (s_kf P) kbin_rope [heads, 64, word_of_nat ?pos] [a_buf x i, take 256 (drop (256 * ?pos) (a_buf x (Buf sincos_off)))]
       (slot_size P i)) x)"
  proof (rule launch_put [OF P, where ins = ?ins])
    show "list_all (inside (s_reg P)) ?ins"
      using visible_inside [OF P w(1)] part_inside [OF P visible_table, of 256 "256 * ?pos"] pos by simp
    fix st assume "state_ok P st" "abs_of P st = x"
    then show "map (peek (held (s_reg P) (rctx st))) ?ins = [a_buf x i, take 256 (drop (256 * ?pos) (a_buf x (Buf sincos_off)))]"
      using peek_whole [OF w(1)] peek_visible [of "Buf sincos_off" "256 * ?pos" 256 P] visible_table [of P] pos
      by (auto simp: visible_def)
    show "kernel_io (rd32 (s_base P) (vmem (sh (rctx st)))) kbin_rope ?args (unat 1) =
        Some ([heads, 64, word_of_nat ?pos], map (at (s_reg P)) ?ins, [at (s_reg P) (i, 0, slot_size P i)])"
      using table_row by (simp add: args_defs kernel_io_def io_rope_def at_def w(2))
  qed (use v in \<open>auto simp: writable_def visible_def args_defs kernel_arity_def\<close>)
  moreover have "op_rope (s_mach P) (s_ws P) (off P i) heads (word_of_nat ?pos) =
      (\<lambda>ctx. launch_op (s_mach P) ctx (ws_off (s_ws P) kbin_rope) (ws_off (s_ws P) args_rope) ?args (1, 1, 1) (32, 1, 1))"
    using setting_okD(2,6) [OF P]
    by (simp add: fun_eq_iff op_rope_def ONE_WARP_def transformer_default_config_def Let_def)
  ultimately show ?thesis by (simp add: spec_rope_def w(2))
qed

subsection \<open>Rows of results\<close>

lemma pokes_append: "pokes f j (ps @ qs) C = pokes f (j + length ps) qs (pokes f j ps C)"
  by (induction ps arbitrary: j C) simp_all

lemma pokes_rows:
  assumes "g * w \<le> length (C s)" "n \<le> w"
  shows "length (pokes f 0 (map (\<lambda>h. (s, h * w, n)) [0..<g]) C s) = length (C s)"
    "h < g \<Longrightarrow> take n (drop (h * w) (pokes f 0 (map (\<lambda>h. (s, h * w, n)) [0..<g]) C s)) = map (f h) [0..<n]"
  using assms(1)
proof (induction g arbitrary: h)
  case (Suc g)
  let ?C = "pokes f 0 (map (\<lambda>h. (s, h * w, n)) [0..<g]) C" and ?bs = "map (f g) [0..<n]"
  have e: "pokes f 0 (map (\<lambda>h. (s, h * w, n)) [0..<Suc g]) C = poke (s, g * w, n) ?bs ?C"
    by (simp add: pokes_append)
  { case 1
    have l: "length (?C s) = length (C s)" using Suc.IH(1) 1 by simp
    show ?case unfolding e using l 1 assms(2) by (simp add: poke_def)
  next
    case 2
    have l: "length (?C s) = length (C s)" using Suc.IH(1) 2 by simp
    have b: "g * w + length ?bs \<le> length (?C s)" using l 2(2) assms(2) by simp
    show ?case
    proof (cases "h = g")
      case True
      then show ?thesis unfolding e using b by (simp add: poke_def)
    next
      case False
      then have h: "h < g" using 2 by simp
      then have "(h + 1) * w \<le> g * w" by (intro mult_le_mono1) simp
      then have "take n (drop (h * w) (take (g * w) (?C s) @ ?bs @ drop (g * w + length ?bs) (?C s))) = take n (drop (h * w) (?C s))"
        using assms(2) b by (intro splice_other) auto
      then show ?thesis unfolding e using Suc.IH(2) [OF h] 2(2) by (simp add: poke_def)
    qed
  }
qed simp_all

abbreviation score_parts :: "setting \<Rightarrow> part list" where
  "score_parts P \<equiv> map (\<lambda>h. (Buf SCRATCH_SCORES, h * 512, 4 * (s_pos P + 1))) [0..<14]"

lemma abstr_scores:
  assumes "setting_ok P" "length (C (Buf SCRATCH_SCORES)) = snd (s_reg P (Buf SCRATCH_SCORES))"
  shows "abstr P (pokes f 0 (score_parts P) C) kv = abstr P C kv\<lparr>a_scores := map (\<lambda>h. map (f h) [0..<4 * (s_pos P + 1)]) [0..<14]\<rparr>"
proof -
  let ?C = "pokes f 0 (score_parts P) C"
  have "14 * 512 \<le> length (C (Buf SCRATCH_SCORES))" using setting_okD(4) [OF assms(1), of "Buf SCRATCH_SCORES"] assms(2) by simp
  then have r: "take (4 * (s_pos P + 1)) (drop (h * 512) (?C (Buf SCRATCH_SCORES))) = map (f h) [0..<4 * (s_pos P + 1)]" if "h < 14" for h
    using pokes_rows(2) [of 14 512 C "Buf SCRATCH_SCORES" "4 * (s_pos P + 1)" h f] setting_okD(3) [OF assms(1)] that by simp
  moreover have o: "?C s = C s" if "s \<noteq> Buf SCRATCH_SCORES" for s
    using that by (intro pokes_other) auto
  moreover have "(if hidden s then [] else take (slot_size P s) (?C s)) = (if hidden s then [] else take (slot_size P s) (C s))" for s
    using o by (cases "s = Buf SCRATCH_SCORES") auto
  ultimately show ?thesis unfolding abstr_def by (simp add: mult.commute)
qed

lemma score_parts_inside: "setting_ok P \<Longrightarrow> list_all (inside (s_reg P)) (score_parts P)"
  using setting_okD(3) [of P] setting_okD(4) [of P "Buf SCRATCH_SCORES"] by (auto simp: list_all_iff inside_def)

lemma score_rows_at:
  "rows_at (word_of_nat (fst (s_reg P (Buf SCRATCH_SCORES)))) 512 (4 * (s_pos P + 1)) 14 = map (at (s_reg P)) (score_parts P)"
  by (simp add: rows_at_def at_def del: upt_Suc)

lemma peek_scores: "abs_of P st = x \<Longrightarrow> map (peek (held (s_reg P) (rctx st))) (score_parts P) = a_scores x"
  by (auto simp: abstr_def peek_def mult.commute)

subsection \<open>The rows of the cache\<close>

definition cache_parts :: "slot \<Rightarrow> nat \<Rightarrow> nat \<Rightarrow> part list" where
  "cache_parts s L pos = concat (map (\<lambda>h. map (\<lambda>p. (s, row_at L h p, 256)) [0..<pos + 1]) [0..<2])"

lemma upto2: "[0..<2] = [0, Suc 0]"
  by (simp add: upt_rec)

lemma cache_rows_at:
  "cache_rows (word_of_nat (a + L * 65536)) 128 64 2 (pos + 1) =
     map (\<lambda>(s, d, n). (word_of_nat (a + d), n)) (cache_parts s L pos)"
  by (simp add: cache_rows_def rows_at_def cache_parts_def row_at_def upto2 algebra_simps del: upt_Suc)

lemma cache_parts_inside:
  assumes "24 * 2 * 128 * 256 \<le> snd (reg s)" "L < 24" "pos < 128"
  shows "list_all (inside reg) (cache_parts s L pos)"
proof -
  have "row_at L h p + 256 \<le> snd (reg s)" if "h < 2" "p < 128" for h p
  proof -
    have "L \<le> 23" "h \<le> 1" "p \<le> 127" using assms(2) that by simp_all
    then have "(L * 2 + h) * 128 + p < 6144" by simp
    then have "((L * 2 + h) * 128 + p + 1) * 256 \<le> 6144 * 256" by (intro mult_le_mono1) simp
    then show ?thesis using assms(1) by (simp add: row_at_def)
  qed
  then show ?thesis using assms(3) by (auto simp: cache_parts_def list_all_iff inside_def)
qed

lemma peek_cache:
  assumes "L < 24" "pos < 128"
  shows "map (peek C) (cache_parts s L pos) = rows_upto (cache_row (C s)) L pos"
  using assms by (simp add: cache_parts_def rows_upto_def cache_row_def row_ok_def peek_def upto2 del: upt_Suc)

text \<open>Where a layer of the cache starts.\<close>

lemma layer_offsets:
  assumes "kv_fits P kv" "L < 24"
  shows "kv_cache_K_off kv (word_of_nat L) = Some (word_of_nat (fst (s_reg P K_cache) + L * 65536))"
    "kv_cache_V_off kv (word_of_nat L) = Some (word_of_nat (fst (s_reg P V_cache) + L * 65536))"
proof -
  have u: "unat (word_of_nat L :: u32) = L" using assms(2) by (simp add: unat_of_nat)
  have l: "(word_of_nat L :: u32) < 24" using assms(2) by (simp add: word_less_nat_alt u)
  have "ucast (word_of_nat L :: u32) = (word_of_nat (unat (word_of_nat L :: u32)) :: u64)" by simp
  then have c: "ucast (word_of_nat L :: u32) = (word_of_nat L :: u64)" unfolding u .
  show "kv_cache_K_off kv (word_of_nat L) = Some (word_of_nat (fst (s_reg P K_cache) + L * 65536))"
    "kv_cache_V_off kv (word_of_nat L) = Some (word_of_nat (fst (s_reg P V_cache) + L * 65536))"
    using assms(1) l c by (simp_all add: kv_fits_def kv_cache_K_off_def kv_cache_V_off_def)
qed

lemma cache_size: "slot_size P K_cache = 24 * 2 * 128 * 256" "slot_size P V_cache = 24 * 2 * 128 * 256"
  by (simp_all add: slot_size_def)

lemma unat_pos: "setting_ok P \<Longrightarrow> unat (word_of_nat (s_pos P) :: u32) = s_pos P"
  using setting_okD(3) [of P] by (simp add: unat_of_nat)

subsection \<open>Attention\<close>

lemma does_qkt:
  assumes P: "setting_ok P" and L: "L < 24"
  shows "does P (\<lambda>st. do { k \<leftarrow> kv_cache_K_off (rkv st) (word_of_nat L);
      on_ctx (op_qkt_decode (s_mach P) (s_ws P) (off P (Buf SCRATCH_Q)) k (off P (Buf SCRATCH_SCORES)) (word_of_nat (s_pos P))
        (attn_scale (s_mach P) (s_ws P))) st }) x
    (x\<lparr>a_scores := spec_scores (s_kf P) (mfpu (s_mach P)) (s_pos P) (a_buf x (Buf SCRATCH_Q)) (rows_upto (a_K x) L (s_pos P))\<rparr>)"
proof -
  let ?fp = "mfpu (s_mach P)" and ?pos = "s_pos P" and ?K = "fst (s_reg P K_cache) + L * 65536"
  let ?scale = "f_div ?fp F_ONE (sqrtf ?fp (f_of_int ?fp 64))"
  let ?args = "qkt_decode_args (word_of_nat (fst (s_reg P (Buf SCRATCH_Q)))) (word_of_nat ?K)
    (word_of_nat (fst (s_reg P (Buf SCRATCH_SCORES)))) (word_of_nat ?pos) 128 64 7 ?scale"
  let ?ins = "(Buf SCRATCH_Q, 0, 3584) # cache_parts K_cache L ?pos"
  let ?sc = "[word_of_nat ?pos, 64, 7, ?scale]" and ?xs = "a_buf x (Buf SCRATCH_Q) # rows_upto (a_K x) L ?pos"
  have pos: "?pos < 128" using setting_okD(3) [OF P] .
  have Q: "visible P (Buf SCRATCH_Q) 3584" by (simp add: visible_def args_plan_def)
  have "does P (on_ctx (\<lambda>ctx. launch_op (s_mach P) ctx (ws_off (s_ws P) kbin_qkt_decode) (ws_off (s_ws P) args_qkt_decode) ?args (14, 1, 1) (32, 1, 1))) x
    (x\<lparr>a_scores := spec_rows (s_kf P) kbin_qkt_decode ?sc ?xs (4 * (?pos + 1))\<rparr>)"
  proof (rule launch_does [OF P, where ins = ?ins and outs = "score_parts P" and sc = ?sc and xs = ?xs])
    show "list_all (inside (s_reg P)) ?ins"
      using visible_inside [OF P Q] cache_parts_inside [of "s_reg P" K_cache L ?pos] setting_okD(4) [OF P, of K_cache] L pos
      by (simp add: cache_size)
    show "list_all (inside (s_reg P)) (score_parts P)" using score_parts_inside [OF P] .
    fix st assume x: "abs_of P st = x"
    have "a_K x = cache_row (held (s_reg P) (rctx st) K_cache)" unfolding x [symmetric] by (simp add: abstr_def)
    then show "map (peek (held (s_reg P) (rctx st))) ?ins = ?xs"
      using peek_whole [OF Q, of "held (s_reg P) (rctx st)" "rkv st"] peek_cache [OF L pos] x by simp
    show "kernel_io (rd32 (s_base P) (vmem (sh (rctx st)))) kbin_qkt_decode ?args (unat (14 :: u32)) =
        Some (?sc, map (at (s_reg P)) ?ins, map (at (s_reg P)) (score_parts P))"
      using score_rows_at [of P] cache_rows_at [of "fst (s_reg P K_cache)" L ?pos K_cache]
      by (simp add: args_defs kernel_io_def io_qkt_decode_def unat_pos [OF P] at_def cache_parts_def case_prod_unfold del: upt_Suc of_nat_add)
  next
    fix C kv assume l: "\<And>s. length (C s) = snd (s_reg P s)" and x: "abstr P C kv = x"
    show "abstr P (pokes (s_kf P kbin_qkt_decode ?sc ?xs) 0 (score_parts P) C) kv =
        x\<lparr>a_scores := spec_rows (s_kf P) kbin_qkt_decode ?sc ?xs (4 * (?pos + 1))\<rparr>"
      using abstr_scores [OF P, of C "s_kf P kbin_qkt_decode ?sc ?xs" kv] l x by (simp add: spec_rows_def)
  qed (auto simp: args_defs kernel_arity_def kernels_def kernel_plan_def args_plan_def)
  then have d: "does P (on_ctx (\<lambda>ctx. launch_op (s_mach P) ctx (ws_off (s_ws P) kbin_qkt_decode) (ws_off (s_ws P) args_qkt_decode) ?args (14, 1, 1) (32, 1, 1))) x
    (x\<lparr>a_scores := spec_scores (s_kf P) ?fp ?pos (a_buf x (Buf SCRATCH_Q)) (rows_upto (a_K x) L ?pos)\<rparr>)"
    by (simp only: spec_scores_def)
  show ?thesis
  proof (rule does_cong [OF _ d])
    fix st assume "state_ok P st"
    then have "kv_fits P (rkv st)" by (simp add: state_ok_def)
    then show "(do { k \<leftarrow> kv_cache_K_off (rkv st) (word_of_nat L);
        on_ctx (op_qkt_decode (s_mach P) (s_ws P) (off P (Buf SCRATCH_Q)) k (off P (Buf SCRATCH_SCORES)) (word_of_nat ?pos)
          (attn_scale (s_mach P) (s_ws P))) st }) =
      on_ctx (\<lambda>ctx. launch_op (s_mach P) ctx (ws_off (s_ws P) kbin_qkt_decode) (ws_off (s_ws P) args_qkt_decode) ?args (14, 1, 1) (32, 1, 1)) st"
      using layer_offsets(1) [OF _ L] setting_okD(2) [OF P]
      by (simp add: on_ctx_def op_qkt_decode_def attn_scale_def transformer_default_config_def Let_def del: of_nat_add)
  qed
qed

lemma does_softmax:
  assumes P: "setting_ok P"
  shows "does P (on_ctx (op_softmax_decode (s_mach P) (s_ws P) (off P (Buf SCRATCH_SCORES)) (word_of_nat (s_pos P)))) x
    (x\<lparr>a_scores := spec_softmax (s_kf P) (s_pos P) (a_scores x)\<rparr>)"
proof -
  let ?pos = "s_pos P" and ?sc = "[word_of_nat (s_pos P)] :: u32 list"
  let ?args = "softmax_decode_args (word_of_nat (fst (s_reg P (Buf SCRATCH_SCORES)))) (word_of_nat ?pos) 128"
  have "does P (on_ctx (\<lambda>ctx. launch_op (s_mach P) ctx (ws_off (s_ws P) kbin_softmax_decode) (ws_off (s_ws P) args_softmax_decode) ?args (14, 1, 1) (32, 1, 1))) x
    (x\<lparr>a_scores := spec_rows (s_kf P) kbin_softmax_decode ?sc (a_scores x) (4 * (?pos + 1))\<rparr>)"
  proof (rule launch_does [OF P, where ins = "score_parts P" and outs = "score_parts P" and sc = ?sc and xs = "a_scores x"])
    show "list_all (inside (s_reg P)) (score_parts P)" using score_parts_inside [OF P] .
    then show "list_all (inside (s_reg P)) (score_parts P)" .
    fix st assume "abs_of P st = x"
    then show "map (peek (held (s_reg P) (rctx st))) (score_parts P) = a_scores x" by (rule peek_scores)
    show "kernel_io (rd32 (s_base P) (vmem (sh (rctx st)))) kbin_softmax_decode ?args (unat (14 :: u32)) =
        Some (?sc, map (at (s_reg P)) (score_parts P), map (at (s_reg P)) (score_parts P))"
      using score_rows_at [of P]
      by (simp add: args_defs kernel_io_def io_softmax_decode_def unat_pos [OF P] del: upt_Suc)
  next
    fix C kv assume l: "\<And>s. length (C s) = snd (s_reg P s)" and x: "abstr P C kv = x"
    show "abstr P (pokes (s_kf P kbin_softmax_decode ?sc (a_scores x)) 0 (score_parts P) C) kv =
        x\<lparr>a_scores := spec_rows (s_kf P) kbin_softmax_decode ?sc (a_scores x) (4 * (?pos + 1))\<rparr>"
      using abstr_scores [OF P, of C "s_kf P kbin_softmax_decode ?sc (a_scores x)" kv] l x by (simp add: spec_rows_def)
  qed (auto simp: args_defs kernel_arity_def kernels_def kernel_plan_def args_plan_def)
  moreover have "op_softmax_decode (s_mach P) (s_ws P) (off P (Buf SCRATCH_SCORES)) (word_of_nat ?pos) =
      (\<lambda>ctx. launch_op (s_mach P) ctx (ws_off (s_ws P) kbin_softmax_decode) (ws_off (s_ws P) args_softmax_decode) ?args (14, 1, 1) (32, 1, 1))"
    using setting_okD(2) [OF P] by (simp add: fun_eq_iff op_softmax_decode_def transformer_default_config_def)
  ultimately show ?thesis by (simp only: spec_softmax_def)
qed

lemma does_pv:
  assumes P: "setting_ok P" and L: "L < 24"
  shows "does P (\<lambda>st. do { v \<leftarrow> kv_cache_V_off (rkv st) (word_of_nat L);
      on_ctx (op_pv_decode (s_mach P) (s_ws P) (off P (Buf SCRATCH_SCORES)) v (off P (Buf SCRATCH_X)) (word_of_nat (s_pos P))) st }) x
    (put (Buf SCRATCH_X) (spec_pv (s_kf P) (s_pos P) (a_scores x) (rows_upto (a_V x) L (s_pos P))) x)"
proof -
  let ?pos = "s_pos P" and ?V = "fst (s_reg P V_cache) + L * 65536"
  let ?args = "pv_decode_args (word_of_nat (fst (s_reg P (Buf SCRATCH_SCORES)))) (word_of_nat ?V)
    (word_of_nat (fst (s_reg P (Buf SCRATCH_X)))) (word_of_nat ?pos) 128 64 7"
  let ?ins = "score_parts P @ cache_parts V_cache L ?pos"
  let ?sc = "[word_of_nat ?pos, 64, 7] :: u32 list" and ?xs = "a_scores x @ rows_upto (a_V x) L ?pos"
  have pos: "?pos < 128" using setting_okD(3) [OF P] .
  have "does P (on_ctx (\<lambda>ctx. launch_op (s_mach P) ctx (ws_off (s_ws P) kbin_pv_decode) (ws_off (s_ws P) args_pv_decode) ?args (14, 1, 1) (32, 1, 1))) x
    (put (Buf SCRATCH_X) (result (s_kf P) kbin_pv_decode ?sc ?xs (slot_size P (Buf SCRATCH_X))) x)"
  proof (rule launch_put [OF P, where ins = ?ins])
    show "list_all (inside (s_reg P)) ?ins"
      using score_parts_inside [OF P] cache_parts_inside [of "s_reg P" V_cache L ?pos] setting_okD(4) [OF P, of V_cache] L pos
      by (simp add: cache_size)
    fix st assume x: "abs_of P st = x"
    have "a_V x = cache_row (held (s_reg P) (rctx st) V_cache)" unfolding x [symmetric] by (simp add: abstr_def)
    then show "map (peek (held (s_reg P) (rctx st))) ?ins = ?xs"
      using peek_scores [OF x] peek_cache [OF L pos] by simp
    show "kernel_io (rd32 (s_base P) (vmem (sh (rctx st)))) kbin_pv_decode ?args (unat (14 :: u32)) =
        Some (?sc, map (at (s_reg P)) ?ins, [at (s_reg P) (Buf SCRATCH_X, 0, slot_size P (Buf SCRATCH_X))])"
      using score_rows_at [of P] cache_rows_at [of "fst (s_reg P V_cache)" L ?pos V_cache]
      by (simp add: args_defs kernel_io_def io_pv_decode_def unat_pos [OF P] at_def cache_parts_def case_prod_unfold del: upt_Suc of_nat_add)
  qed (auto simp: args_defs kernel_arity_def kernels_def kernel_plan_def args_plan_def)
  then have d: "does P (on_ctx (\<lambda>ctx. launch_op (s_mach P) ctx (ws_off (s_ws P) kbin_pv_decode) (ws_off (s_ws P) args_pv_decode) ?args (14, 1, 1) (32, 1, 1))) x
    (put (Buf SCRATCH_X) (spec_pv (s_kf P) ?pos (a_scores x) (rows_upto (a_V x) L ?pos)) x)"
    by (simp only: spec_pv_def slot_sizes)
  show ?thesis
  proof (rule does_cong [OF _ d])
    fix st assume "state_ok P st"
    then have "kv_fits P (rkv st)" by (simp add: state_ok_def)
    then show "(do { v \<leftarrow> kv_cache_V_off (rkv st) (word_of_nat L);
        on_ctx (op_pv_decode (s_mach P) (s_ws P) (off P (Buf SCRATCH_SCORES)) v (off P (Buf SCRATCH_X)) (word_of_nat ?pos)) st }) =
      on_ctx (\<lambda>ctx. launch_op (s_mach P) ctx (ws_off (s_ws P) kbin_pv_decode) (ws_off (s_ws P) args_pv_decode) ?args (14, 1, 1) (32, 1, 1)) st"
      using layer_offsets(2) [OF _ L] setting_okD(2) [OF P]
      by (simp add: on_ctx_def op_pv_decode_def transformer_default_config_def Let_def del: of_nat_add)
  qed
qed

subsection \<open>Tokens\<close>

lemma does_embedding:
  assumes P: "setting_ok P" and t: "a_buf x (Buf token_id_buf_off) = bytes_of 4 (word_of_nat tok :: u32)" "tok < 151936"
  shows "does P (on_ctx (op_embedding (s_mach P) (s_ws P) (weight_loader_embedding (ws_wl (s_ws P))) (off P (Buf RESID_A)))) x
    (put (Buf RESID_A) (spec_embed (s_kf P) (a_buf x Embedding) tok) x)"
proof -
  let ?args = "embedding_args (word_of_nat (fst (s_reg P Embedding))) (word_of_nat (fst (s_reg P (Buf token_id_buf_off))))
    (word_of_nat (fst (s_reg P (Buf RESID_A)))) 896 28"
  let ?ins = "[(Embedding, 3584 * tok, 3584)]"
  have T: "visible P (Buf token_id_buf_off) 4" "visible P Embedding 544538624" by (simp_all add: visible_def args_plan_def)
  have b: "3584 * tok + 3584 \<le> 544538624" using t(2) by simp
  have row: "word_of_nat a + word_of_nat tok * 896 * 4 = (word_of_nat (a + 3584 * tok) :: u32)" for a by simp
  have "does P (on_ctx (\<lambda>ctx. launch_op (s_mach P) ctx (ws_off (s_ws P) kbin_embedding) (ws_off (s_ws P) args_embedding) ?args (1, 1, 1) (32, 1, 1))) x
    (put (Buf RESID_A) (result (s_kf P) kbin_embedding [896] [take 3584 (drop (3584 * tok) (a_buf x Embedding))] (slot_size P (Buf RESID_A))) x)"
  proof (rule launch_put [OF P, where ins = ?ins])
    show "list_all (inside (s_reg P)) ?ins" using part_inside [OF P T(2) _ b] by simp
    fix st assume st: "state_ok P st" and x: "abs_of P st = x"
    show "map (peek (held (s_reg P) (rctx st))) ?ins = [take 3584 (drop (3584 * tok) (a_buf x Embedding))]"
      using peek_visible [of Embedding "3584 * tok" 3584 P "held (s_reg P) (rctx st)" "rkv st"] b x by simp
    have "rd32 (s_base P) (vmem (sh (rctx st))) (word_of_nat (fst (s_reg P (Buf token_id_buf_off)))) 4 = Some (bytes_of 4 (word_of_nat tok :: u32))"
      using rd_part [OF st visible_inside [OF P T(1)]] peek_whole [OF T(1), of "held (s_reg P) (rctx st)" "rkv st"] x t(1) by simp
    then show "kernel_io (rd32 (s_base P) (vmem (sh (rctx st)))) kbin_embedding ?args (unat (1 :: u32)) =
        Some ([896], map (at (s_reg P)) ?ins, [at (s_reg P) (Buf RESID_A, 0, slot_size P (Buf RESID_A))])"
      using row by (simp add: args_defs kernel_io_def io_embedding_def at_def)
  qed (auto simp: args_defs kernel_arity_def kernels_def kernel_plan_def args_plan_def)
  moreover have "op_embedding (s_mach P) (s_ws P) (weight_loader_embedding (ws_wl (s_ws P))) (off P (Buf RESID_A)) =
      (\<lambda>ctx. launch_op (s_mach P) ctx (ws_off (s_ws P) kbin_embedding) (ws_off (s_ws P) args_embedding) ?args (1, 1, 1) (32, 1, 1))"
    using P by (simp add: fun_eq_iff setting_ok_def op_embedding_def ONE_WARP_def transformer_default_config_def Let_def)
  ultimately show ?thesis by (simp only: spec_embed_def slot_sizes)
qed

lemma abstr_debug: "(\<And>s. s \<noteq> Buf argmax_debug_off \<Longrightarrow> C' s = C s) \<Longrightarrow> abstr P C' kv = abstr P C kv"
proof -
  assume o: "\<And>s. s \<noteq> Buf argmax_debug_off \<Longrightarrow> C' s = C s"
  have "(if hidden s then [] else take (slot_size P s) (C' s)) = (if hidden s then [] else take (slot_size P s) (C s))" for s
    using o by (cases "s = Buf argmax_debug_off") auto
  then show ?thesis using o by (simp add: abstr_def)
qed

lemma does_argmax:
  assumes P: "setting_ok P"
  shows "does P (on_ctx (op_argmax (s_mach P) (s_ws P))) x
    (put (Buf token_id_buf_off) (spec_argmax (s_kf P) (a_buf x (Buf LOGITS))) x)"
proof -
  let ?args = "argmax_args (word_of_nat (fst (s_reg P (Buf LOGITS)))) 151936 (word_of_nat (fst (s_reg P (Buf token_id_buf_off))))
    (word_of_nat (fst (s_reg P (Buf argmax_debug_off))))"
  let ?ins = "[(Buf LOGITS, 0, 607744)]" and ?xs = "[a_buf x (Buf LOGITS)]"
  let ?dbg = "map (\<lambda>l. (Buf argmax_debug_off, l * 32, 28)) [0..<32]"
  let ?outs = "(Buf token_id_buf_off, 0, 4) # ?dbg"
  have T: "visible P (Buf token_id_buf_off) 4" "visible P (Buf LOGITS) 607744" by (simp_all add: visible_def args_plan_def)
  have "does P (on_ctx (\<lambda>ctx. launch_op (s_mach P) ctx (ws_off (s_ws P) kbin_argmax) (ws_off (s_ws P) args_argmax) ?args (1, 1, 1) (32, 1, 1))) x
    (put (Buf token_id_buf_off) (result (s_kf P) kbin_argmax [151936] ?xs 4) x)"
  proof (rule launch_does [OF P, where ins = ?ins and outs = ?outs and sc = "[151936]" and xs = ?xs])
    show "list_all (inside (s_reg P)) ?ins" using visible_inside [OF P T(2)] by simp
    show "list_all (inside (s_reg P)) ?outs"
      using visible_inside [OF P T(1)] setting_okD(4) [OF P, of "Buf argmax_debug_off"] by (auto simp: list_all_iff inside_def)
    fix st assume x: "abs_of P st = x"
    show "map (peek (held (s_reg P) (rctx st))) ?ins = ?xs"
      using peek_whole [OF T(2), of "held (s_reg P) (rctx st)" "rkv st"] x by simp
    show "kernel_io (rd32 (s_base P) (vmem (sh (rctx st)))) kbin_argmax ?args (unat (1 :: u32)) =
        Some ([151936], map (at (s_reg P)) ?ins, map (at (s_reg P)) ?outs)"
      by (simp add: args_defs kernel_io_def io_argmax_def rows_at_def at_def del: upt_Suc)
  next
    fix C kv assume l: "\<And>s. length (C s) = snd (s_reg P s)" and x: "abstr P C kv = x"
    let ?f = "s_kf P kbin_argmax [151936] ?xs" and ?C = "poke (Buf token_id_buf_off, 0, 4) (map (s_kf P kbin_argmax [151936] ?xs 0) [0..<4]) C"
    have "abstr P (pokes ?f (Suc 0) ?dbg ?C) kv = abstr P ?C kv" by (intro abstr_debug pokes_other) auto
    also have "\<dots> = put (Buf token_id_buf_off) (map (?f 0) [0..<4]) x"
      using abstr_put [of "Buf token_id_buf_off" P C "map (?f 0) [0..<4]" kv] T(1) setting_okD(4) [OF P, of "Buf token_id_buf_off"] l x
      by (simp add: visible_def)
    finally show "abstr P (pokes ?f 0 ?outs C) kv = put (Buf token_id_buf_off) (result (s_kf P) kbin_argmax [151936] ?xs 4) x"
      by (simp add: result_def del: upt_Suc)
  qed (auto simp: args_defs kernel_arity_def kernels_def kernel_plan_def args_plan_def)
  moreover have "op_argmax (s_mach P) (s_ws P) =
      (\<lambda>ctx. launch_op (s_mach P) ctx (ws_off (s_ws P) kbin_argmax) (ws_off (s_ws P) args_argmax) ?args (1, 1, 1) (32, 1, 1))"
    using setting_okD(2,6) [OF P]
    by (simp add: fun_eq_iff op_argmax_def ONE_WARP_def transformer_default_config_def Let_def)
  ultimately show ?thesis by (simp only: spec_argmax_def)
qed

end
