(* ===== verification/Transformer_Host.thy ===== *)
theory Transformer_Host
  imports Transformer_Attn
begin

text \<open>
  The parts of a step that the host does itself: copies to and from the device, the dumps, and the cache.
\<close>

subsection \<open>Copies\<close>

lemma slot_copy_in:
  assumes m: "mem_ok B S reg ctx" and n: "unat n \<le> snd (reg s)" "0 < unat n" "length src = unat n"
  obtains m' where "gpuMemcpy ctx (word_of_nat (fst (reg s))) src n GPU_MEMCPY_H2D = Some (0, src, set_vmem m' ctx)"
    "mem_ok B S reg (set_vmem m' ctx)" "held reg (set_vmem m' ctx) = poke (s, 0, unat n) src (held reg ctx)"
proof -
  have B: "vram_mmap ctx = B" using m by (simp add: mem_ok_def arena_def)
  have l: "0 + length src \<le> snd (reg s)" "src \<noteq> []" using n by auto
  obtain m' where m': "store_bytes (vmem (sh ctx)) (ofs B (fst (reg s) + 0)) src = Some m'" "mem_ok B S reg (set_vmem m' ctx)"
    "held reg (set_vmem m' ctx) = poke (s, 0, length src) src (held reg ctx)"
    by (rule slot_store [OF m l]) (rule that)
  then have "gpuMemcpy ctx (word_of_nat (fst (reg s))) src n GPU_MEMCPY_H2D = Some (0, src, set_vmem m' ctx)"
    using B n(3) by (simp add: gpuMemcpy_def set_vmem_def)
  then show thesis using m' n(3) by (intro that [of m']) simp_all
qed

lemma slot_copy_out:
  assumes "mem_ok B S reg ctx" "unat n \<le> snd (reg s)" "length dst = unat n"
  shows "gpuMemcpy ctx (word_of_nat (fst (reg s))) dst n GPU_MEMCPY_D2H = Some (0, take (unat n) (held reg ctx s), ctx)"
  using ar.copy_out [of B S ctx "range reg" "fst (reg s)" "snd (reg s)" 0 n dst] assms
  by (simp add: mem_ok_def held_def)

text \<open>The host has memory.\<close>

lemma malloc_ok:
  assumes "state_ok P st"
  obtains s where "malloc (sh (rctx st)) = (True, s)" "state_ok P (st\<lparr>rctx := (rctx st)\<lparr>sh := s\<rparr>\<rparr>)"
    "held (s_reg P) ((rctx st)\<lparr>sh := s\<rparr>) = held (s_reg P) (rctx st)"
proof -
  let ?ctx = "rctx st" and ?s = "snd (malloc (sh (rctx st)))"
  have A: "arena (s_base P) (s_from P) ?ctx (range (s_reg P))" using assms by (simp add: state_ok_def mem_ok_def)
  note am = arena_malloc [OF A]
  have h: "held (s_reg P) (?ctx\<lparr>sh := ?s\<rparr>) = held (s_reg P) ?ctx" by (simp add: fun_eq_iff held_def am(2))
  have t: "fst (malloc (sh ?ctx))" "set (mallocs ?s) \<subseteq> set (mallocs (sh ?ctx))"
    using assms by (auto simp: malloc_def state_ok_def split: list.splits)
  have "state_ok P (st\<lparr>rctx := ?ctx\<lparr>sh := ?s\<rparr>\<rparr>)" using assms am(1) h t(2) by (auto simp: state_ok_def mem_ok_def)
  then show thesis using t(1) h by (intro that [of ?s]) (auto intro: prod_eqI)
qed

lemma state_ok_dump [simp]: "state_ok P (st\<lparr>rdump := d\<rparr>) = state_ok P st"
  by (simp add: state_ok_def)

lemma does_put_token:
  assumes P: "setting_ok P"
  shows "does P (put_token (s_ws P) tok) x (put (Buf token_id_buf_off) (bytes_of 4 tok) x)"
  unfolding does_def
proof (intro allI impI)
  fix st assume ok: "state_ok P st" and x: "abs_of P st = x"
  have m: "mem_ok (s_base P) (s_from P) (s_reg P) (rctx st)" using ok by (simp add: state_ok_def)
  have z: "unat (4 :: u64) \<le> snd (s_reg P (Buf token_id_buf_off))" "0 < unat (4 :: u64)" "length (bytes_of 4 tok) = unat (4 :: u64)"
    using setting_okD(4) [OF P, of "Buf token_id_buf_off"] by simp_all
  obtain m' where m': "gpuMemcpy (rctx st) (off P (Buf token_id_buf_off)) (bytes_of 4 tok) 4 GPU_MEMCPY_H2D = Some (0, bytes_of 4 tok, set_vmem m' (rctx st))"
    "mem_ok (s_base P) (s_from P) (s_reg P) (set_vmem m' (rctx st))"
    "held (s_reg P) (set_vmem m' (rctx st)) = poke (Buf token_id_buf_off, 0, unat (4 :: u64)) (bytes_of 4 tok) (held (s_reg P) (rctx st))"
    by (rule slot_copy_in [OF m z]) (rule that)
  let ?st = "st\<lparr>rctx := set_vmem m' (rctx st)\<rparr>"
  have "token_id_buf_off \<notin> set kernels" by (simp add: kernels_def kernel_plan_def)
  then have "state_ok P ?st" using ok m'(2) by (auto simp: state_ok_def m'(3) poke_def)
  moreover have "abs_of P ?st = put (Buf token_id_buf_off) (bytes_of 4 tok) x"
    using abstr_put [of "Buf token_id_buf_off" P "held (s_reg P) (rctx st)" "bytes_of 4 tok" "rkv st"] z(1) x
    by (simp add: m'(3) args_plan_def)
  moreover have "put_token (s_ws P) tok st = Some (TRANSFORMER_OK, ?st)"
    using m'(1) setting_okD(6) [OF P] by (simp add: put_token_def on_ctx_def)
  ultimately show "\<exists>st'. put_token (s_ws P) tok st = Some (TRANSFORMER_OK, st') \<and> state_ok P st' \<and>
      abs_of P st' = put (Buf token_id_buf_off) (bytes_of 4 tok) x" by blast
qed

subsection \<open>Dumps\<close>

text \<open>A dump only reads: the step computes the same with and without it.\<close>

lemma dump_read_ok:
  assumes ok: "state_ok P st" and n: "unat n \<le> snd (s_reg P s)"
  obtains st' where "dump_read p (off P s) n st = Some st'" "state_ok P st'" "abs_of P st' = abs_of P st"
    "dump_unchecked p (off P s) n st = Some st'"
proof -
  obtain sh' where s: "malloc (sh (rctx st)) = (True, sh')" "state_ok P (st\<lparr>rctx := (rctx st)\<lparr>sh := sh'\<rparr>\<rparr>)"
    "held (s_reg P) ((rctx st)\<lparr>sh := sh'\<rparr>) = held (s_reg P) (rctx st)"
    by (rule malloc_ok [OF ok]) (rule that)
  have m: "mem_ok (s_base P) (s_from P) (s_reg P) ((rctx st)\<lparr>sh := sh'\<rparr>)" using s(2) by (simp add: state_ok_def)
  let ?ctx = "(rctx st)\<lparr>sh := sh'\<rparr>" and ?bs = "take (unat n) (held (s_reg P) (rctx st) s)"
  have c: "gpuMemcpy ?ctx (off P s) (map (uninit (rdump st)) [0..<unat n]) n GPU_MEMCPY_D2H = Some (0, ?bs, ?ctx)"
    using slot_copy_out [OF m n, of "map (uninit (rdump st)) [0..<unat n]"] s(3) by simp
  let ?st = "st\<lparr>rctx := ?ctx, rdump := put_file p ?bs (rdump st)\<rparr>"
  have "?st = st\<lparr>rctx := ?ctx\<rparr>\<lparr>rdump := put_file p ?bs (rdump st)\<rparr>" by simp
  then have "state_ok P ?st" using s(2) state_ok_dump by metis
  then show thesis
    using s(1,3) c by (intro that [of ?st]) (simp_all add: dump_read_def dump_unchecked_def Let_def)
qed

lemma does_dump:
  assumes n: "unat n \<le> snd (s_reg P s)"
  shows "does P (DUMP_SCRATCH E sid l name (off P s) n) x x"
  unfolding does_def
proof (intro allI impI)
  fix st assume ok: "state_ok P st" and x: "abs_of P st = x"
  obtain b d where d: "dump_mkdir sid (rdump st) = (b, d)" by fastforce
  have ok': "state_ok P (st\<lparr>rdump := d\<rparr>)" using ok by simp
  obtain st' where st': "dump_read (dump_path sid l name) (off P s) n (st\<lparr>rdump := d\<rparr>) = Some st'" "state_ok P st'"
    "abs_of P st' = abs_of P (st\<lparr>rdump := d\<rparr>)"
    by (rule dump_read_ok [OF ok' n]) (rule that)
  show "\<exists>st'. DUMP_SCRATCH E sid l name (off P s) n st = Some (TRANSFORMER_OK, st') \<and> state_ok P st' \<and> abs_of P st' = x"
  proof (cases "DUMP_INTERMEDIATES E \<and> 0 \<le> sid")
    case False
    then show ?thesis using ok x by (auto simp: DUMP_SCRATCH_def dump_scratch_impl_def)
  next
    case True
    then show ?thesis
      using st' ok x d by (cases b) (auto simp: DUMP_SCRATCH_def dump_scratch_impl_def Let_def)
  qed
qed

lemma does_dump_before_down:
  assumes P: "setting_ok P" and L: "L < 24"
  shows "does P (dump_before_down (s_mach P) (s_ws P) (word_of_nat L) sid (off P (Weight L WL_DOWN_PROJ_W))) x x"
  unfolding does_def
proof (intro allI impI)
  fix st assume ok: "state_ok P st" and x: "abs_of P st = x"
  have n: "unat (19456 :: u64) \<le> snd (s_reg P (Buf SCRATCH_FFN_A))" "unat (17432576 :: u64) \<le> snd (s_reg P (Weight L WL_DOWN_PROJ_W))"
    using setting_okD(4) [OF P, of "Buf SCRATCH_FFN_A"] setting_okD(4) [OF P, of "Weight L WL_DOWN_PROJ_W"] L by simp_all
  let ?p = "dump_dir sid @ ''/layer_12_ffn_a_just_before_down.bin''" and ?q = "dump_dir sid @ ''/layer_12_down_w_d2h.bin''"
  obtain st1 where 1: "dump_unchecked ?p (off P (Buf SCRATCH_FFN_A)) 19456 st = Some st1" "state_ok P st1" "abs_of P st1 = abs_of P st"
    by (rule dump_read_ok [OF ok n(1), of ?p]) (rule that)
  obtain st2 where 2: "dump_unchecked ?q (off P (Weight L WL_DOWN_PROJ_W)) 17432576 st1 = Some st2" "state_ok P st2" "abs_of P st2 = abs_of P st1"
    by (rule dump_read_ok [OF 1(2) n(2), of ?q]) (rule that)
  have "ws_off (s_ws P) SCRATCH_FFN_A = off P (Buf SCRATCH_FFN_A)" "cfg_intermediate (ws_cfg (s_ws P)) = 4864" "cfg_D (ws_cfg (s_ws P)) = 896"
    using setting_okD(2,6) [OF P] by (simp_all add: transformer_default_config_def)
  then have "\<exists>st'. dump_before_down (s_mach P) (s_ws P) (word_of_nat L) sid (off P (Weight L WL_DOWN_PROJ_W)) st = Some (TRANSFORMER_OK, st') \<and>
      (st' = st \<or> st' = st2)"
    using 1(1) 2(1) by (simp add: dump_before_down_def size4_def Let_def)
  then show "\<exists>st'. dump_before_down (s_mach P) (s_ws P) (word_of_nat L) sid (off P (Weight L WL_DOWN_PROJ_W)) st = Some (TRANSFORMER_OK, st') \<and>
      state_ok P st' \<and> abs_of P st' = x"
    using ok x 1 2 by auto
qed

subsection \<open>The cache\<close>

lemma gpuMemcpy_mallocs: "gpuMemcpy ctx dst src n dir = Some (rc, bs, ctx') \<Longrightarrow> mallocs (sh ctx') = mallocs (sh ctx)"
  by (auto simp: gpuMemcpy_def split: if_splits bind_splits)

lemma append_heads_mallocs:
  "append_heads n kh c Kb Vb hs ro K V ctx = Some (rc, ctx') \<Longrightarrow> mallocs (sh ctx') = mallocs (sh ctx)"
proof (induction n arbitrary: kh ctx)
  case (Suc n)
  then show ?case
    by (auto simp: Let_def split: bind_splits if_splits prod.splits dest!: gpuMemcpy_mallocs)
qed simp

lemma append_layer_mallocs:
  "kv_cache_append_layer ctx c L K V = Some (rc, c', ctx') \<Longrightarrow> mallocs (sh ctx') = mallocs (sh ctx)"
  by (auto simp: kv_cache_append_layer_def Let_def split: bind_splits if_splits prod.splits dest!: append_heads_mallocs)

lemma fits_rows:
  assumes "kv_fits P c"
  shows "row_bytes c = 256" "valid_row c L h p \<longleftrightarrow> row_ok L h p" "kv_bytes c = 24 * 2 * 128 * 256"
    "row_ok L h p \<Longrightarrow> kv_get ctx c r L h p = cache_row (rdata ctx r) L h p"
  using assms
  by (simp_all add: kv_fits_def row_bytes_def valid_row_def row_ok_def kv_bytes_def kv_get_def cache_row_def kv_index_def row_at_def)

lemma fits_head_row:
  assumes "kv_fits P c" "length bs = 512" "h < 2"
  shows "head_row c (words_of bs) h = take 256 (drop (256 * h) bs)"
proof -
  have "float_bytes (words_of bs) = bs" using float_bytes_words_of [of bs 128] assms(2) by simp
  moreover have "float_bytes (take 64 (drop (h * 64) (words_of bs))) = take (64 * 4) (drop (h * 64 * 4) (float_bytes (words_of bs)))"
    by (simp only: take_float_bytes drop_float_bytes)
  ultimately show ?thesis using assms(1) by (simp add: head_row_def kv_fits_def mult.commute)
qed

text \<open>One call of \<open>kv_cache_append_layer\<close>, on the places of a setting.\<close>

lemma append_layer_slots:
  assumes P: "setting_ok P" and m: "mem_ok (s_base P) (s_from P) (s_reg P) ctx" and fits: "kv_fits P c"
    and L: "L < 24" and c: "filled c = word_of_nat (s_pos P)" "pending c = word_of_nat L"
    and kv: "length kb = 512" "length vb = 512"
  obtains ctx' where
    "kv_cache_append_layer ctx c (pending c) (words_of kb) (words_of vb) = Some (0, c\<lparr>pending := pending c + 1\<rparr>, ctx')"
    "mem_ok (s_base P) (s_from P) (s_reg P) ctx'"
    "\<And>s. s \<noteq> K_cache \<Longrightarrow> s \<noteq> V_cache \<Longrightarrow> held (s_reg P) ctx' s = held (s_reg P) ctx s"
    "cache_row (held (s_reg P) ctx' K_cache) = add_rows L (s_pos P) kb (cache_row (held (s_reg P) ctx K_cache))"
    "cache_row (held (s_reg P) ctx' V_cache) = add_rows L (s_pos P) vb (cache_row (held (s_reg P) ctx V_cache))"
proof -
  let ?reg = "s_reg P" and ?pos = "s_pos P" and ?rK = "s_reg P K_cache" and ?rV = "s_reg P V_cache"
  have pos: "?pos < 128" using setting_okD(3) [OF P] .
  have u: "unat (pending c) = L" "unat (filled c) = ?pos" using pos L c by (simp_all add: unat_of_nat)
  have A: "arena (s_base P) (s_from P) ctx (range ?reg)" and dj: "\<And>s t. s \<noteq> t \<Longrightarrow> rbytes (?reg s) \<inter> rbytes (?reg t) = {}"
    using m by (auto simp: mem_ok_def)
  have sz: "24 * 2 * 128 * 256 \<le> snd ?rK" "24 * 2 * 128 * 256 \<le> snd ?rV"
    using setting_okD(4) [OF P, of K_cache] setting_okD(4) [OF P, of V_cache] by (simp_all add: cache_size)
  have ne: "?reg t \<noteq> ?rK" if "t \<noteq> K_cache" for t using dj [OF that] sz by (auto simp: rbytes_def)
  have ne': "?reg t \<noteq> ?rV" if "t \<noteq> V_cache" for t using dj [OF that] sz by (auto simp: rbytes_def)
  have w: "filled c < max_seq c" "pending c < num_layers c"
    using fits pos L u by (simp_all add: kv_fits_def word_less_nat_alt)
  have kok: "kv_ok (range ?reg) c ?rK ?rV"
    using fits fits_rows(3) [OF fits] sz ne [of V_cache] w by (auto simp: kv_ok_def kv_fits_def)
  have len: "unat (num_kv_heads c) * unat (head_dim c) \<le> length (words_of kb)" "unat (num_kv_heads c) * unat (head_dim c) \<le> length (words_of vb)"
    using fits length_words_of [of kb 128] length_words_of [of vb 128] kv by (simp_all add: kv_fits_def)
  obtain ctx' where a: "kv_cache_append_layer ctx c (pending c) (words_of kb) (words_of vb) = Some (0, c\<lparr>pending := pending c + 1\<rparr>, ctx')"
    "arena (s_base P) (s_from P) ctx' (range ?reg)" "\<forall>q\<in>range ?reg - {?rK, ?rV}. rdata ctx' q = rdata ctx q"
    and g: "\<And>L' h p. valid_row c L' h p \<Longrightarrow>
        kv_get ctx' c ?rK L' h p = (if L' = unat (pending c) \<and> p = unat (filled c) then head_row c (words_of kb) h else kv_get ctx c ?rK L' h p) \<and>
        kv_get ctx' c ?rV L' h p = (if L' = unat (pending c) \<and> p = unat (filled c) then head_row c (words_of vb) h else kv_get ctx c ?rV L' h p)"
    by (rule ar.append_layer_rows [OF A kok w len]) (rule that)
  have keep: "held ?reg ctx' s = held ?reg ctx s" if "s \<noteq> K_cache" "s \<noteq> V_cache" for s
    using a(3) ne [OF that(1)] ne' [OF that(2)] by (simp add: held_def)
  have "cache_row (held ?reg ctx' K_cache) L' h p = add_rows L ?pos kb (cache_row (held ?reg ctx K_cache)) L' h p \<and>
    cache_row (held ?reg ctx' V_cache) L' h p = add_rows L ?pos vb (cache_row (held ?reg ctx V_cache)) L' h p" for L' h p
  proof (cases "row_ok L' h p")
    case True
    then have "h < 2" by (simp add: row_ok_def)
    then show ?thesis
      using g [of L' h p] fits_rows(2,4) [OF fits] fits_head_row [OF fits kv(1)] fits_head_row [OF fits kv(2)] True u
      by (simp add: add_rows_def held_def)
  qed (use L pos in \<open>auto simp: cache_row_def add_rows_def row_ok_def\<close>)
  then show thesis using a(1,2) dj keep by (intro that [of ctx']) (auto simp: mem_ok_def fun_eq_iff)
qed

lemma does_kv_append:
  assumes P: "setting_ok P" and L: "L < 24" and x: "filled (a_kv x) = word_of_nat (s_pos P)" "pending (a_kv x) = word_of_nat L"
  shows "does P (kv_append_from_device (s_ws P) (word_of_nat L) (word_of_nat (s_pos P)) (off P (Buf SCRATCH_K)) (off P (Buf SCRATCH_V))) x
    (x\<lparr>a_K := add_rows L (s_pos P) (a_buf x (Buf SCRATCH_K)) (a_K x), a_V := add_rows L (s_pos P) (a_buf x (Buf SCRATCH_V)) (a_V x),
       a_kv := (a_kv x)\<lparr>pending := pending (a_kv x) + 1\<rparr>\<rparr>)"
  unfolding does_def
proof (intro allI impI)
  fix st assume ok: "state_ok P st" and ax: "abs_of P st = x"
  let ?reg = "s_reg P" and ?pos = "s_pos P" and ?c = "rkv st"
  let ?kb = "take 512 (held ?reg (rctx st) (Buf SCRATCH_K))" and ?vb = "take 512 (held ?reg (rctx st) (Buf SCRATCH_V))"
  obtain s1 where s1: "malloc (sh (rctx st)) = (True, s1)" "state_ok P (st\<lparr>rctx := (rctx st)\<lparr>sh := s1\<rparr>\<rparr>)"
    "held ?reg ((rctx st)\<lparr>sh := s1\<rparr>) = held ?reg (rctx st)"
    by (rule malloc_ok [OF ok]) (rule that)
  obtain s2 where s2: "malloc s1 = (True, s2)" "state_ok P (st\<lparr>rctx := (rctx st)\<lparr>sh := s2\<rparr>\<rparr>)"
    "held ?reg ((rctx st)\<lparr>sh := s2\<rparr>) = held ?reg (rctx st)"
    by (rule malloc_ok [OF s1(2)]) (simp add: s1(3) that)
  let ?ctx = "(rctx st)\<lparr>sh := s2\<rparr>"
  have m: "mem_ok (s_base P) (s_from P) ?reg ?ctx" and fits: "kv_fits P ?c" using s2(2) by (simp_all add: state_ok_def)
  have c: "?c = a_kv x" using ax by (auto simp: abstr_def)
  have fill: "filled ?c < max_seq ?c"
    using fits setting_okD(3) [OF P] c x(1) by (simp add: kv_fits_def word_less_nat_alt unat_of_nat)
  have z: "unat (512 :: u64) \<le> snd (?reg (Buf SCRATCH_K))" "unat (512 :: u64) \<le> snd (?reg (Buf SCRATCH_V))"
    using setting_okD(4) [OF P, of "Buf SCRATCH_K"] setting_okD(4) [OF P, of "Buf SCRATCH_V"] by simp_all
  have cp: "gpuMemcpy ?ctx (off P (Buf SCRATCH_K)) (replicate 512 0) 512 GPU_MEMCPY_D2H = Some (0, ?kb, ?ctx)"
    "gpuMemcpy ?ctx (off P (Buf SCRATCH_V)) (replicate 512 0) 512 GPU_MEMCPY_D2H = Some (0, ?vb, ?ctx)"
    using slot_copy_out [OF m z(1), of "replicate 512 0"] slot_copy_out [OF m z(2), of "replicate 512 0"] s2(3) by simp_all
  have kb: "?kb = a_buf x (Buf SCRATCH_K)" "?vb = a_buf x (Buf SCRATCH_V)" "length ?kb = 512" "length ?vb = 512"
    using z unfolding ax [symmetric] by (simp_all add: abstr_def args_plan_def)
  obtain ctx' where a: "kv_cache_append_layer ?ctx ?c (pending ?c) (words_of ?kb) (words_of ?vb) = Some (0, ?c\<lparr>pending := pending ?c + 1\<rparr>, ctx')"
    "mem_ok (s_base P) (s_from P) ?reg ctx'"
    and keep: "\<And>s. s \<noteq> K_cache \<Longrightarrow> s \<noteq> V_cache \<Longrightarrow> held ?reg ctx' s = held ?reg ?ctx s"
    and rows: "cache_row (held ?reg ctx' K_cache) = add_rows L ?pos ?kb (cache_row (held ?reg ?ctx K_cache))"
      "cache_row (held ?reg ctx' V_cache) = add_rows L ?pos ?vb (cache_row (held ?reg ?ctx V_cache))"
    by (rule append_layer_slots [OF P m fits L x(1) [folded c] x(2) [folded c] kb(3,4)]) (rule that)
  let ?st = "st\<lparr>rctx := ctx', rkv := ?c\<lparr>pending := pending ?c + 1\<rparr>\<rparr>"
  have "state_ok P ?st"
    using s2(2) a(2) keep append_layer_mallocs [OF a(1)] by (simp add: state_ok_def kv_fits_def)
  moreover have "(if hidden s then [] else take (slot_size P s) (held ?reg ctx' s)) =
      (if hidden s then [] else take (slot_size P s) (held ?reg (rctx st) s))" for s
    using keep [of s] s2(3) by (cases s) auto
  then have "abs_of P ?st = x\<lparr>a_K := add_rows L ?pos ?kb (a_K x), a_V := add_rows L ?pos ?vb (a_V x),
       a_kv := (a_kv x)\<lparr>pending := pending (a_kv x) + 1\<rparr>\<rparr>"
    unfolding ax [symmetric] by (simp add: abstr_def rows keep s2(3))
  moreover have "kv_append_from_device (s_ws P) (word_of_nat L) (word_of_nat ?pos) (off P (Buf SCRATCH_K)) (off P (Buf SCRATCH_V)) st =
      Some (TRANSFORMER_OK, ?st)"
    using s1(1) s2(1) cp a(1) c x fill setting_okD(2) [OF P]
    by (simp add: kv_append_from_device_def kv_cache_cur_pos_def kv_dim_def transformer_default_config_def Let_def)
  ultimately show "\<exists>st'. kv_append_from_device (s_ws P) (word_of_nat L) (word_of_nat ?pos) (off P (Buf SCRATCH_K)) (off P (Buf SCRATCH_V)) st =
      Some (TRANSFORMER_OK, st') \<and> state_ok P st' \<and> abs_of P st' =
      x\<lparr>a_K := add_rows L ?pos (a_buf x (Buf SCRATCH_K)) (a_K x), a_V := add_rows L ?pos (a_buf x (Buf SCRATCH_V)) (a_V x),
       a_kv := (a_kv x)\<lparr>pending := pending (a_kv x) + 1\<rparr>\<rparr>"
    unfolding kb(1,2) by blast
qed

lemma does_commit:
  assumes x: "pending (a_kv x) = 24" "filled (a_kv x) < 128"
  shows "does P commit_kv x (x\<lparr>a_kv := (a_kv x)\<lparr>pending := 0, filled := filled (a_kv x) + 1\<rparr>\<rparr>)"
  unfolding does_def
proof (intro allI impI)
  fix st assume ok: "state_ok P st" and ax: "abs_of P st = x"
  have c: "rkv st = a_kv x" using ax by (auto simp: abstr_def)
  have "kv_fits P (rkv st)" using ok by (simp add: state_ok_def)
  let ?st = "st\<lparr>rkv := (rkv st)\<lparr>pending := 0, filled := filled (rkv st) + 1\<rparr>\<rparr>"
  have "commit_kv st = Some (TRANSFORMER_OK, ?st)"
    using x c \<open>kv_fits P (rkv st)\<close> by (simp add: commit_kv_def kv_cache_commit_token_def kv_fits_def)
  moreover have "state_ok P ?st" using ok by (simp add: state_ok_def kv_fits_def)
  moreover have "abs_of P ?st = x\<lparr>a_kv := (a_kv x)\<lparr>pending := 0, filled := filled (a_kv x) + 1\<rparr>\<rparr>"
    unfolding ax [symmetric] by (simp add: abstr_def)
  ultimately show "\<exists>st'. commit_kv st = Some (TRANSFORMER_OK, st') \<and> state_ok P st' \<and>
      abs_of P st' = x\<lparr>a_kv := (a_kv x)\<lparr>pending := 0, filled := filled (a_kv x) + 1\<rparr>\<rparr>" by blast
qed

end
