(* ===== verification/Transformer_Refine.thy ===== *)
theory Transformer_Refine
  imports Transformer_Host
begin

text \<open>
  A whole layer and a whole token: the actions of \<open>transformer_decoder_layer\<close> and \<open>transformer_step\<close>,
  which go through shared buffers that are used several times, compute the values of the specification.
\<close>

lemma scratch_visible [simp]:
  "visible P (Buf RESID_A) 3584" "visible P (Buf RESID_B) 3584" "visible P (Buf SCRATCH_X) 3584" "visible P (Buf SCRATCH_Q) 3584"
  "visible P (Buf SCRATCH_K) 512" "visible P (Buf SCRATCH_V) 512" "visible P (Buf SCRATCH_FFN_A) 19456" "visible P (Buf SCRATCH_FFN_B) 19456"
  "visible P (Buf LOGITS) 607744" "visible P Embedding 544538624" "visible P Lm_Head 544538624" "visible P Final_Norm 3584"
  by (simp_all add: visible_def args_plan_def)

lemma scratch_writable [simp]:
  "writable P (Buf RESID_A) 3584" "writable P (Buf RESID_B) 3584" "writable P (Buf SCRATCH_X) 3584" "writable P (Buf SCRATCH_Q) 3584"
  "writable P (Buf SCRATCH_K) 512" "writable P (Buf SCRATCH_V) 512" "writable P (Buf SCRATCH_FFN_A) 19456" "writable P (Buf SCRATCH_FFN_B) 19456"
  "writable P (Buf LOGITS) 607744"
  by (auto simp: writable_def kernels_def kernel_plan_def)

lemma weights_visible [simp]:
  assumes "L < 24"
  shows "visible P (Weight L WL_INPUT_NORM) 3584" "visible P (Weight L WL_Q_PROJ_W) 3211264"
    "visible P (Weight L WL_Q_PROJ_B) 3584" "visible P (Weight L WL_K_PROJ_W) 458752"
    "visible P (Weight L WL_K_PROJ_B) 512" "visible P (Weight L WL_V_PROJ_W) 458752"
    "visible P (Weight L WL_V_PROJ_B) 512" "visible P (Weight L WL_O_PROJ_W) 3211264"
    "visible P (Weight L WL_POST_NORM) 3584" "visible P (Weight L WL_GATE_PROJ_W) 17432576"
    "visible P (Weight L WL_UP_PROJ_W) 17432576" "visible P (Weight L WL_DOWN_PROJ_W) 17432576"
  using assms by (simp_all add: visible_def)

lemma does_weight:
  assumes "setting_ok P" "L < 24" "does P (f (off P (Weight L t))) x y"
  shows "does P (with_weight (s_ws P) (word_of_nat L) t f) x y"
proof (rule does_cong [OF _ assms(3)])
  have "sint (word_of_nat L :: u32) = int L" using assms(2) by (simp add: signed_of_nat signed_take_bit_int_eq_self)
  then show "with_weight (s_ws P) (word_of_nat L) t f st = f (off P (Weight L t)) st" for st
    using assms(1,2) by (simp add: with_weight_def setting_ok_def)
qed

lemma does_dump_slot: "setting_ok P \<Longrightarrow> unat n \<le> slot_size P s \<Longrightarrow> does P (DUMP_SCRATCH E sid l name (off P s) n) x x"
  using setting_okD(4) [of P s] by (intro does_dump) simp

lemma config_values:
  assumes "setting_ok P"
  shows "cfg_D (ws_cfg (s_ws P)) = 896" "cfg_intermediate (ws_cfg (s_ws P)) = 4864" "cfg_num_layers (ws_cfg (s_ws P)) = 24"
    "cfg_num_q_heads (ws_cfg (s_ws P)) = 14" "cfg_num_kv_heads (ws_cfg (s_ws P)) = 2" "cfg_vocab_size (ws_cfg (s_ws P)) = 151936"
    "cfg_max_seq (ws_cfg (s_ws P)) = 128" "kv_dim (ws_cfg (s_ws P)) = 128"
  using setting_okD(2) [OF assms] by (simp_all add: transformer_default_config_def kv_dim_def)

lemmas does_rules = does_Nil does_Cons does_weight does_dump_slot does_rmsnorm does_gemm does_add does_silu does_vmul does_rope

subsection \<open>The four parts of a layer\<close>

text \<open>Each part of a layer as a function of the abstract state.\<close>

definition after_qkv :: "setting \<Rightarrow> nat \<Rightarrow> astate \<Rightarrow> astate" where
  "after_qkv P L x = (let KF = s_kf P; w = (\<lambda>t. a_buf x (Weight L t));
     n = spec_rmsnorm KF (mfpu (s_mach P)) (a_buf x (Buf RESID_A)) (w WL_INPUT_NORM) in
   x\<lparr>a_buf := (a_buf x)(
     Buf SCRATCH_X := n,
     Buf SCRATCH_Q := spec_add KF 896 (spec_gemm KF 896 896 n (w WL_Q_PROJ_W)) (w WL_Q_PROJ_B),
     Buf SCRATCH_K := spec_add KF 128 (spec_gemm KF 896 128 n (w WL_K_PROJ_W)) (w WL_K_PROJ_B),
     Buf SCRATCH_V := spec_add KF 128 (spec_gemm KF 896 128 n (w WL_V_PROJ_W)) (w WL_V_PROJ_B))\<rparr>)"

definition after_attention :: "setting \<Rightarrow> nat \<Rightarrow> astate \<Rightarrow> astate" where
  "after_attention P L x = (let KF = s_kf P; pos = s_pos P; table = a_buf x (Buf sincos_off);
     q = spec_rope KF table 14 pos (a_buf x (Buf SCRATCH_Q));
     k = spec_rope KF table 2 pos (a_buf x (Buf SCRATCH_K));
     K = add_rows L pos k (a_K x);
     V = add_rows L pos (a_buf x (Buf SCRATCH_V)) (a_V x);
     p = spec_softmax KF pos (spec_scores KF (mfpu (s_mach P)) pos q (rows_upto K L pos)) in
   x\<lparr>a_buf := (a_buf x)(
       Buf SCRATCH_Q := q,
       Buf SCRATCH_K := k,
       Buf SCRATCH_X := spec_pv KF pos p (rows_upto V L pos)),
     a_scores := p, a_K := K, a_V := V, a_kv := (a_kv x)\<lparr>pending := pending (a_kv x) + 1\<rparr>\<rparr>)"

definition after_out :: "setting \<Rightarrow> nat \<Rightarrow> astate \<Rightarrow> astate" where
  "after_out P L x = (let KF = s_kf P;
     a = spec_gemm KF 896 896 (a_buf x (Buf SCRATCH_X)) (a_buf x (Weight L WL_O_PROJ_W)) in
   x\<lparr>a_buf := (a_buf x)(
     Buf SCRATCH_Q := a,
     Buf RESID_B := spec_add KF 896 (a_buf x (Buf RESID_A)) a)\<rparr>)"

definition after_ffn :: "setting \<Rightarrow> nat \<Rightarrow> astate \<Rightarrow> astate" where
  "after_ffn P L x = (let KF = s_kf P; w = (\<lambda>t. a_buf x (Weight L t));
     n = spec_rmsnorm KF (mfpu (s_mach P)) (a_buf x (Buf RESID_B)) (w WL_POST_NORM);
     g = spec_silu KF (spec_gemm KF 896 4864 n (w WL_GATE_PROJ_W));
     u = spec_gemm KF 896 4864 n (w WL_UP_PROJ_W);
     d = spec_gemm KF 4864 896 (spec_vmul KF g u) (w WL_DOWN_PROJ_W) in
   x\<lparr>a_buf := (a_buf x)(
     Buf SCRATCH_FFN_A := spec_vmul KF g u,
     Buf SCRATCH_FFN_B := u,
     Buf SCRATCH_X := d,
     Buf RESID_A := spec_add KF 896 (a_buf x (Buf RESID_B)) d)\<rparr>)"

lemma does_layer_qkv:
  assumes P: "setting_ok P" and L: "L < 24"
  shows "does P (run_ops (layer_qkv (s_mach P) (s_ws P) (word_of_nat L) sid)) x (after_qkv P L x)"
  unfolding layer_qkv_def Let_def config_values [OF P] setting_okD(6) [OF P]
  by (rule does_eq, (rule does_rules P L | (simp add: L; fail))+) (auto simp: after_qkv_def Let_def intro!: astate.equality)

lemma does_layer_attention:
  assumes P: "setting_ok P" and L: "L < 24"
    and kv: "filled (a_kv x) = word_of_nat (s_pos P)" "pending (a_kv x) = word_of_nat L"
  shows "does P (run_ops (layer_attention (s_mach P) (s_ws P) (word_of_nat L) sid (word_of_nat (s_pos P)))) x (after_attention P L x)"
  unfolding layer_attention_def Let_def config_values [OF P] setting_okD(6) [OF P] size4_def
  by (rule does_eq, (rule does_rules does_kv_append does_qkt does_softmax does_pv P L | (simp add: L kv; fail))+)
    (auto simp: after_attention_def Let_def intro!: astate.equality)

lemma does_layer_out:
  assumes P: "setting_ok P" and L: "L < 24"
  shows "does P (run_ops (layer_out (s_mach P) (s_ws P) (word_of_nat L) sid)) x (after_out P L x)"
  unfolding layer_out_def Let_def config_values [OF P] setting_okD(6) [OF P]
  by (rule does_eq, (rule does_rules P L | (simp add: L; fail))+) (auto simp: after_out_def Let_def intro!: astate.equality)

lemma does_layer_ffn:
  assumes P: "setting_ok P" and L: "L < 24"
  shows "does P (run_ops (layer_ffn (s_mach P) (s_ws P) (word_of_nat L) sid)) x (after_ffn P L x)"
  unfolding layer_ffn_def Let_def config_values [OF P] setting_okD(6) [OF P]
  by (rule does_eq, (rule does_rules does_dump_before_down P L | (simp add: L; fail))+)
    (auto simp: after_ffn_def Let_def intro!: astate.equality)

subsection \<open>One layer\<close>

definition weights_of :: "astate \<Rightarrow> model_weights" where
  "weights_of x = \<lparr>w_layer = (\<lambda>L t. a_buf x (Weight L t)), w_embedding = a_buf x Embedding, w_lm_head = a_buf x Lm_Head,
     w_final_norm = a_buf x Final_Norm, w_table = a_buf x (Buf sincos_off)\<rparr>"

abbreviation step_context :: "setting \<Rightarrow> int \<Rightarrow> step_ctx" where
  "step_context P sid \<equiv> \<lparr>sctx_cur_pos = word_of_nat (s_pos P), sctx_dump_step_id = sid\<rparr>"

abbreviation layer_state :: "astate \<Rightarrow> kv_rows \<times> kv_rows \<times> u8 list" where
  "layer_state x \<equiv> (a_K x, a_V x, a_buf x (Buf RESID_A))"

definition after_layer :: "setting \<Rightarrow> nat \<Rightarrow> astate \<Rightarrow> astate" where
  "after_layer P L x = after_ffn P L (after_out P L (after_attention P L (after_qkv P L x)))"

lemma does_decoder_layer:
  assumes P: "setting_ok P" and L: "L < 24"
    and kv: "filled (a_kv x) = word_of_nat (s_pos P)" "pending (a_kv x) = word_of_nat L"
  shows "does P (transformer_decoder_layer (s_mach P) (s_ws P) (word_of_nat L) (step_context P sid)) x (after_layer P L x)"
  unfolding transformer_decoder_layer_def after_layer_def Let_def step_ctx.simps
  by (rule does_append does_layer_qkv does_layer_attention does_layer_out does_layer_ffn P L
    | (simp add: after_qkv_def kv Let_def; fail))+

lemma after_layer:
  "layer_state (after_layer P L x) = spec_layer (s_kf P) (mfpu (s_mach P)) (weights_of x) (s_pos P) L (layer_state x)"
  "weights_of (after_layer P L x) = weights_of x"
  "a_kv (after_layer P L x) = (a_kv x)\<lparr>pending := pending (a_kv x) + 1\<rparr>"
  by (simp_all add: after_layer_def after_qkv_def after_attention_def after_out_def after_ffn_def weights_of_def
    spec_layer_def spec_qkv_def spec_ffn_def Let_def)

fun after_layers :: "setting \<Rightarrow> nat \<Rightarrow> astate \<Rightarrow> astate" where
  "after_layers P 0 x = x"
| "after_layers P (Suc n) x = after_layer P n (after_layers P n x)"

lemma after_layers:
  "layer_state (after_layers P n x) = spec_layers (s_kf P) (mfpu (s_mach P)) (weights_of x) (s_pos P) n (layer_state x) \<and>
   weights_of (after_layers P n x) = weights_of x \<and>
   a_kv (after_layers P n x) = (a_kv x)\<lparr>pending := pending (a_kv x) + word_of_nat n\<rparr>"
  by (induction n) (simp_all only: after_layers.simps spec_layers.simps after_layer, simp_all)

lemma does_layers:
  assumes P: "setting_ok P" and kv: "filled (a_kv x) = word_of_nat (s_pos P)" "pending (a_kv x) = 0" and n: "n \<le> 24"
  shows "does P (run_ops (map (\<lambda>i. transformer_decoder_layer (s_mach P) (s_ws P) (word_of_nat i) (step_context P sid)) [0..<n])) x
    (after_layers P n x)"
  using n
proof (induction n)
  case (Suc n)
  have "does P (run_ops [transformer_decoder_layer (s_mach P) (s_ws P) (word_of_nat n) (step_context P sid)]) (after_layers P n x)
      (after_layers P (Suc n) x)"
    using after_layers [of P n x] kv Suc.prems
    by (auto intro!: does_Cons [OF _ does_Nil] does_decoder_layer [OF P])
  then show ?case using Suc by (auto intro: does_append)
qed (simp add: does_def)

subsection \<open>One token\<close>

definition after_step :: "setting \<Rightarrow> nat \<Rightarrow> astate \<Rightarrow> astate" where
  "after_step P tok x = (let KF = s_kf P; fp = mfpu (s_mach P);
     x0 = put (Buf RESID_A) (spec_embed KF (a_buf x Embedding) tok) (put (Buf token_id_buf_off) (bytes_of 4 (word_of_nat tok :: u32)) x);
     x1 = after_layers P 24 x0;
     n = spec_rmsnorm KF fp (a_buf x1 (Buf RESID_A)) (a_buf x1 Final_Norm);
     l = spec_gemm KF 896 151936 n (a_buf x1 Lm_Head) in
   x1\<lparr>a_buf := (a_buf x1)(Buf SCRATCH_X := n, Buf LOGITS := l, Buf token_id_buf_off := spec_argmax KF l),
     a_kv := (a_kv x1)\<lparr>pending := 0, filled := filled (a_kv x1) + 1\<rparr>\<rparr>)"

lemma does_step_ops:
  assumes P: "setting_ok P" and kv: "filled (a_kv x) = word_of_nat (s_pos P)" "pending (a_kv x) = 0" and tok: "tok < 151936"
  shows "does P (run_ops (step_ops (s_mach P) (s_ws P) (word_of_nat tok) (step_context P sid))) x (after_step P tok x)"
proof -
  have wl: "weight_loader_final_norm (ws_wl (s_ws P)) = off P Final_Norm" "weight_loader_lm_head (ws_wl (s_ws P)) = off P Lm_Head"
    using P by (simp_all add: setting_ok_def)
  have "(word_of_nat (s_pos P) :: u32) < 128"
    using setting_okD(3) [OF P] by (simp add: word_less_nat_alt unat_pos [OF P])
  note kv' = this kv after_layers [of P 24, THEN conjunct2, THEN conjunct2]
  have n: "unat (24 :: u32) = 24" by simp
  show ?thesis
    unfolding step_ops_def step_layers_def Let_def config_values [OF P] setting_okD(6) [OF P] wl step_ctx.simps n
    by (rule does_eq, (rule does_append does_rules does_put_token does_embedding does_layers does_argmax does_commit P tok
      | (simp add: kv'; fail))+)
      (auto simp: after_step_def Let_def intro!: astate.equality)
qed

lemma after_step:
  assumes "spec_step (s_kf P) (mfpu (s_mach P)) (weights_of x) (s_pos P) tok (a_K x, a_V x) = (K, V, t)"
  shows "a_K (after_step P tok x) = K" "a_V (after_step P tok x) = V" "a_buf (after_step P tok x) (Buf token_id_buf_off) = t"
    "weights_of (after_step P tok x) = weights_of x"
    "pending (a_kv x) = 0 \<Longrightarrow> a_kv (after_step P tok x) = (a_kv x)\<lparr>filled := filled (a_kv x) + 1\<rparr>"
proof -
  let ?x = "put (Buf RESID_A) (spec_embed (s_kf P) (a_buf x Embedding) tok) (put (Buf token_id_buf_off) (bytes_of 4 (word_of_nat tok :: u32)) x)"
  have w: "weights_of ?x = weights_of x" by (simp add: weights_of_def)
  note al = after_layers [of P 24 ?x, unfolded w]
  have wx: "w_embedding (weights_of y) = a_buf y Embedding" "w_lm_head (weights_of y) = a_buf y Lm_Head"
    "w_final_norm (weights_of y) = a_buf y Final_Norm" for y by (simp_all add: weights_of_def)
  have f: "a_buf (after_layers P 24 ?x) Lm_Head = a_buf x Lm_Head" "a_buf (after_layers P 24 ?x) Final_Norm = a_buf x Final_Norm"
    using al wx by metis+
  show "a_K (after_step P tok x) = K" "a_V (after_step P tok x) = V" "a_buf (after_step P tok x) (Buf token_id_buf_off) = t"
    "weights_of (after_step P tok x) = weights_of x"
    "pending (a_kv x) = 0 \<Longrightarrow> a_kv (after_step P tok x) = (a_kv x)\<lparr>filled := filled (a_kv x) + 1\<rparr>"
    using assms al by (auto simp: after_step_def Let_def spec_step_def spec_head_def weights_of_def f wx split: prod.splits)
qed

lemma step_computes:
  assumes P: "setting_ok P" and ok: "state_ok P st" and kv: "filled (rkv st) = word_of_nat (s_pos P)" "pending (rkv st) = 0"
    and tok: "0 \<le> tok" "tok < 151936"
    and s: "spec_step (s_kf P) (mfpu (s_mach P)) (weights_of (abs_of P st)) (s_pos P) (nat tok) (a_K (abs_of P st), a_V (abs_of P st)) = (K, V, t)"
  shows "\<exists>st'. transformer_step (s_mach P) (s_ws P) tok (int (s_pos P)) sid st = Some (sint (of_bytes t :: u32), st') \<and>
    state_ok P st' \<and> a_K (abs_of P st') = K \<and> a_V (abs_of P st') = V \<and> weights_of (abs_of P st') = weights_of (abs_of P st) \<and>
    rkv st' = (rkv st)\<lparr>filled := filled (rkv st) + 1\<rparr>"
proof -
  let ?x = "abs_of P st"
  have rk: "a_kv (abs_of P st) = rkv st" for st by (simp add: abstr_def)
  have "does P (run_ops (step_ops (s_mach P) (s_ws P) (word_of_nat (nat tok)) (step_context P sid))) ?x (after_step P (nat tok) ?x)"
    using kv tok by (intro does_step_ops [OF P]) (simp_all add: abstr_def)
  then obtain st' where st': "run_ops (step_ops (s_mach P) (s_ws P) (word_of_nat (nat tok)) (step_context P sid)) st = Some (TRANSFORMER_OK, st')"
    "state_ok P st'" and a: "abs_of P st' = after_step P (nat tok) ?x"
    using ok unfolding does_def by blast
  have m: "mem_ok (s_base P) (s_from P) (s_reg P) (rctx st')" using st'(2) by (simp add: state_ok_def)
  have z: "unat (4 :: u64) \<le> snd (s_reg P (Buf token_id_buf_off))" using setting_okD(4) [OF P, of "Buf token_id_buf_off"] by simp
  have "take 4 (held (s_reg P) (rctx st') (Buf token_id_buf_off)) = a_buf (abs_of P st') (Buf token_id_buf_off)"
    by (simp add: abstr_def args_plan_def)
  then have t: "take 4 (held (s_reg P) (rctx st') (Buf token_id_buf_off)) = t" using a after_step(3) [OF s] by simp
  have "gpuMemcpy (rctx st') (ws_off (s_ws P) token_id_buf_off) (bytes_of 4 (0 :: u32)) 4 GPU_MEMCPY_D2H = Some (0, t, rctx st')"
    using slot_copy_out [OF m z, of "bytes_of 4 (0 :: u32)"] t setting_okD(6) [OF P] by simp
  then have "transformer_step (s_mach P) (s_ws P) tok (int (s_pos P)) sid st = Some (sint (of_bytes t :: u32), st')"
    using st'(1) tok by (simp add: transformer_step_def TRANSFORMER_OK_def)
  then show ?thesis
    using st'(2) after_step [OF s] kv a rk [of st'] rk [of st] by auto
qed

end
