(* ===== verification/Infer_Run.thy ===== *)
theory Infer_Run
  imports Infer Infer_Spec Transformer_Refine
begin

text \<open>
  The loops of \<open>lib/test/infer_tokens.c\<close> over the steps: from an empty cache they produce the tokens of the
  specification.
\<close>

subsection \<open>Steps at moving positions\<close>

abbreviation rows_of :: "setting \<Rightarrow> run_state \<Rightarrow> kv_rows \<times> kv_rows" where
  "rows_of P st \<equiv> (a_K (abs_of P st), a_V (abs_of P st))"

lemma set_pos [simp]:
  "setting_ok P \<Longrightarrow> p < 128 \<Longrightarrow> setting_ok (P\<lparr>s_pos := p\<rparr>)" "state_ok (P\<lparr>s_pos := p\<rparr>) = state_ok P"
  "a_buf (abstr (P\<lparr>s_pos := p\<rparr>) C kv) = a_buf (abstr P C kv)" "a_K (abstr (P\<lparr>s_pos := p\<rparr>) C kv) = a_K (abstr P C kv)"
  "a_V (abstr (P\<lparr>s_pos := p\<rparr>) C kv) = a_V (abstr P C kv)" "weights_of (abstr (P\<lparr>s_pos := p\<rparr>) C kv) = weights_of (abstr P C kv)"
proof -
  have s: "slot_size (P\<lparr>s_pos := p\<rparr>) = slot_size P" by (simp add: fun_eq_iff slot_size_def cong: slot.case_cong option.case_cong)
  show "setting_ok P \<Longrightarrow> p < 128 \<Longrightarrow> setting_ok (P\<lparr>s_pos := p\<rparr>)" by (simp add: setting_ok_def s)
  show "state_ok (P\<lparr>s_pos := p\<rparr>) = state_ok P" by (simp add: fun_eq_iff state_ok_def kv_fits_def)
  show "a_buf (abstr (P\<lparr>s_pos := p\<rparr>) C kv) = a_buf (abstr P C kv)" "a_K (abstr (P\<lparr>s_pos := p\<rparr>) C kv) = a_K (abstr P C kv)"
    "a_V (abstr (P\<lparr>s_pos := p\<rparr>) C kv) = a_V (abstr P C kv)" "weights_of (abstr (P\<lparr>s_pos := p\<rparr>) C kv) = weights_of (abstr P C kv)"
    by (simp_all add: abstr_def weights_of_def s cong: if_cong)
qed

text \<open>The choice of the token is an index into the vocabulary.\<close>

definition argmax_in_vocab :: "kernel_fun \<Rightarrow> bool" where
  "argmax_in_vocab KF \<longleftrightarrow> (\<forall>l. 0 \<le> token_of (spec_argmax KF l) \<and> token_of (spec_argmax KF l) < 151936)"

abbreviation cache_at :: "run_state \<Rightarrow> nat \<Rightarrow> bool" where
  "cache_at st p \<equiv> filled (rkv st) = word_of_nat p \<and> pending (rkv st) = 0"

definition valid_token :: "int \<Rightarrow> bool" where
  "valid_token t \<longleftrightarrow> 0 \<le> t \<and> t < 151936"

lemma step_at:
  assumes P: "setting_ok P" and am: "argmax_in_vocab (s_kf P)" and ok: "state_ok P st" "cache_at st p" and p: "p < 128"
    and tok: "valid_token tok"
    and s: "spec_step (s_kf P) (mfpu (s_mach P)) (weights_of (abs_of P st)) p (nat tok) (rows_of P st) = (K, V, t)"
  obtains st' where "transformer_step (s_mach P) (s_ws P) tok (sint (word_of_nat p :: u32)) sid st = Some (token_of t, st')"
    "state_ok P st'" "rows_of P st' = (K, V)" "weights_of (abs_of P st') = weights_of (abs_of P st)" "cache_at st' (Suc p)"
    "valid_token (token_of t)"
proof -
  let ?P = "P\<lparr>s_pos := p\<rparr>"
  have i: "sint (word_of_nat p :: u32) = int p" using p by (simp add: signed_of_nat signed_take_bit_int_eq_self)
  obtain st' where st': "transformer_step (s_mach ?P) (s_ws ?P) tok (int (s_pos ?P)) sid st = Some (sint (of_bytes t :: u32), st')"
    "state_ok ?P st'" "a_K (abs_of ?P st') = K" "a_V (abs_of ?P st') = V" "weights_of (abs_of ?P st') = weights_of (abs_of ?P st)"
    "rkv st' = (rkv st)\<lparr>filled := filled (rkv st) + 1\<rparr>"
    using step_computes [of ?P st tok K V t sid] P ok p tok s by (auto simp: valid_token_def)
  have "\<exists>l. t = spec_argmax (s_kf P) l" using s by (auto simp: spec_step_def spec_head_def split: prod.splits)
  then have "valid_token (token_of t)" using am by (auto simp: argmax_in_vocab_def valid_token_def)
  moreover have "cache_at st' (Suc p)" using st'(6) ok(2) by simp
  ultimately show thesis using st' i by (intro that [of st']) (simp_all add: token_of_def)
qed

subsection \<open>The loops\<close>

lemma prefill_ok:
  assumes P: "setting_ok P" and am: "argmax_in_vocab (s_kf P)" and ok: "state_ok P st" "cache_at st p" and p: "p + length toks \<le> 128"
    and toks: "list_all valid_token toks" and nxt: "toks \<noteq> [] \<or> valid_token nxt"
  shows "\<exists>n' st'. prefill (s_mach P) (s_ws P) p toks nxt st = Some (False, n', st') \<and> state_ok P st' \<and> cache_at st' (p + length toks) \<and>
    spec_prompt (s_kf P) (mfpu (s_mach P)) (weights_of (abs_of P st)) p toks (rows_of P st) nxt = (rows_of P st', n') \<and>
    weights_of (abs_of P st') = weights_of (abs_of P st) \<and> valid_token n'"
  using ok p toks nxt
proof (induction toks arbitrary: p nxt st)
  case (Cons tok toks)
  have pt: "p < 128" "valid_token tok" using Cons.prems by simp_all
  obtain K V t where s: "spec_step (s_kf P) (mfpu (s_mach P)) (weights_of (abs_of P st)) p (nat tok) (rows_of P st) = (K, V, t)"
    by (metis prod_cases3)
  obtain st1 where 1: "transformer_step (s_mach P) (s_ws P) tok (sint (word_of_nat p :: u32)) (-1) st = Some (token_of t, st1)"
    "state_ok P st1" "rows_of P st1 = (K, V)" "weights_of (abs_of P st1) = weights_of (abs_of P st)" "cache_at st1 (Suc p)"
    "valid_token (token_of t)"
    by (rule step_at [OF P am Cons.prems(1,2) pt s]) (rule that)
  have "0 \<le> token_of t" using 1(6) by (simp add: valid_token_def)
  then show ?case
    using Cons.IH [OF 1(2,5), of "token_of t"] 1 Cons.prems s by (auto simp del: of_nat_Suc)
qed simp

lemma decode_ok:
  assumes P: "setting_ok P" and am: "argmax_in_vocab (s_kf P)" and ok: "state_ok P st" "cache_at st (pc + i - 1)"
    and p: "pc + i - 1 + n \<le> 128" "0 < i" and nxt: "valid_token nxt"
  shows "\<exists>st'. decode (s_mach P) (s_ws P) eos pc i n nxt gen st =
      Some (False, gen @ spec_decode (s_kf P) (mfpu (s_mach P)) (weights_of (abs_of P st)) (pc + i - 1) n eos (rows_of P st) nxt, st') \<and>
    state_ok P st'"
  using ok p nxt
proof (induction n arbitrary: i nxt gen st)
  case (Suc n)
  show ?case
  proof (cases "0 \<le> eos \<and> nxt = eos")
    case True
    then show ?thesis using Suc.prems by auto
  next
    case False
    let ?p = "pc + i - 1"
    obtain K V t where s: "spec_step (s_kf P) (mfpu (s_mach P)) (weights_of (abs_of P st)) ?p (nat nxt) (rows_of P st) = (K, V, t)"
      by (metis prod_cases3)
    have p: "?p < 128" using Suc.prems by simp
    obtain st1 where 1: "transformer_step (s_mach P) (s_ws P) nxt (sint (word_of_nat ?p :: u32)) (-1) st = Some (token_of t, st1)"
      "state_ok P st1" "rows_of P st1 = (K, V)" "weights_of (abs_of P st1) = weights_of (abs_of P st)" "cache_at st1 (Suc ?p)"
      "valid_token (token_of t)"
      by (rule step_at [OF P am Suc.prems(1,2) p Suc.prems(5) s]) (rule that)
    have e: "Suc ?p = pc + Suc i - 1" "Suc (pc + i - Suc 0) = pc + i" using Suc.prems by simp_all
    obtain st' where st': "decode (s_mach P) (s_ws P) eos pc (Suc i) n (token_of t) (gen @ [token_of t]) st1 =
        Some (False, (gen @ [token_of t]) @ spec_decode (s_kf P) (mfpu (s_mach P)) (weights_of (abs_of P st1)) (pc + Suc i - 1) n eos
          (rows_of P st1) (token_of t), st')" "state_ok P st'"
      using Suc.IH [OF 1(2) 1(5) [unfolded e(1)] _ _ 1(6)] Suc.prems by fastforce
    have "\<not> token_of t < 0" using 1(6) by (simp add: valid_token_def)
    then show ?thesis
      using False 1 st' s by (intro exI [of _ st']) (auto simp: Let_def e(2) simp del: of_nat_Suc of_nat_add)
  qed
qed simp

lemma generate_ok:
  assumes P: "setting_ok P" and am: "argmax_in_vocab (s_kf P)" and ok: "state_ok P st" "cache_at st 0"
    and pr: "prompt \<noteq> []" "list_all valid_token prompt" "length prompt + unat n - 1 \<le> 128" "length prompt \<le> 128" "n \<noteq> 0"
  obtains st' where "generate (s_mach P) (s_ws P) prompt n eos st =
      Some (Some (spec_generate (s_kf P) (mfpu (s_mach P)) (weights_of (abs_of P st)) prompt (unat n) eos), st')" "state_ok P st'"
proof -
  let ?KF = "s_kf P" and ?fp = "mfpu (s_mach P)" and ?W = "weights_of (abs_of P st)"
  obtain n1 st1 where 1: "prefill (s_mach P) (s_ws P) 0 prompt (-1) st = Some (False, n1, st1)" "state_ok P st1"
    "cache_at st1 (length prompt)" "spec_prompt ?KF ?fp ?W 0 prompt (rows_of P st) (-1) = (rows_of P st1, n1)"
    "weights_of (abs_of P st1) = ?W" "valid_token n1"
    using prefill_ok [OF P am ok, of prompt "-1"] pr by auto
  have b: "length prompt + 1 - 1 + (unat n - 1) \<le> 128" using pr(3,5) by (cases "unat n") (auto simp: unat_eq_zero)
  obtain st2 where 2: "decode (s_mach P) (s_ws P) eos (length prompt) 1 (unat n - 1) n1 [n1] st1 =
      Some (False, [n1] @ spec_decode ?KF ?fp ?W (length prompt) (unat n - 1) eos (rows_of P st1) n1, st2)" "state_ok P st2"
    using decode_ok [OF P am 1(2), of "length prompt" 1 "unat n - 1" n1 eos "[n1]"] 1(3,5,6) b by auto
  have "spec_run ?KF ?fp ?W (rows_of P st) prompt (unat n) eos = n1 # spec_decode ?KF ?fp ?W (length prompt) (unat n - 1) eos (rows_of P st1) n1"
    using 1(4) by (simp add: spec_run_def)
  then show thesis
    using 1(1) 2 spec_run_generate by (intro that [of st2]) (simp_all add: generate_def)
qed

end
