(* ===== verification/Host_State.thy ===== *)
theory Host_State
  imports Transformer
begin

text \<open>
  What every call of the libraries leaves alone in a context: the descriptor and the mapping, and the
  memory of the host, from which calls only take.
\<close>

definition follows :: "gpgpu_ctx \<Rightarrow> gpgpu_ctx \<Rightarrow> bool" where
  "follows ctx ctx' \<longleftrightarrow> fd ctx' = fd ctx \<and> vram_size ctx' = vram_size ctx \<and> vram_mmap ctx' = vram_mmap ctx \<and>
     set (mallocs (sh ctx')) \<subseteq> set (mallocs (sh ctx))"

lemma follows_refl [simp]: "follows ctx ctx"
  by (simp add: follows_def)

lemma follows_trans [trans]: "follows a b \<Longrightarrow> follows b c \<Longrightarrow> follows a c"
  by (auto simp: follows_def)

lemma malloc_mallocs: "malloc s = (ok, s') \<Longrightarrow> set (mallocs s') \<subseteq> set (mallocs s)"
  by (auto simp: malloc_def split: list.splits)

lemma malloc_succeeds: "False \<notin> set (mallocs s) \<Longrightarrow> malloc s = (ok, s') \<Longrightarrow> ok"
  by (cases ok) (auto simp: malloc_def split: list.splits)

lemma follows_malloc: "malloc (sh ctx) = (ok, s) \<Longrightarrow> follows ctx (ctx\<lparr>sh := s\<rparr>)"
  by (simp add: follows_def malloc_mallocs)

lemma follows_vmem [simp]: "follows ctx (ctx\<lparr>sh := (sh ctx)\<lparr>vmem := m\<rparr>\<rparr>)" "follows ctx (ctx\<lparr>sh := (sh ctx)\<lparr>buddy := b, vmem := m\<rparr>\<rparr>)"
  by (simp_all add: follows_def)

lemma follows_slab: "set (mallocs s) \<subseteq> set (mallocs (sh ctx)) \<Longrightarrow> follows ctx (slab_put (ctx\<lparr>sh := s\<rparr>) p c)"
  by (cases p) (simp_all add: follows_def)

subsection \<open>Allocators\<close>

lemma slab_grow_mallocs: "slab_grow c s = Some (rc, c', s') \<Longrightarrow> set (mallocs s') \<subseteq> set (mallocs s)"
  by (auto simp: slab_grow_def Let_def split: bind_splits if_splits prod.splits dest!: malloc_mallocs)

lemma slab_alloc_mallocs: "slab_alloc c s = Some (a, c', s') \<Longrightarrow> set (mallocs s') \<subseteq> set (mallocs s)"
  by (auto simp: slab_alloc_def Let_def split: bind_splits if_splits dest!: slab_grow_mallocs)

lemma slab_free_mallocs: "slab_free c s a = Some (rc, c', s') \<Longrightarrow> mallocs s' = mallocs s"
  by (auto simp: slab_free_def slab_shrink_def Let_def split: bind_splits if_splits)

lemma slab_cache_init_mallocs: "slab_cache_init o' k s = Some (rc, c, s') \<Longrightarrow> set (mallocs s') \<subseteq> set (mallocs s)"
  by (auto simp: slab_cache_init_def Let_def split: bind_splits if_splits dest!: slab_grow_mallocs)

lemma gpuMalloc_follows: "gpuMalloc ctx n = Some (a, ctx') \<Longrightarrow> follows ctx ctx'"
  by (auto simp: gpuMalloc_def Let_def split: bind_splits if_splits option.splits dest!: slab_alloc_mallocs intro!: follows_slab)

lemma gpuFree_follows: "gpuFree ctx a = Some (rc, ctx') \<Longrightarrow> follows ctx ctx'"
  by (auto simp: gpuFree_def Let_def split: bind_splits if_splits option.splits dest!: slab_free_mallocs intro!: follows_slab)

lemma gpuMemcpy_follows: "gpuMemcpy ctx a bs n d = Some (rc, bs', ctx') \<Longrightarrow> follows ctx ctx'"
  by (auto simp: gpuMemcpy_def split: bind_splits if_splits)

lemma init_slabs_follows: "init_slabs ps ctx = Some (ok, ctx') \<Longrightarrow> follows ctx ctx'"
proof (induction ps arbitrary: ctx)
  case (Cons p ps)
  obtain q o' k where p: "p = (q, o', k)" by (cases p)
  obtain rc c s where s: "slab_cache_init o' k (sh ctx) = Some (rc, c, s)"
    "(if rc < 0 then Some (False, slab_put (ctx\<lparr>sh := s\<rparr>) q c) else init_slabs ps (slab_put (ctx\<lparr>sh := s\<rparr>) q c)) = Some (ok, ctx')"
    using Cons.prems by (auto simp: p Let_def split: bind_splits)
  have "follows ctx (slab_put (ctx\<lparr>sh := s\<rparr>) q c)" using slab_cache_init_mallocs [OF s(1)] by (rule follows_slab)
  then show ?case using s(2) Cons.IH by (auto split: if_splits intro: follows_trans)
qed simp

lemma gpuInit_mallocs: "gpuInit ctx h n = Some (rc, ctx', h') \<Longrightarrow> set (mallocs (sh ctx')) \<subseteq> set (mallocs (sh ctx))"
  by (auto simp: gpuInit_def host_open_def ctx_munmap_def Let_def follows_def subset_iff split: bind_splits if_splits dest!: init_slabs_follows)

subsection \<open>Loaders\<close>

lemma alloc_list_follows: "alloc_list gpuMalloc ctx ns = Some (bs, ok, ctx') \<Longrightarrow> follows ctx ctx'"
proof (induction ns arbitrary: ctx bs)
  case (Cons n ns)
  then show ?case by (auto split: bind_splits if_splits dest!: gpuMalloc_follows Cons.IH intro: follows_trans)
qed simp

lemma free_list_follows: "free_list_all gpuFree ctx bs = Some ctx' \<Longrightarrow> follows ctx ctx'"
proof (induction bs arbitrary: ctx)
  case (Cons b bs)
  then show ?case by (auto split: bind_splits dest!: gpuFree_follows Cons.IH intro: follows_trans)
qed simp

lemma load_file_follows: "load_file_to_vram fs ctx p a n = Some (rc, ctx') \<Longrightarrow> follows ctx ctx'"
  by (auto simp: load_file_to_vram_def Let_def split: bind_splits if_splits option.splits prod.splits
    dest!: follows_malloc gpuMemcpy_follows intro: follows_trans)

lemma load_all_follows: "load_all fs ctx xs = Some (ok, ctx') \<Longrightarrow> follows ctx ctx'"
proof (induction xs arbitrary: ctx)
  case (Cons x xs)
  then show ?case by (cases x) (auto split: bind_splits if_splits dest!: load_file_follows Cons.IH intro: follows_trans)
qed simp

lemma weight_load_follows: "weight_loader_load fs ctx dir = Some (wl, ctx') \<Longrightarrow> follows ctx ctx'"
  by (auto simp: weight_loader_load_def Let_def split: bind_splits if_splits option.splits prod.splits
    dest!: follows_malloc alloc_list_follows free_list_follows load_all_follows intro: follows_trans)

lemma weight_destroy_follows: "weight_loader_destroy ctx wl = Some ctx' \<Longrightarrow> follows ctx ctx'"
  by (auto simp: weight_loader_destroy_def split: option.splits dest: free_list_follows)

lemma kv_create_follows: "kv_cache_create ctx nl nh ms hdim = Some (kv, ctx') \<Longrightarrow> follows ctx ctx'"
  by (auto simp: kv_cache_create_def Let_def split: bind_splits if_splits prod.splits
    dest!: follows_malloc gpuMalloc_follows gpuFree_follows intro: follows_trans)

lemma kv_destroy_follows: "kv_cache_destroy ctx kv = Some ctx' \<Longrightarrow> follows ctx ctx'"
  by (auto simp: kv_cache_destroy_def split: bind_splits option.splits dest!: gpuFree_follows intro: follows_trans)

subsection \<open>Transformer\<close>

lemma load_kernel_follows: "load_kernel_bin fs ctx dir name = Some (a, ctx') \<Longrightarrow> follows ctx ctx'"
  by (auto simp: load_kernel_bin_def Let_def split: bind_splits if_splits option.splits prod.splits
    dest!: follows_malloc gpuMalloc_follows gpuMemcpy_follows gpuFree_follows intro: follows_trans)

lemma assign_follows:
  assumes "\<And>ctx x a ctx'. get ctx x = Some (a, ctx') \<Longrightarrow> follows ctx ctx'"
  shows "assign_fields get xs ws ctx = Some (ws', ctx') \<Longrightarrow> follows ctx ctx'"
proof (induction xs arbitrary: ws ctx)
  case (Cons x xs)
  then show ?case by (cases x) (auto split: bind_splits dest!: assms Cons.IH intro: follows_trans)
qed simp

lemma assign_malloc_follows: "assign_fields gpuMalloc xs ws ctx = Some (ws', ctx') \<Longrightarrow> follows ctx ctx'"
  by (rule assign_follows [OF gpuMalloc_follows])

lemma assign_kernel_follows: "assign_fields (\<lambda>ctx. load_kernel_bin fs ctx dir) xs ws ctx = Some (ws', ctx') \<Longrightarrow> follows ctx ctx'"
  by (rule assign_follows [OF load_kernel_follows])

lemma free_fields_follows: "free_fields fs ws ctx = Some ctx' \<Longrightarrow> follows ctx ctx'"
proof (induction fs arbitrary: ctx)
  case (Cons f fs)
  then show ?case by (auto split: bind_splits if_splits dest!: gpuFree_follows Cons.IH intro: follows_trans)
qed simp

lemma transformer_destroy_follows: "transformer_destroy ctx ws = Some ctx' \<Longrightarrow> follows ctx ctx'"
  by (auto simp: transformer_destroy_def split: option.splits bind_splits dest!: free_fields_follows intro: follows_trans)

lemma sincos_mallocs: "compute_sincos_table fp th n k s = Some (t, rc, s') \<Longrightarrow> set (mallocs s') \<subseteq> set (mallocs s)"
  by (auto simp: compute_sincos_table_def Let_def split: bind_splits if_splits prod.splits dest!: malloc_mallocs)

lemma sincos_follows: "compute_sincos_table fp th n k (sh ctx) = Some (t, rc, s) \<Longrightarrow> follows ctx (ctx\<lparr>sh := s\<rparr>)"
  by (simp add: follows_def sincos_mallocs)

lemma init_sincos_follows: "init_sincos dm fp ws ctx d = Some (ok, ctx', d') \<Longrightarrow> follows ctx ctx'"
  by (auto simp: init_sincos_def Let_def split: bind_splits if_splits option.splits
    dest!: sincos_follows gpuMemcpy_follows) (meson follows_trans)+

lemma init_zero_follows: "init_zero ws ctx = Some ctx' \<Longrightarrow> follows ctx ctx'"
  by (auto simp: init_zero_def Let_def split: bind_splits if_splits prod.splits
    dest!: follows_malloc gpuMemcpy_follows intro: follows_trans)

lemma init_fail_follows: "init_fail ws ctx d = Some (res, ctx', d') \<Longrightarrow> follows ctx ctx'"
  by (auto simp: init_fail_def split: bind_splits dest: transformer_destroy_follows)

lemma transformer_init_follows: "transformer_init dm fp fs ctx d wl kv cfg dir = Some (res, ctx', d') \<Longrightarrow> follows ctx ctx'"
  by (auto simp: transformer_init_def Let_def split: bind_splits if_splits prod.splits
    dest!: follows_malloc init_fail_follows init_sincos_follows init_zero_follows
      assign_malloc_follows assign_kernel_follows) (meson follows_trans)+

end
