(* ===== verification/Transformer_Sincos.thy ===== *)
theory Transformer_Sincos
  imports Transformer Kv_Ops
begin

text \<open>
  The table of sines and cosines: the nested loops of \<open>compute_sincos_table\<close> against a table that is
  written down entry by entry.
\<close>

definition sincos_entry :: "fpu \<Rightarrow> u32 \<Rightarrow> nat \<Rightarrow> nat \<Rightarrow> u32" where
  "sincos_entry fp theta hdim i =
     (let angle = sincos_angle fp theta hdim (i div hdim) (i mod hdim div 2)
      in if even (i mod hdim) then cosf fp angle else sinf fp angle)"

definition sincos_table :: "fpu \<Rightarrow> u32 \<Rightarrow> nat \<Rightarrow> nat \<Rightarrow> u32 list" where
  "sincos_table fp theta positions hdim = map (sincos_entry fp theta hdim) [0..<positions * hdim]"

lemma sincos_entry_pair:
  assumes "2 * k + 1 < hdim"
  shows "sincos_entry fp theta hdim (pos * hdim + k * 2) = cosf fp (sincos_angle fp theta hdim pos k)"
    "sincos_entry fp theta hdim (pos * hdim + k * 2 + 1) = sinf fp (sincos_angle fp theta hdim pos k)"
proof -
  have "(pos * hdim + r) div hdim = pos" "(pos * hdim + r) mod hdim = r" if "r < hdim" for r
    using that by simp_all
  from this [of "k * 2"] this [of "k * 2 + 1"] show
    "sincos_entry fp theta hdim (pos * hdim + k * 2) = cosf fp (sincos_angle fp theta hdim pos k)"
    "sincos_entry fp theta hdim (pos * hdim + k * 2 + 1) = sinf fp (sincos_angle fp theta hdim pos k)"
    using assms by (simp_all add: sincos_entry_def Let_def add.assoc)
qed

lemma length_fill_row [simp]: "length (fill_row fp theta hdim pos k n table) = length table"
  by (induction n arbitrary: k table) (simp_all add: Let_def)

lemma fill_row_entries:
  assumes "2 * (k + n) \<le> hdim" "i < length table"
  shows "fill_row fp theta hdim pos k n table ! i =
    (if pos * hdim + k * 2 \<le> i \<and> i < pos * hdim + (k + n) * 2 then sincos_entry fp theta hdim i else table ! i)"
  using assms
proof (induction n arbitrary: k table)
  case 0
  then show ?case by auto
next
  case (Suc n)
  let ?a = "pos * hdim + k * 2" and ?ang = "sincos_angle fp theta hdim pos k"
  let ?t = "table[?a := cosf fp ?ang, ?a + 1 := sinf fp ?ang]"
  have e: "sincos_entry fp theta hdim ?a = cosf fp ?ang" "sincos_entry fp theta hdim (?a + 1) = sinf fp ?ang"
    using sincos_entry_pair [of k hdim] Suc.prems(1) by auto
  have "fill_row fp theta hdim pos (Suc k) n ?t ! i =
      (if pos * hdim + Suc k * 2 \<le> i \<and> i < pos * hdim + (Suc k + n) * 2 then sincos_entry fp theta hdim i else ?t ! i)"
    using Suc.prems by (intro Suc.IH) simp_all
  moreover have "?t ! i = (if i = ?a \<or> i = ?a + 1 then sincos_entry fp theta hdim i else table ! i)"
    using e Suc.prems(2) by (auto simp: nth_list_update)
  ultimately show ?case using Suc.prems by (auto simp: Let_def)
qed

lemma length_fill_rows [simp]: "length (fill_rows fp theta hdim pos n table) = length table"
  by (induction n arbitrary: pos table) simp_all

lemma fill_rows_entries:
  assumes "even hdim" "i < length table"
  shows "fill_rows fp theta hdim pos n table ! i =
    (if pos * hdim \<le> i \<and> i < (pos + n) * hdim then sincos_entry fp theta hdim i else table ! i)"
  using assms
proof (induction n arbitrary: pos table)
  case 0
  then show ?case by auto
next
  case (Suc n)
  let ?t = "fill_row fp theta hdim pos 0 (hdim div 2) table"
  have h: "hdim div 2 * 2 = hdim" using Suc.prems(1) by simp
  have "?t ! i = (if pos * hdim \<le> i \<and> i < pos * hdim + hdim then sincos_entry fp theta hdim i else table ! i)"
    using fill_row_entries [of 0 "hdim div 2" hdim i table fp theta pos] Suc.prems h by simp
  moreover have "fill_rows fp theta hdim (Suc pos) n ?t ! i =
      (if Suc pos * hdim \<le> i \<and> i < (Suc pos + n) * hdim then sincos_entry fp theta hdim i else ?t ! i)"
    using Suc.prems by (intro Suc.IH) simp_all
  ultimately show ?case using Suc.prems by (auto simp: algebra_simps)
qed

lemma fill_rows_table:
  "even hdim \<Longrightarrow> fill_rows fp theta hdim 0 n (replicate (n * hdim) 0) = sincos_table fp theta n hdim"
  by (rule nth_equalityI) (simp_all add: fill_rows_entries sincos_table_def)

lemma sincos_cases:
  assumes "0 < hdim" "even hdim" "hdim \<le> 128" "0 < positions"
  shows "compute_sincos_table fp theta (int positions) (int hdim) s = Some (
    if \<not> fst (malloc s) then (None, TRANSFORMER_ERR_ALLOC, snd (malloc s))
    else let t = sincos_table fp theta positions hdim in
      if \<exists>k<hdim div 2. pair_off fp t k then (None, TRANSFORMER_ERR_SINCOS, snd (malloc s))
      else (Some t, TRANSFORMER_OK, snd (malloc s)))"
proof -
  have h: "hdim div 2 \<le> 64" "int hdim mod 2 = 0" using assms(2,3) by presburger+
  then show ?thesis
    using assms
    by (cases "malloc s") (auto simp: compute_sincos_table_def fill_rows_table Let_def list_ex_iff)
qed

end
