(* ===== verification/Transformer_Init.thy ===== *)
theory Transformer_Init
  imports Transformer_Sincos
begin

text \<open>
  The buffers of a workspace.  Everything the start of the transformer gets from the device memory
  goes into a field of the workspace, from one of two sources: \<open>gpuMalloc\<close> and the loader of a
  kernel.  Both keep the contract of the locale below, in which the loops over the fields are treated.
\<close>

text \<open>
  The fields in \<open>D\<close> hold the addresses of regions of their own, apart from the regions in \<open>R\<close>; the
  other fields hold the mark.
\<close>

definition holds :: "region set \<Rightarrow> ws_field set \<Rightarrow> (ws_field \<Rightarrow> region) \<Rightarrow> transformer_workspace \<Rightarrow> bool" where
  "holds R D reg ws \<longleftrightarrow> inj_on reg D \<and> reg ` D \<inter> R = {} \<and>
     (\<forall>f. ws_off ws f = (if f \<in> D then word_of_nat (fst (reg f)) else OFF_INVALID))"

lemma ws_off_set_off [simp]: "ws_off (set_off f v ws) = (ws_off ws)(f := v)"
  by (simp add: set_off_def)

lemma ws_cfg_set_off [simp]: "ws_cfg (set_off f v ws) = ws_cfg ws" "ws_wl (set_off f v ws) = ws_wl ws"
  by (simp_all add: set_off_def)

lemma holds_skip: "holds R D reg ws \<Longrightarrow> f \<notin> D \<Longrightarrow> holds R D reg (set_off f OFF_INVALID ws)"
  by (auto simp: holds_def)

lemma holds_add:
  assumes "holds R D reg ws" "f \<notin> D" "r \<notin> R \<union> reg ` D"
  shows "holds R (insert f D) (reg(f := r)) (set_off f (word_of_nat (fst r)) ws)"
proof -
  have i: "(reg(f := r)) ` D = reg ` D" using assms(2) by auto
  have "inj_on (reg(f := r)) (insert f D)"
    using assms by (auto simp: holds_def inj_on_def)
  then show ?thesis using assms i by (auto simp: holds_def)
qed

locale field_source = vram_alloc +
  fixes get :: "'s \<Rightarrow> 'x \<Rightarrow> (u64 \<times> 's) option"
    and good :: "'x \<Rightarrow> region \<Rightarrow> u8 list \<Rightarrow> bool"
  assumes get_cases: "inv s R \<Longrightarrow>
      (\<exists>s'. get s x = Some (-1, s') \<and> inv s' R \<and> (\<forall>r\<in>R. data s' r = data s r)) \<or>
      (\<exists>r s'. get s x = Some (word_of_nat (fst r), s') \<and> inv s' (insert r R) \<and> r \<notin> R \<and>
         good x r (data s' r) \<and> (\<forall>r\<in>R. data s' r = data s r))"
begin

lemma assign_one:
  assumes i: "inv s (R \<union> reg ` D)" and h: "holds R D reg ws" and f: "f \<notin> D"
  obtains v s' D' reg' where "get s x = Some (v, s')" "inv s' (R \<union> reg' ` D')" "holds R D' reg' (set_off f v ws)"
    "D \<subseteq> D'" "D' \<subseteq> insert f D" "\<forall>g\<in>D. reg' g = reg g" "f \<in> D' \<Longrightarrow> good x (reg' f) (data s' (reg' f))"
    "\<forall>r\<in>R \<union> reg ` D. data s' r = data s r"
proof -
  consider (no) s' where "get s x = Some (-1, s')" "inv s' (R \<union> reg ` D)" "\<forall>r\<in>R \<union> reg ` D. data s' r = data s r"
    | (yes) r s' where "get s x = Some (word_of_nat (fst r), s')" "inv s' (insert r (R \<union> reg ` D))"
      "r \<notin> R \<union> reg ` D" "good x r (data s' r)" "\<forall>r\<in>R \<union> reg ` D. data s' r = data s r"
    using get_cases [OF i, of x] by blast
  then show thesis
  proof cases
    case no
    then show thesis
      using f holds_skip [OF h f] by (intro that [of "-1" s' reg D]) (auto simp: OFF_INVALID_def)
  next
    case yes
    have e: "R \<union> (reg(f := r)) ` insert f D = insert r (R \<union> reg ` D)" using f by auto
    show thesis
      using yes f holds_add [OF h f yes(3)] e
      by (intro that [of "word_of_nat (fst r)" s' "reg(f := r)" "insert f D"]) auto
  qed
qed

lemma assign_all:
  assumes "inv s (R \<union> reg ` D)" "holds R D reg ws" "distinct (map fst xs)" "set (map fst xs) \<inter> D = {}"
  obtains ws' s' D' reg' where "assign_fields get xs ws s = Some (ws', s')" "inv s' (R \<union> reg' ` D')"
    "holds R D' reg' ws'" "D \<subseteq> D'" "D' \<subseteq> D \<union> set (map fst xs)" "\<forall>g\<in>D. reg' g = reg g"
    "\<And>f x. (f, x) \<in> set xs \<Longrightarrow> f \<in> D' \<Longrightarrow> good x (reg' f) (data s' (reg' f))"
    "\<forall>r\<in>R \<union> reg ` D. data s' r = data s r" "ws_cfg ws' = ws_cfg ws" "ws_wl ws' = ws_wl ws"
  using assms
proof (induction xs arbitrary: s reg D ws thesis)
  case Nil
  show ?case by (rule Nil.prems(1) [of ws s reg D]) (use Nil.prems(2,3) in simp_all)
next
  case (Cons fx xs)
  obtain f x where fx: "fx = (f, x)" by (cases fx)
  have fD: "f \<notin> D" using Cons.prems(5) by (simp add: fx)
  obtain v s1 D1 reg1 where 1: "get s x = Some (v, s1)" "inv s1 (R \<union> reg1 ` D1)" "holds R D1 reg1 (set_off f v ws)"
    "D \<subseteq> D1" "D1 \<subseteq> insert f D" "\<forall>g\<in>D. reg1 g = reg g" "f \<in> D1 \<Longrightarrow> good x (reg1 f) (data s1 (reg1 f))"
    "\<forall>r\<in>R \<union> reg ` D. data s1 r = data s r"
    by (rule assign_one [OF Cons.prems(2,3) fD, of x]) (rule that)
  have d: "distinct (map fst xs)" "set (map fst xs) \<inter> D1 = {}"
    using Cons.prems(4,5) 1(5) by (auto simp: fx)
  obtain ws' s' D' reg' where 2: "assign_fields get xs (set_off f v ws) s1 = Some (ws', s')" "inv s' (R \<union> reg' ` D')"
    "holds R D' reg' ws'" "D1 \<subseteq> D'" "D' \<subseteq> D1 \<union> set (map fst xs)" "\<forall>g\<in>D1. reg' g = reg1 g"
    "\<And>f x. (f, x) \<in> set xs \<Longrightarrow> f \<in> D' \<Longrightarrow> good x (reg' f) (data s' (reg' f))"
    "\<forall>r\<in>R \<union> reg1 ` D1. data s' r = data s1 r" "ws_cfg ws' = ws_cfg (set_off f v ws)" "ws_wl ws' = ws_wl (set_off f v ws)"
    by (rule Cons.IH [OF _ 1(2,3) d]) (rule that)
  have g: "good x (reg' f) (data s' (reg' f))" if "f \<in> D'"
  proof -
    have "f \<in> D1" using that 2(5) Cons.prems(4) by (auto simp: fx)
    then show ?thesis using 1(7) 2(6,8) by auto
  qed
  have nf: "f \<notin> fst ` set xs" using Cons.prems(4) by (simp add: fx)
  have k: "data s' r = data s r" if "r \<in> R \<union> reg ` D" for r
  proof -
    have "r \<in> R \<union> reg1 ` D1" using that 1(4,6) by force
    then show ?thesis using 1(8) 2(8) that by simp
  qed
  show ?case
    using 1 2 g k nf by (intro Cons.prems(1) [of ws' s' reg' D']) (auto simp: fx)
qed

text \<open>The loop that looks for the mark tells whether all fields of a plan were filled.\<close>

lemma all_assigned_iff:
  assumes "inv s (R \<union> reg ` D)" "holds R D reg ws"
  shows "all_assigned xs ws \<longleftrightarrow> set (map fst xs) \<subseteq> D"
proof -
  have "ws_off ws f \<noteq> OFF_INVALID \<longleftrightarrow> f \<in> D" for f
    using assms(2) addr_valid(1) [OF assms(1), of "fst (reg f)" "snd (reg f)"] by (auto simp: holds_def OFF_INVALID_def)
  then show ?thesis by (auto simp: all_assigned_def list_all_iff)
qed

end

subsection \<open>The two sources\<close>

definition kernel_loaded :: "file_system \<Rightarrow> string \<Rightarrow> string \<Rightarrow> region \<Rightarrow> u8 list \<Rightarrow> bool" where
  "kernel_loaded fs dir name r d \<longleftrightarrow> (\<exists>bs n. content fs (path dir (name @ ''.bin'')) = Some bs \<and>
     stat_size fs (path dir (name @ ''.bin'')) = Some n \<and> 0 < unat n \<and> unat n \<le> length bs \<and> unat n \<le> snd r \<and>
     take (unat n) d = take (unat n) bs)"

lemma load_kernel_cases:
  assumes h: "heap B S N ctx R"
  shows "(\<exists>ctx'. load_kernel_bin fs ctx dir name = Some (-1, ctx') \<and> heap B S N ctx' R \<and> (\<forall>r\<in>R. rdata ctx' r = rdata ctx r)) \<or>
    (\<exists>r ctx'. load_kernel_bin fs ctx dir name = Some (word_of_nat (fst r), ctx') \<and> heap B S N ctx' (insert r R) \<and> r \<notin> R \<and>
       kernel_loaded fs dir name r (rdata ctx' r) \<and> (\<forall>r\<in>R. rdata ctx' r = rdata ctx r))"
proof -
  let ?p = "path dir (name @ ''.bin'')"
  let ?ctx = "ctx\<lparr>sh := snd (malloc (sh ctx))\<rparr>"
  note hm = heap_malloc [OF h]
  obtain b s where ms: "malloc (sh ctx) = (b, s)" by fastforce
  consider (none) "content fs ?p = None" | (size) bs where "content fs ?p = Some bs"
      "\<nexists>n. stat_size fs ?p = Some n \<and> 0 < sint n"
    | (mem) bs n where "content fs ?p = Some bs" "stat_size fs ?p = Some n" "0 < sint n" "\<not> b \<or> length bs < unat n"
    | (ok) bs n where "content fs ?p = Some bs" "stat_size fs ?p = Some n" "0 < sint n" b "unat n \<le> length bs"
    by (metis not_le option.exhaust)
  then show ?thesis
  proof cases
    case none
    then show ?thesis using h by (simp add: load_kernel_bin_def OFF_INVALID_def)
  next
    case (size bs)
    then show ?thesis
      using h by (intro disjI1 exI [of _ ctx]) (auto simp: load_kernel_bin_def OFF_INVALID_def Let_def not_less split: option.splits)
  next
    case (mem bs n)
    have "load_kernel_bin fs ctx dir name = Some (-1, ?ctx)"
      using mem ms by (auto simp: load_kernel_bin_def OFF_INVALID_def Let_def min_def)
    then show ?thesis using hm by simp
  next
    case (ok bs n)
    have n0: "0 < unat n" using ok(3) by (metis gr0I sint_0 unat_0_iff less_irrefl)
    consider (f) c1 where "gpuMalloc ?ctx n = Some (-1, c1)" "heap B S N c1 R" "\<forall>r\<in>R. rdata c1 r = rdata ?ctx r"
      | (k) a l c1 where "gpuMalloc ?ctx n = Some (word_of_nat a, c1)" "heap B S N c1 (insert (a, l) R)" "(a, l) \<notin> R"
        "unat n \<le> l" "\<forall>r\<in>R. rdata c1 r = rdata ?ctx r"
      using gpu.alloc_cases [OF hm(1)] by blast
    then show ?thesis
    proof cases
      case f
      have "load_kernel_bin fs ctx dir name = Some (-1, c1)"
        using ok ms f(1) by (simp add: load_kernel_bin_def OFF_INVALID_def Let_def)
      then show ?thesis using f hm(2) by auto
    next
      case k
      have a1: "word_of_nat a \<noteq> (-1 :: u64)" using gpu.addr_valid(1) [OF k(2)] by blast
      have d: "0 + unat n \<le> l" "unat n \<le> length (take (unat n) bs)" using k(4) ok(5) by simp_all
      obtain c2 where c2: "gpuMemcpy c1 (word_of_nat (a + 0)) (take (unat n) bs) n GPU_MEMCPY_H2D = Some (0, take (unat n) bs, c2)"
        "heap B S N c2 (insert (a, l) R)"
        "rdata c2 (a, l) = take 0 (rdata c1 (a, l)) @ take (unat n) (take (unat n) bs) @ drop (0 + unat n) (rdata c1 (a, l))"
        "\<forall>r\<in>insert (a, l) R - {(a, l)}. rdata c2 r = rdata c1 r"
        using gpu.copy_in [OF k(2) _ d, of a] by blast
      have "load_kernel_bin fs ctx dir name = Some (word_of_nat (fst (a, l)), c2)"
        using ok ms k(1) c2(1) a1 by (simp add: load_kernel_bin_def OFF_INVALID_def Let_def)
      moreover have "kernel_loaded fs dir name (a, l) (rdata c2 (a, l))"
        using ok n0 k(4) c2(3) by (auto simp: kernel_loaded_def)
      moreover have "\<forall>r\<in>R. rdata c2 r = rdata ctx r" using k(3,5) c2(4) hm(2) by auto
      ultimately show ?thesis using c2(2) k(3) by blast
    qed
  qed
qed

interpretation src: field_source "heap B S N" gpuMalloc gpuFree rdata gpuMalloc "\<lambda>n r d. unat n \<le> snd r" for B S N
proof unfold_locales
  fix s R n assume "heap B S N s R"
  from gpu.alloc_cases [OF this, of n]
  show "(\<exists>s'. gpuMalloc s n = Some (-1, s') \<and> heap B S N s' R \<and> (\<forall>r\<in>R. rdata s' r = rdata s r)) \<or>
      (\<exists>r s'. gpuMalloc s n = Some (word_of_nat (fst r), s') \<and> heap B S N s' (insert r R) \<and> r \<notin> R \<and>
         unat n \<le> snd r \<and> (\<forall>r\<in>R. rdata s' r = rdata s r))"
    by (elim disjE exE conjE) (rule disjI1, fastforce, rule disjI2, fastforce)
qed

interpretation kern: field_source "heap B S N" gpuMalloc gpuFree rdata "\<lambda>ctx. load_kernel_bin fs ctx dir" "kernel_loaded fs dir"
  for B S N fs dir
  by unfold_locales (rule load_kernel_cases)

subsection \<open>Freeing\<close>

lemma free_fields_append:
  "free_fields (fs @ gs) ws ctx = do { ctx \<leftarrow> free_fields fs ws ctx; free_fields gs ws ctx }"
proof (induction fs arbitrary: ctx)
  case (Cons f fs)
  show ?case by (cases "gpuFree ctx (ws_off ws f)") (simp_all add: Cons.IH split: prod.splits)
qed simp

lemma free_fields_holds:
  assumes "heap B S N ctx (R \<union> reg ` E)" "holds R D reg ws" "E \<subseteq> D" "distinct fs" "\<forall>f\<in>set fs. f \<in> D \<longrightarrow> f \<in> E"
  obtains ctx' where "free_fields fs ws ctx = Some ctx'" "heap B S N ctx' (R \<union> reg ` (E - set fs))"
    "\<forall>r\<in>R \<union> reg ` (E - set fs). rdata ctx' r = rdata ctx r"
  using assms
proof (induction fs arbitrary: ctx E thesis)
  case Nil
  show ?case by (rule Nil.prems(1) [of ctx]) (use Nil.prems(2) in simp_all)
next
  case (Cons f fs)
  show ?case
  proof (cases "f \<in> D")
    case False
    then have o: "ws_off ws f = OFF_INVALID" and E: "E - insert f (set fs) = E - set fs"
      using Cons.prems(3,4) by (auto simp: holds_def)
    obtain ctx' where "free_fields fs ws ctx = Some ctx'" "heap B S N ctx' (R \<union> reg ` (E - set fs))"
      "\<forall>r\<in>R \<union> reg ` (E - set fs). rdata ctx' r = rdata ctx r"
      by (rule Cons.IH [OF _ Cons.prems(2,3,4)]) (use Cons.prems(5,6) that in auto)
    then show ?thesis by (intro Cons.prems(1) [of ctx']) (simp_all add: o E)
  next
    case True
    then have fE: "f \<in> E" using Cons.prems(6) by simp
    obtain a l where al: "reg f = (a, l)" by (cases "reg f")
    have r: "(a, l) \<in> R \<union> reg ` E" using fE al by force
    have o: "ws_off ws f = word_of_nat a" "word_of_nat a \<noteq> OFF_INVALID"
      using Cons.prems(3) True al gpu.addr_valid(1) [OF Cons.prems(2) r] by (auto simp: holds_def OFF_INVALID_def)
    have E: "R \<union> reg ` E - {(a, l)} = R \<union> reg ` (E - {f})"
    proof -
      have "inj_on reg E" "reg f \<notin> R"
        using Cons.prems(3,4) True by (auto simp: holds_def intro: inj_on_subset)
      then have "reg ` (E - {f}) = reg ` E - {reg f}" using fE by (simp add: inj_on_image_set_diff)
      then show ?thesis using \<open>reg f \<notin> R\<close> al by auto
    qed
    obtain c1 where c1: "gpuFree ctx (word_of_nat a) = Some (0, c1)" "heap B S N c1 (R \<union> reg ` (E - {f}))"
      "\<forall>q\<in>R \<union> reg ` (E - {f}). rdata c1 q = rdata ctx q"
      using gpu.free_ok [OF Cons.prems(2) r] unfolding E by blast
    have sE: "E - {f} - set fs = E - set (f # fs)" by auto
    obtain ctx' where c: "free_fields fs ws c1 = Some ctx'" "heap B S N ctx' (R \<union> reg ` (E - set (f # fs)))"
      "\<forall>r\<in>R \<union> reg ` (E - set (f # fs)). rdata ctx' r = rdata c1 r"
      by (rule Cons.IH [OF _ c1(2) Cons.prems(3), unfolded sE]) (use Cons.prems(4,5,6) that in auto)
    have "R \<union> reg ` (E - set (f # fs)) \<subseteq> R \<union> reg ` (E - {f})" by auto
    then show ?thesis using c c1 o by (intro Cons.prems(1) [of ctx']) auto
  qed
qed

lemma ws_fields_split: "ws_fields = map fst (scratch_plan cfg) @ map fst kernel_plan @ map fst args_plan"
  by (simp add: ws_fields_def scratch_plan_def kernel_plan_def args_plan_def)

lemma distinct_ws_fields: "distinct ws_fields"
  by (simp add: ws_fields_def)

lemma all_ws_fields: "set ws_fields = UNIV"
proof (rule set_eqI)
  fix f show "f \<in> set ws_fields \<longleftrightarrow> f \<in> UNIV" by (cases f) (simp_all add: ws_fields_def)
qed

theorem destroy_holds:
  assumes "heap B S N ctx (R \<union> reg ` D)" "holds R D reg ws"
  obtains ctx' where "transformer_destroy ctx (Some ws) = Some ctx'" "heap B S N ctx' R" "\<forall>r\<in>R. rdata ctx' r = rdata ctx r"
proof -
  have a: "\<forall>f\<in>set ws_fields. f \<in> D \<longrightarrow> f \<in> D" by simp
  obtain ctx' where "free_fields ws_fields ws ctx = Some ctx'" "heap B S N ctx' (R \<union> reg ` (D - set ws_fields))"
    "\<forall>r\<in>R \<union> reg ` (D - set ws_fields). rdata ctx' r = rdata ctx r"
    by (rule free_fields_holds [OF assms subset_refl distinct_ws_fields a]) (rule that)
  moreover have "transformer_destroy ctx (Some ws) = free_fields ws_fields ws ctx"
    by (simp add: transformer_destroy_def ws_fields_split [of "ws_cfg ws"] free_fields_append)
  ultimately show thesis by (intro that [of ctx']) (simp_all add: all_ws_fields)
qed

subsection \<open>Starting\<close>

lemma unat_sincos_size: "unat hdim \<le> 128 \<Longrightarrow> unat (size4 128 hdim) = 128 * unat hdim * 4"
proof -
  assume a: "unat hdim \<le> 128"
  have "size4 128 hdim = (word_of_nat (128 * unat hdim * 4) :: u64)" by (simp add: size4_def)
  then show ?thesis using unat_of_nat64 [of "128 * unat hdim * 4"] a by simp
qed

lemma sint_small: "unat (w :: u32) < 2 ^ 31 \<Longrightarrow> sint w = int (unat w)"
proof -
  assume "unat w < 2 ^ 31"
  then have "int (unat w) < int (2 ^ 31)" by (simp only: of_nat_less_iff)
  moreover have "0 \<le> uint w" by simp
  ultimately have "uint w < 2 ^ 31" by simp
  moreover have "- (2 ^ 31) \<le> uint w" by (rule order_trans [of _ 0]) simp_all
  ultimately show ?thesis by (simp add: sint_uint signed_take_bit_int_eq_self)
qed

definition head_dim_ok :: "transformer_config \<Rightarrow> bool" where
  "head_dim_ok cfg \<longleftrightarrow> 0 < unat (cfg_head_dim cfg) \<and> even (unat (cfg_head_dim cfg)) \<and> unat (cfg_head_dim cfg) \<le> 128"

lemma head_dim_sint: "head_dim_ok cfg \<Longrightarrow> sint (cfg_head_dim cfg) = int (unat (cfg_head_dim cfg))"
  by (rule sint_small) (simp add: head_dim_ok_def)

definition rope_table :: "fpu \<Rightarrow> transformer_config \<Rightarrow> u32 list" where
  "rope_table fp cfg = sincos_table fp (cfg_rope_theta cfg) 128 (unat (cfg_head_dim cfg))"

lemma length_rope_table [simp]: "length (rope_table fp cfg) = 128 * unat (cfg_head_dim cfg)"
  by (simp add: rope_table_def sincos_table_def)

lemma init_sincos_cases:
  assumes h: "heap B S N ctx R" and hd: "head_dim_ok (ws_cfg ws)" "cfg_max_seq (ws_cfg ws) = 128"
    and r: "ws_off ws sincos_off = word_of_nat a" "(a, l) \<in> R" "128 * unat (cfg_head_dim (ws_cfg ws)) * 4 \<le> l"
  obtains (no) ctx' where "init_sincos dm fp ws ctx d = Some (False, ctx', d)" "heap B S N ctx' R" "rdata ctx' = rdata ctx"
      "\<not> fst (malloc (sh ctx)) \<or> (\<exists>j<unat (cfg_head_dim (ws_cfg ws)) div 2. pair_off fp (rope_table fp (ws_cfg ws)) j)"
  | (yes) ctx' d' where "init_sincos dm fp ws ctx d = Some (True, ctx', d')" "heap B S N ctx' R"
      "take (128 * unat (cfg_head_dim (ws_cfg ws)) * 4) (rdata ctx' (a, l)) = float_bytes (rope_table fp (ws_cfg ws))"
      "\<forall>q\<in>R - {(a, l)}. rdata ctx' q = rdata ctx q"
      "d' = (if dm then put_file ''dump/sincos.bin'' (float_bytes (rope_table fp (ws_cfg ws))) d else d)"
proof -
  let ?cfg = "ws_cfg ws" and ?t = "rope_table fp (ws_cfg ws)"
  let ?n = "128 * unat (cfg_head_dim (ws_cfg ws)) * 4" and ?sz = "size4 128 (cfg_head_dim (ws_cfg ws))"
  let ?ctx = "ctx\<lparr>sh := snd (malloc (sh ctx))\<rparr>"
  note hm = heap_malloc [OF h]
  have k: "0 < unat (cfg_head_dim ?cfg)" "even (unat (cfg_head_dim ?cfg))" "unat (cfg_head_dim ?cfg) \<le> 128"
    using hd(1) by (simp_all add: head_dim_ok_def)
  have u: "unat ?sz = ?n" using unat_sincos_size k(3) by blast
  have s128: "sint (128 :: u32) = 128" using sint_small [of 128] by simp
  have T: "compute_sincos_table fp (cfg_rope_theta ?cfg) 128 (sint (cfg_head_dim ?cfg)) (sh ctx) = Some (
    if \<not> fst (malloc (sh ctx)) then (None, TRANSFORMER_ERR_ALLOC, snd (malloc (sh ctx)))
    else if \<exists>j<unat (cfg_head_dim ?cfg) div 2. pair_off fp ?t j then (None, TRANSFORMER_ERR_SINCOS, snd (malloc (sh ctx)))
      else (Some ?t, TRANSFORMER_OK, snd (malloc (sh ctx))))"
    using sincos_cases [OF k, of 128 fp "cfg_rope_theta ?cfg" "sh ctx"]
    by (simp only: head_dim_sint [OF hd(1)] rope_table_def Let_def of_nat_numeral zero_less_numeral)
  consider (bad) "\<not> fst (malloc (sh ctx)) \<or> (\<exists>j<unat (cfg_head_dim ?cfg) div 2. pair_off fp ?t j)"
    | (ok) "fst (malloc (sh ctx))" "\<not> (\<exists>j<unat (cfg_head_dim ?cfg) div 2. pair_off fp ?t j)" by blast
  then show thesis
  proof cases
    case bad
    then have "init_sincos dm fp ws ctx d = Some (False, ?ctx, d)"
      by (auto simp: init_sincos_def hd(2) s128 T Let_def)
    then show thesis using hm bad by (intro no [of ?ctx]) simp_all
  next
    case ok
    have d: "0 + unat ?sz \<le> l" "unat ?sz \<le> length (float_bytes ?t)" using r(3) u by simp_all
    obtain c2 where c2: "gpuMemcpy ?ctx (word_of_nat (a + 0)) (float_bytes ?t) ?sz GPU_MEMCPY_H2D = Some (0, float_bytes ?t, c2)"
      "heap B S N c2 R" "rdata c2 (a, l) = take 0 (rdata ?ctx (a, l)) @ take (unat ?sz) (float_bytes ?t) @ drop (0 + unat ?sz) (rdata ?ctx (a, l))"
      "\<forall>q\<in>R - {(a, l)}. rdata c2 q = rdata ?ctx q"
      using gpu.copy_in [OF hm(1) r(2) d] by blast
    have "take ?n (rdata c2 (a, l)) = float_bytes ?t" using c2(3) by (simp add: u)
    moreover have "init_sincos dm fp ws ctx d =
        Some (True, c2, if dm then put_file ''dump/sincos.bin'' (float_bytes ?t) d else d)"
      using ok c2(1) by (simp add: init_sincos_def hd(2) s128 T r(1) Let_def)
    moreover have "\<forall>q\<in>R - {(a, l)}. rdata c2 q = rdata ctx q" using c2(4) hm(2) by simp
    ultimately show thesis using c2(2) by (intro yes) simp_all
  qed
qed

lemma init_zero_ok:
  assumes h: "heap B S N ctx R" and z: "n = size4 (cfg_S_max (ws_cfg ws)) (cfg_D (ws_cfg ws))"
    and r: "ws_off ws RESID_A = word_of_nat a" "(a, l) \<in> R" "unat n \<le> l"
      "ws_off ws RESID_B = word_of_nat b" "(b, k) \<in> R" "unat n \<le> k"
  obtains ctx' where "init_zero ws ctx = Some ctx'" "heap B S N ctx' R" "\<forall>q\<in>R - {(a, l), (b, k)}. rdata ctx' q = rdata ctx q"
proof -
  let ?ctx = "ctx\<lparr>sh := snd (malloc (sh ctx))\<rparr>" and ?z = "replicate (unat n) (0 :: u8)"
  note hm = heap_malloc [OF h]
  have d: "0 + unat n \<le> l" "0 + unat n \<le> k" "unat n \<le> length ?z" using r by simp_all
  obtain c1 where c1: "gpuMemcpy ?ctx (word_of_nat (a + 0)) ?z n GPU_MEMCPY_H2D = Some (0, ?z, c1)"
    "heap B S N c1 R" "\<forall>q\<in>R - {(a, l)}. rdata c1 q = rdata ?ctx q"
    using gpu.copy_in [OF hm(1) r(2) d(1,3)] by blast
  obtain c2 where c2: "gpuMemcpy c1 (word_of_nat (b + 0)) ?z n GPU_MEMCPY_H2D = Some (0, ?z, c2)"
    "heap B S N c2 R" "\<forall>q\<in>R - {(b, k)}. rdata c2 q = rdata c1 q"
    using gpu.copy_in [OF c1(2) r(5) d(2,3)] by blast
  obtain ok s where ms: "malloc (sh ctx) = (ok, s)" by fastforce
  show thesis
  proof (cases ok)
    case False
    then show thesis using hm by (intro that [of ?ctx]) (simp_all add: init_zero_def ms Let_def)
  next
    case True
    then show thesis
      using c1 c2 hm(2) r(1,4) by (intro that [of c2]) (simp_all add: init_zero_def ms z Let_def)
  qed
qed

text \<open>What a workspace that has started owns.\<close>

definition ws_ready :: "fpu \<Rightarrow> file_system \<Rightarrow> string \<Rightarrow> gpgpu_ctx \<Rightarrow> region set \<Rightarrow> (ws_field \<Rightarrow> region) \<Rightarrow>
    transformer_workspace \<Rightarrow> bool" where
  "ws_ready fp fs dir ctx R reg ws \<longleftrightarrow> holds R UNIV reg ws \<and>
     (\<forall>(f, n)\<in>set (scratch_plan (ws_cfg ws) @ args_plan). unat n \<le> snd (reg f)) \<and>
     (\<forall>(f, name)\<in>set kernel_plan. kernel_loaded fs dir name (reg f) (rdata ctx (reg f))) \<and>
     take (128 * unat (cfg_head_dim (ws_cfg ws)) * 4) (rdata ctx (reg sincos_off)) =
       float_bytes (rope_table fp (ws_cfg ws))"

lemma fold_set_off:
  "ws_off (fold (\<lambda>f. set_off f v) fs ws) = (\<lambda>g. if g \<in> set fs then v else ws_off ws g)"
  "ws_cfg (fold (\<lambda>f. set_off f v) fs ws) = ws_cfg ws" "ws_wl (fold (\<lambda>f. set_off f v) fs ws) = ws_wl ws"
  by (induction fs arbitrary: ws) (simp_all add: fun_eq_iff)

lemma plan_parts:
  "distinct (map fst (scratch_plan cfg))" "distinct (map fst kernel_plan)" "distinct (map fst args_plan)"
  "set (map fst kernel_plan) \<inter> set (map fst (scratch_plan cfg)) = {}"
  "set (map fst args_plan) \<inter> (set (map fst (scratch_plan cfg)) \<union> set (map fst kernel_plan)) = {}"
  "set (map fst (scratch_plan cfg)) \<union> set (map fst kernel_plan) \<union> set (map fst args_plan) = UNIV"
proof -
  have d: "distinct (map fst (scratch_plan cfg) @ map fst kernel_plan @ map fst args_plan)"
    using distinct_ws_fields unfolding ws_fields_split [of cfg] .
  show "distinct (map fst (scratch_plan cfg))" "distinct (map fst kernel_plan)" "distinct (map fst args_plan)"
    using d unfolding distinct_append by blast+
  show "set (map fst kernel_plan) \<inter> set (map fst (scratch_plan cfg)) = {}"
    "set (map fst args_plan) \<inter> (set (map fst (scratch_plan cfg)) \<union> set (map fst kernel_plan)) = {}"
    using d unfolding distinct_append set_append by blast+
  show "set (map fst (scratch_plan cfg)) \<union> set (map fst kernel_plan) \<union> set (map fst args_plan) = UNIV"
    using all_ws_fields unfolding ws_fields_split [of cfg] set_append by blast
qed

lemma init_fail_ok:
  assumes "heap B S N ctx (R \<union> reg ` D)" "holds R D reg ws" "\<forall>r\<in>R. rdata ctx r = rdata ctx0 r"
  obtains ctx' where "init_fail ws ctx d = Some (None, ctx', d)" "heap B S N ctx' R" "\<forall>r\<in>R. rdata ctx' r = rdata ctx0 r"
proof -
  obtain ctx' where "transformer_destroy ctx (Some ws) = Some ctx'" "heap B S N ctx' R" "\<forall>r\<in>R. rdata ctx' r = rdata ctx r"
    by (rule destroy_holds [OF assms(1,2)]) (rule that)
  then show thesis using assms(3) by (intro that [of ctx']) (simp_all add: init_fail_def)
qed

text \<open>The three runs of assignments: some field keeps the mark, or every field has its region.\<close>

lemma init_buffers:
  assumes h: "heap B S N ctx R"
    and ws: "ws = fold (\<lambda>f. set_off f OFF_INVALID) ws_fields \<lparr>ws_wl = wl, ws_cfg = cfg, ws_off = (\<lambda>_. 0)\<rparr>"
  obtains (scratch) ws1 ctx1 D reg where "assign_fields gpuMalloc (scratch_plan cfg) ws ctx = Some (ws1, ctx1)"
    "\<not> all_assigned (scratch_plan cfg) ws1" "heap B S N ctx1 (R \<union> reg ` D)" "holds R D reg ws1" "\<forall>r\<in>R. rdata ctx1 r = rdata ctx r"
  | (kernels) ws1 ctx1 ws2 ctx2 D reg where "assign_fields gpuMalloc (scratch_plan cfg) ws ctx = Some (ws1, ctx1)"
    "all_assigned (scratch_plan cfg) ws1"
    "assign_fields (\<lambda>ctx. load_kernel_bin fs ctx dir) kernel_plan ws1 ctx1 = Some (ws2, ctx2)"
    "\<not> all_assigned kernel_plan ws2" "heap B S N ctx2 (R \<union> reg ` D)" "holds R D reg ws2" "\<forall>r\<in>R. rdata ctx2 r = rdata ctx r"
  | (full) ws1 ctx1 ws2 ctx2 ws3 ctx3 D reg where "assign_fields gpuMalloc (scratch_plan cfg) ws ctx = Some (ws1, ctx1)"
    "all_assigned (scratch_plan cfg) ws1"
    "assign_fields (\<lambda>ctx. load_kernel_bin fs ctx dir) kernel_plan ws1 ctx1 = Some (ws2, ctx2)"
    "all_assigned kernel_plan ws2" "assign_fields gpuMalloc args_plan ws2 ctx2 = Some (ws3, ctx3)"
    "heap B S N ctx3 (R \<union> reg ` D)" "holds R D reg ws3" "\<forall>r\<in>R. rdata ctx3 r = rdata ctx r"
    "all_assigned args_plan ws3 \<longleftrightarrow> D = UNIV" "ws_cfg ws3 = cfg" "ws_wl ws3 = wl"
    "D = UNIV \<Longrightarrow> \<forall>(f, n)\<in>set (scratch_plan cfg @ args_plan). unat n \<le> snd (reg f)"
    "D = UNIV \<Longrightarrow> \<forall>(f, name)\<in>set kernel_plan. kernel_loaded fs dir name (reg f) (rdata ctx3 (reg f))"
proof -
  define reg0 :: "ws_field \<Rightarrow> region" where "reg0 = (\<lambda>_. (0, 0))"
  have h0: "heap B S N ctx (R \<union> reg0 ` {})" using h by simp
  have ho: "holds R {} reg0 ws" by (simp add: holds_def ws fold_set_off all_ws_fields)
  have e0: "set (map fst (scratch_plan cfg)) \<inter> {} = {}" by simp
  note p = plan_parts(1) [of cfg] plan_parts(2,3) plan_parts(4-6) [of cfg]
  obtain ws1 ctx1 D1 reg1 where 1: "assign_fields gpuMalloc (scratch_plan cfg) ws ctx = Some (ws1, ctx1)"
    "heap B S N ctx1 (R \<union> reg1 ` D1)" "holds R D1 reg1 ws1" "D1 \<subseteq> {} \<union> set (map fst (scratch_plan cfg))"
    "\<And>f n. (f, n) \<in> set (scratch_plan cfg) \<Longrightarrow> f \<in> D1 \<Longrightarrow> unat n \<le> snd (reg1 f)"
    "\<forall>r\<in>R \<union> reg0 ` {}. rdata ctx1 r = rdata ctx r" "ws_cfg ws1 = ws_cfg ws" "ws_wl ws1 = ws_wl ws"
    by (rule src.assign_all [OF h0 ho p(1) e0]) (rule that)
  note a1 = src.all_assigned_iff [OF 1(2,3)]
  show thesis
  proof (cases "all_assigned (scratch_plan cfg) ws1")
    case False
    with 1 show thesis by (intro scratch [of ws1 ctx1 reg1 D1]) simp_all
  next
    case True
    then have D1: "D1 = set (map fst (scratch_plan cfg))" using 1(4) a1 [of "scratch_plan cfg"] by auto
    have e1: "set (map fst kernel_plan) \<inter> D1 = {}" using p(4) unfolding D1 .
    obtain ws2 ctx2 D2 reg2 where 2: "assign_fields (\<lambda>ctx. load_kernel_bin fs ctx dir) kernel_plan ws1 ctx1 = Some (ws2, ctx2)"
      "heap B S N ctx2 (R \<union> reg2 ` D2)" "holds R D2 reg2 ws2" "D1 \<subseteq> D2" "D2 \<subseteq> D1 \<union> set (map fst kernel_plan)"
      "\<forall>g\<in>D1. reg2 g = reg1 g"
      "\<And>f n. (f, n) \<in> set kernel_plan \<Longrightarrow> f \<in> D2 \<Longrightarrow> kernel_loaded fs dir n (reg2 f) (rdata ctx2 (reg2 f))"
      "\<forall>r\<in>R \<union> reg1 ` D1. rdata ctx2 r = rdata ctx1 r" "ws_cfg ws2 = ws_cfg ws1" "ws_wl ws2 = ws_wl ws1"
      by (rule kern.assign_all [OF 1(2,3) p(2) e1, where fs = fs and dir = dir]) (rule that)
    note a2 = kern.all_assigned_iff [OF 2(2,3)]
    show thesis
    proof (cases "all_assigned kernel_plan ws2")
      case False
      with True 1 2 show thesis by (intro kernels [of ws1 ctx1 ws2 ctx2 reg2 D2]) simp_all
    next
      case K: True
      have D2: "D2 = D1 \<union> set (map fst kernel_plan)" using 2(4,5) K a2 [of kernel_plan] by auto
      have e2: "set (map fst args_plan) \<inter> D2 = {}" using p(5) unfolding D1 D2 .
      obtain ws3 ctx3 D3 reg3 where 3: "assign_fields gpuMalloc args_plan ws2 ctx2 = Some (ws3, ctx3)"
        "heap B S N ctx3 (R \<union> reg3 ` D3)" "holds R D3 reg3 ws3" "D2 \<subseteq> D3" "D3 \<subseteq> D2 \<union> set (map fst args_plan)"
        "\<forall>g\<in>D2. reg3 g = reg2 g" "\<And>f n. (f, n) \<in> set args_plan \<Longrightarrow> f \<in> D3 \<Longrightarrow> unat n \<le> snd (reg3 f)"
        "\<forall>r\<in>R \<union> reg2 ` D2. rdata ctx3 r = rdata ctx2 r" "ws_cfg ws3 = ws_cfg ws2" "ws_wl ws3 = ws_wl ws2"
        by (rule src.assign_all [OF 2(2,3) p(3) e2]) (rule that)
      have U: "all_assigned args_plan ws3 \<longleftrightarrow> D3 = UNIV"
        using src.all_assigned_iff [OF 3(2,3)] 3(4) D2 D1 p(6) by blast
      have c: "ws_cfg ws3 = cfg" "ws_wl ws3 = wl" using 1(7,8) 2(9,10) 3(9,10) by (simp_all add: ws fold_set_off)
      have s: "unat n \<le> snd (reg3 f)" if "(f, n) \<in> set (scratch_plan cfg @ args_plan)" "D3 = UNIV" for f n
      proof (cases "(f, n) \<in> set (scratch_plan cfg)")
        case True
        then have "f \<in> D1" "f \<in> D2" using D1 D2 by (auto intro: rev_image_eqI)
        then show ?thesis using 1(5) [OF True] 2(6) 3(6) by simp
      next
        case False
        then show ?thesis using 3(7) [of f n] that by simp
      qed
      have k: "kernel_loaded fs dir n (reg3 f) (rdata ctx3 (reg3 f))" if "(f, n) \<in> set kernel_plan" for f n
      proof -
        have "f \<in> D2" using that D2 by (auto intro: rev_image_eqI)
        then show ?thesis using 2(7) [OF that] 3(6,8) by simp
      qed
      have r: "\<forall>r\<in>R. rdata ctx3 r = rdata ctx r" using 1(6) 2(8) 3(8) by simp
      show thesis
        by (rule full [OF 1(1) True 2(1) K 3(1-3) r U c]) (use s k in blast)+
    qed
  qed
qed

lemma default_head_dim: "head_dim_ok transformer_default_config"
  by (simp add: head_dim_ok_def transformer_default_config_def)

lemma init_args_validE:
  assumes "init_args_valid wl kv (Some cfg)"
  obtains w where "wl = Some w" "cfg_S_max cfg = 1" "cfg_max_seq cfg = 128"
  using assms by (cases wl; cases kv) (auto simp: init_args_valid_def)

text \<open>The last two steps, on a workspace whose fields all have their regions.\<close>

lemma init_last:
  assumes h: "heap B S N ctx (R \<union> range reg)" and ho: "holds R UNIV reg ws" and hd: "head_dim_ok (ws_cfg ws)"
    and cfg: "cfg_max_seq (ws_cfg ws) = 128"
    and s: "\<forall>(f, n)\<in>set (scratch_plan (ws_cfg ws) @ args_plan). unat n \<le> snd (reg f)"
    and k: "\<forall>(f, name)\<in>set kernel_plan. kernel_loaded fs dir name (reg f) (rdata ctx (reg f))"
  obtains (no) ctx' where "init_sincos dm fp ws ctx d = Some (False, ctx', d)" "heap B S N ctx' (R \<union> range reg)"
    "rdata ctx' = rdata ctx"
    "\<not> fst (malloc (sh ctx)) \<or> (\<exists>j<unat (cfg_head_dim (ws_cfg ws)) div 2. pair_off fp (rope_table fp (ws_cfg ws)) j)"
  | (yes) ctx1 ctx' d' where "init_sincos dm fp ws ctx d = Some (True, ctx1, d')" "init_zero ws ctx1 = Some ctx'"
    "heap B S N ctx' (R \<union> range reg)" "ws_ready fp fs dir ctx' R reg ws" "\<forall>r\<in>R. rdata ctx' r = rdata ctx r"
proof -
  let ?n = "size4 (cfg_S_max (ws_cfg ws)) (cfg_D (ws_cfg ws))"
  have o: "ws_off ws f = word_of_nat (fst (reg f))" "(fst (reg f), snd (reg f)) \<in> R \<union> range reg" for f
    using ho by (simp_all add: holds_def)
  have ne: "reg f \<noteq> reg g" if "f \<noteq> g" for f g using ho that by (auto simp: holds_def dest: injD)
  have nR: "reg f \<notin> R" for f using ho by (auto simp: holds_def)
  have sz: "128 * unat (cfg_head_dim (ws_cfg ws)) * 4 \<le> snd (reg sincos_off)" "unat ?n \<le> snd (reg RESID_A)"
      "unat ?n \<le> snd (reg RESID_B)"
    using s unat_sincos_size [of "cfg_head_dim (ws_cfg ws)"] hd by (simp_all add: scratch_plan_def cfg head_dim_ok_def)
  show thesis
  proof (cases rule: init_sincos_cases [OF h hd cfg o sz(1), of dm fp d])
    case (1 ctx')
    then show thesis by (rule no)
  next
    case (2 ctx1 d')
    obtain ctx' where z: "init_zero ws ctx1 = Some ctx'" "heap B S N ctx' (R \<union> range reg)"
      "\<forall>q\<in>R \<union> range reg - {(fst (reg RESID_A), snd (reg RESID_A)), (fst (reg RESID_B), snd (reg RESID_B))}. rdata ctx' q = rdata ctx1 q"
      by (rule init_zero_ok [OF 2(2) refl o sz(2) o sz(3)]) (rule that)
    have keep: "rdata ctx' (reg f) = rdata ctx1 (reg f)" if "f \<noteq> RESID_A" "f \<noteq> RESID_B" for f
      using z(3) ne that by simp
    have keep1: "rdata ctx1 (reg f) = rdata ctx (reg f)" if "f \<noteq> sincos_off" for f
      using 2(4) ne that by simp
    have "kernel_loaded fs dir name (reg f) (rdata ctx' (reg f))" if "(f, name) \<in> set kernel_plan" for f name
    proof -
      have "f \<noteq> RESID_A \<and> f \<noteq> RESID_B \<and> f \<noteq> sincos_off" using that by (auto simp: kernel_plan_def)
      then show ?thesis using k that keep keep1 by auto
    qed
    moreover have "rdata ctx' (reg sincos_off) = rdata ctx1 (reg sincos_off)" by (rule keep) simp_all
    ultimately have "ws_ready fp fs dir ctx' R reg ws"
      using ho s 2(3) unfolding ws_ready_def by auto
    moreover have "rdata ctx' r = rdata ctx r" if "r \<in> R" for r
      using z(3) 2(4) nR that by (metis Diff_iff UnI1 insertE prod.collapse singletonD)
    ultimately show thesis using 2(1) z(1,2) by (intro yes) auto
  qed
qed

theorem transformer_init_cases:
  assumes h: "heap B S N ctx R" and hd: "head_dim_ok cfg"
  obtains (no) ctx' d' where "transformer_init dm fp fs ctx d wl kv (Some cfg) dir = Some (None, ctx', d')"
    "heap B S N ctx' R" "\<forall>r\<in>R. rdata ctx' r = rdata ctx r"
  | (yes) ws reg ctx' d' where "transformer_init dm fp fs ctx d wl kv (Some cfg) dir = Some (Some ws, ctx', d')"
    "heap B S N ctx' (R \<union> range reg)" "ws_ready fp fs dir ctx' R reg ws" "ws_cfg ws = cfg" "wl = Some (ws_wl ws)"
    "\<forall>r\<in>R. rdata ctx' r = rdata ctx r"
proof -
  let ?ctx = "ctx\<lparr>sh := snd (malloc (sh ctx))\<rparr>" and ?f = "transformer_init dm fp fs ctx d wl kv (Some cfg) dir"
  note hm = heap_malloc [OF h]
  obtain ok s where ms: "malloc (sh ctx) = (ok, s)" by fastforce
  consider (bad) "\<not> init_args_valid wl kv (Some cfg)" | (mem) "init_args_valid wl kv (Some cfg)" "\<not> ok"
    | (go) w where "init_args_valid wl kv (Some cfg)" ok "wl = Some w" "cfg_S_max cfg = 1" "cfg_max_seq cfg = 128"
    using init_args_validE by metis
  then show thesis
  proof cases
    case bad
    then show thesis using h by (intro no [of ctx d]) (simp_all add: transformer_init_def)
  next
    case mem
    then show thesis using hm by (intro no [of ?ctx d]) (simp_all add: transformer_init_def ms Let_def)
  next
    case go
    let ?ws = "fold (\<lambda>f. set_off f OFF_INVALID) ws_fields \<lparr>ws_wl = w, ws_cfg = cfg, ws_off = (\<lambda>_. 0)\<rparr>"
    have fin: thesis if u: "?f = init_fail ws1 ctx1 d" "heap B S N ctx1 (R \<union> reg ` D)" "holds R D reg ws1"
        "\<forall>r\<in>R. rdata ctx1 r = rdata ctx r" for ws1 ctx1 reg D
    proof -
      obtain ctx' where "init_fail ws1 ctx1 d = Some (None, ctx', d)" "heap B S N ctx' R" "\<forall>r\<in>R. rdata ctx' r = rdata ctx r"
        by (rule init_fail_ok [OF u(2-4)]) (rule that)
      then show thesis using u(1) by (intro no [of ctx' d]) simp_all
    qed
    note df = transformer_init_def ms go(2,3) go(1) [unfolded go(3)] Let_def
    show thesis
    proof (cases rule: init_buffers [OF hm(1) refl, where wl = w and cfg = cfg and fs = fs and dir = dir])
      case scratch: (1 ws1 ctx1 D reg)
      then show thesis using ms hm(2) by (intro fin [of ws1 ctx1 reg D]) (simp_all add: df)
    next
      case kernels: (2 ws1 ctx1 ws2 ctx2 D reg)
      then show thesis using ms hm(2) by (intro fin [of ws2 ctx2 reg D]) (simp_all add: df)
    next
      case full: (3 ws1 ctx1 ws2 ctx2 ws3 ctx3 D reg)
      show thesis
      proof (cases "D = UNIV")
        case False
        with full show thesis using ms hm(2) by (intro fin [of ws3 ctx3 reg D]) (simp_all add: df)
      next
        case True
        note U = full(6,7) [unfolded True]
        have hd3: "head_dim_ok (ws_cfg ws3)" "cfg_max_seq (ws_cfg ws3) = 128" using hd go(5) full(10) by simp_all
        note last = init_last [OF U hd3 full(12) [OF True, folded full(10)] full(13) [OF True], of dm fp d]
        have r: "\<forall>r\<in>R. rdata ctx3 r = rdata ctx r" using full(8) hm(2) by simp
        show thesis
        proof (cases rule: last)
          case (1 ctx')
          then show thesis using full(1-5,9) True U(2) r by (intro fin [of ws3 ctx' reg UNIV]) (simp_all add: df)
        next
          case (2 ctx1 ctx' d')
          then show thesis
            using full(1-5,9-11) True r go(3) by (intro yes [of ws3 ctx' d' reg]) (simp_all add: df)
        qed
      qed
    qed
  qed
qed

end
