(* ===== verification/Weight_Ops.thy ===== *)
theory Weight_Ops
  imports Weight_Loader Kv_Ops
begin

text \<open>
  The tensors of the weights: their places do not overlap and lie inside the regions that were
  requested, a successful load leaves the bytes of the files there, and a failed one gives every
  region back.
\<close>

subsection \<open>The layout of a layer\<close>

lemma tensor_in_layer: "fst (TENSOR_TABLE t) + 4 * snd (TENSOR_TABLE t) \<le> WL_LAYER_BYTES"
  by (cases t) (simp_all add: wl_defs)

lemma tensors_apart:
  "t \<noteq> u \<Longrightarrow> fst (TENSOR_TABLE t) + 4 * snd (TENSOR_TABLE t) \<le> fst (TENSOR_TABLE u) \<or>
    fst (TENSOR_TABLE u) + 4 * snd (TENSOR_TABLE u) \<le> fst (TENSOR_TABLE t)"
  by (cases t; cases u; simp add: wl_defs)

subsection \<open>Loading files to places\<close>

definition slice :: "gpgpu_ctx \<Rightarrow> region \<Rightarrow> nat \<Rightarrow> nat \<Rightarrow> u8 list" where
  "slice ctx r d n = take n (drop d (rdata ctx r))"

text \<open>A place: the file, the region, the offset in the region and the length.\<close>

type_synonym place = "string \<times> region \<times> nat \<times> nat"

definition apart_from :: "region \<times> nat \<times> nat \<Rightarrow> place \<Rightarrow> bool" where
  "apart_from x q \<longleftrightarrow> (case (x, q) of ((r, d, n), (_, r', d', n')) \<Rightarrow>
     r \<noteq> r' \<or> d + n \<le> d' \<or> d' + n' \<le> d)"

definition place_ok :: "region set \<Rightarrow> place \<Rightarrow> bool" where
  "place_ok R q \<longleftrightarrow> (case q of (_, r, d, n) \<Rightarrow> r \<in> R \<and> d + n \<le> snd r)"

fun places_apart :: "place list \<Rightarrow> bool" where
  "places_apart [] \<longleftrightarrow> True"
| "places_apart (q # qs) \<longleftrightarrow> list_all (apart_from (snd q)) qs \<and> places_apart qs"

definition load_of :: "place \<Rightarrow> string \<times> u64 \<times> u64" where
  "load_of q = (case q of (p, r, d, n) \<Rightarrow> (p, word_of_nat (fst r + d), word_of_nat n))"

lemma load_one:
  assumes h: "heap B S N ctx R" and q: "place_ok R (p, r, d, n)"
  obtains (fail) ctx' where "load_file_to_vram fs ctx p (word_of_nat (fst r + d)) (word_of_nat n) = Some (-1, ctx')"
    "heap B S N ctx' R" "\<forall>r\<in>R. rdata ctx' r = rdata ctx r"
  | (ok) ctx' bs where "load_file_to_vram fs ctx p (word_of_nat (fst r + d)) (word_of_nat n) = Some (0, ctx')"
    "heap B S N ctx' R" "\<forall>q\<in>R - {r}. rdata ctx' q = rdata ctx q" "content fs p = Some bs" "n \<le> length bs"
    "slice ctx' r d n = take n bs"
    "\<And>d' n'. d' + n' \<le> snd r \<Longrightarrow> d' + n' \<le> d \<or> d + n \<le> d' \<Longrightarrow> slice ctx' r d' n' = slice ctx r d' n'"
proof -
  obtain a l where al: "r = (a, l)" by (cases r)
  have r: "(a, l) \<in> R" and dn: "d + n \<le> l" using q al by (auto simp: place_ok_def)
  have n64: "unat (word_of_nat n :: u64) = n"
    using heap_addr_bound [OF h r] dn by (intro unat_of_nat64) simp
  note h0 = heap_malloc [OF h]
  let ?ctx = "ctx\<lparr>sh := snd (malloc (sh ctx))\<rparr>"
  obtain b s where ms: "malloc (sh ctx) = (b, s)" by fastforce
  show thesis
  proof (cases "content fs p")
    case None
    then show thesis using h by (intro fail [of ctx]) (simp_all add: load_file_to_vram_def)
  next
    case (Some bytes)
    show thesis
    proof (cases "b \<and> n \<le> length bytes")
      case False
      then show thesis
        using h0 Some by (intro fail [of ?ctx]) (auto simp: load_file_to_vram_def ms n64 Let_def)
    next
      case True
      let ?buf = "take n bytes"
      have d: "d + unat (word_of_nat n :: u64) \<le> l" "unat (word_of_nat n :: u64) \<le> length ?buf"
        using dn True by (simp_all add: n64)
      obtain ctx' where c: "gpuMemcpy ?ctx (word_of_nat (a + d)) ?buf (word_of_nat n) GPU_MEMCPY_H2D = Some (0, ?buf, ctx')"
        and h': "heap B S N ctx' R"
        and dt: "rdata ctx' (a, l) = take d (rdata ?ctx (a, l)) @ take n ?buf @ drop (d + n) (rdata ?ctx (a, l))"
        and o: "\<forall>q\<in>R - {(a, l)}. rdata ctx' q = rdata ?ctx q"
        using gpu.copy_in [OF h0(1) r d] unfolding n64 by blast
      have dt': "rdata ctx' r = take d (rdata ctx r) @ ?buf @ drop (d + length ?buf) (rdata ctx r)"
        using dt h0(2) True al by simp
      have le: "d + length ?buf \<le> length (rdata ctx r)" using dn True al by simp
      have "slice ctx' r d n = ?buf" using splice_same [OF le] True by (simp add: slice_def dt')
      moreover have "slice ctx' r d' n' = slice ctx r d' n'" if "d' + n' \<le> d \<or> d + n \<le> d'" for d' n'
        unfolding slice_def dt' by (rule splice_other) (use that True le in auto)
      moreover have "load_file_to_vram fs ctx p (word_of_nat (fst r + d)) (word_of_nat n) = Some (0, ctx')"
        using Some True c al by (simp add: load_file_to_vram_def ms n64 min.absorb2 del: of_nat_add)
      ultimately show thesis using h' o h0(2) al Some True by (intro ok [of ctx' bytes]) auto
    qed
  qed
qed

lemma load_all_places:
  "heap B S N ctx R \<Longrightarrow> list_all (place_ok R) qs \<Longrightarrow> places_apart qs \<Longrightarrow>
   \<exists>ok ctx'. load_all fs ctx (map load_of qs) = Some (ok, ctx') \<and> heap B S N ctx' R \<and>
     (\<forall>r\<in>R - (\<lambda>q. fst (snd q)) ` set qs. rdata ctx' r = rdata ctx r) \<and>
     (\<forall>r d n. r \<in> R \<longrightarrow> d + n \<le> snd r \<longrightarrow> list_all (apart_from (r, d, n)) qs \<longrightarrow>
        slice ctx' r d n = slice ctx r d n) \<and>
     (ok \<longrightarrow> (\<forall>(p, r, d, n)\<in>set qs. \<exists>bs. content fs p = Some bs \<and> n \<le> length bs \<and> slice ctx' r d n = take n bs))"
proof (induction qs arbitrary: ctx)
  case Nil
  then show ?case by auto
next
  case (Cons q qs)
  obtain p r d n where q: "q = (p, r, d, n)" by (cases q) auto
  have qok: "place_ok R (p, r, d, n)" using Cons.prems q by simp
  then have rR: "r \<in> R" "d + n \<le> snd r" by (auto simp: place_ok_def)
  show ?case
  proof (cases rule: load_one [OF Cons.prems(1) qok, where fs = fs])
    case (1 ctx')
    have "slice ctx' r' d' n' = slice ctx r' d' n'" if "r' \<in> R" for r' d' n'
      using 1(3) that by (simp add: slice_def)
    then show ?thesis
      using 1 q by (intro exI [of _ False] exI [of _ ctx']) (auto simp: load_of_def)
  next
    case (2 ctx1 bs)
    obtain ok ctx' where r: "load_all fs ctx1 (map load_of qs) = Some (ok, ctx')" "heap B S N ctx' R"
      and o: "\<forall>r\<in>R - (\<lambda>q. fst (snd q)) ` set qs. rdata ctx' r = rdata ctx1 r"
      and sl: "\<And>r d n. r \<in> R \<Longrightarrow> d + n \<le> snd r \<Longrightarrow> list_all (apart_from (r, d, n)) qs \<Longrightarrow>
        slice ctx' r d n = slice ctx1 r d n"
      and k: "ok \<longrightarrow> (\<forall>(p, r, d, n)\<in>set qs. \<exists>bs. content fs p = Some bs \<and> n \<le> length bs \<and> slice ctx' r d n = take n bs)"
      using Cons.IH [OF 2(2)] Cons.prems(2,3) by auto
    have mine: "slice ctx' r d n = take n bs"
      using sl [OF rR] Cons.prems(3) 2(6) q by simp
    have "slice ctx' r' d' n' = slice ctx r' d' n'"
      if "r' \<in> R" "d' + n' \<le> snd r'" "list_all (apart_from (r', d', n')) (q # qs)" for r' d' n'
    proof -
      have "slice ctx1 r' d' n' = slice ctx r' d' n'"
      proof (cases "r' = r")
        case True
        then show ?thesis using that q 2(7) by (auto simp: apart_from_def)
      next
        case False
        then show ?thesis using 2(3) that(1) by (simp add: slice_def)
      qed
      then show ?thesis using sl [OF that(1,2)] that(3) by simp
    qed
    moreover have "load_all fs ctx (map load_of (q # qs)) = Some (ok, ctx')"
      using 2(1) r(1) q by (simp add: load_of_def)
    moreover have "\<forall>r\<in>R - (\<lambda>q. fst (snd q)) ` set (q # qs). rdata ctx' r = rdata ctx r"
      using o 2(3) q by auto
    moreover have "ok \<longrightarrow> (\<forall>(p, r, d, n)\<in>set (q # qs). \<exists>bs. content fs p = Some bs \<and> n \<le> length bs \<and> slice ctx' r d n = take n bs)"
      using k mine 2(4,5) q by auto
    ultimately show ?thesis using r(2) by blast
  qed
qed

subsection \<open>The places of the weights\<close>

definition layer_off :: "nat \<Rightarrow> nat" where
  "layer_off i = (if i < 4 then WL_FINAL_NORM_BYTES else 0) + (i mod 4) * WL_LAYER_BYTES"

definition layer_place :: "string \<Rightarrow> region list \<Rightarrow> nat \<Rightarrow> place" where
  "layer_place dir rs i = (path dir (WL_FILE_LAYER i), rs ! (2 + i div 4), layer_off i, WL_LAYER_BYTES)"

definition places :: "string \<Rightarrow> region list \<Rightarrow> place list" where
  "places dir rs = (path dir WL_FILE_EMBEDDING, rs ! 0, 0, WL_EMBEDDING_BYTES) #
     (path dir WL_FILE_LM_HEAD, rs ! 1, 0, WL_LM_HEAD_BYTES) #
     (path dir WL_FILE_FINAL_NORM, rs ! 2, 0, WL_FINAL_NORM_BYTES) # map (layer_place dir rs) [0..<24]"

lemma num_regions: "NUM_REGIONS = 8"
  by (simp add: NUM_REGIONS_def NUM_LAYER_REGIONS_def LAYERS_PER_REGION_def WL_NUM_LAYERS_def)

lemma upt24: "[0..<24] = [0,1,2,3,4,5,6,7,8,9,10,11,12,13,14,15,16,17,18,19,20,21,22,23::nat]"
  by (simp add: upt_conv_Cons)

lemma upt_3_8: "[3..<8] = [3,4,5,6,7::nat]"
  by (simp add: upt_conv_Cons)

lemma plan_bytes_eval: "plan_bytes = [544538624, 544538624, 238601728, 238598144, 238598144, 238598144, 238598144, 238598144]"
  by (simp add: plan_bytes_def wl_defs LAYERS_PER_REGION_def num_regions upt_3_8)

lemma eight_regions:
  assumes "length rs = 8"
  obtains r0 r1 r2 r3 r4 r5 r6 r7 where "rs = [r0, r1, r2, r3, r4, r5, r6, r7]"
  using assms by (auto simp: length_Suc_conv eval_nat_numeral)

lemma place4: "place_layers 4 c = [c, c + word_of_nat WL_LAYER_BYTES,
    c + word_of_nat (2 * WL_LAYER_BYTES), c + word_of_nat (3 * WL_LAYER_BYTES)]"
proof -
  have "place_layers (Suc (Suc (Suc (Suc 0)))) c = [c, c + word_of_nat WL_LAYER_BYTES,
    c + word_of_nat (2 * WL_LAYER_BYTES), c + word_of_nat (3 * WL_LAYER_BYTES)]"
    by (simp add: algebra_simps)
  then show ?thesis by (simp add: numeral_eq_Suc)
qed

lemma layer_base_map:
  assumes "length rs = 8"
  shows "layer_base (place_tensors (bases rs)) =
    map (\<lambda>i. word_of_nat (fst (rs ! (2 + i div 4)) + layer_off i)) [0..<24]"
proof -
  have b: "bases rs ! r = word_of_nat (fst (rs ! r))" if "r < 8" for r
    using that assms by (simp add: bases_def)
  show ?thesis
    unfolding upt24 place_tensors_def num_regions upt_3_8 LAYERS_PER_REGION_def place4
    by (simp add: b layer_off_def WL_LAYER_BYTES_def WL_FINAL_NORM_BYTES_def WL_HIDDEN_SIZE_def)
      (simp add: numeral_2_eq_2 numeral_3_eq_3)
qed

lemma weight_loads_places:
  assumes "length rs = 8"
  shows "weight_loads dir (place_tensors (bases rs)) = map load_of (places dir rs)"
proof -
  let ?w = "place_tensors (bases rs)"
  have b: "bases rs ! r = word_of_nat (fst (rs ! r))" if "r < 8" for r
    using that assms by (simp add: bases_def)
  have g: "embedding_addr ?w = word_of_nat (fst (rs ! 0))" "lm_head_addr ?w = word_of_nat (fst (rs ! 1))"
    "final_norm_addr ?w = word_of_nat (fst (rs ! 2))"
    by (simp_all add: place_tensors_def b)
  note lb = layer_base_map [OF assms]
  show ?thesis
    unfolding weight_loads_def weight_files_def g lb places_def WL_NUM_LAYERS_def
    by (simp add: zip_map_map zip_same_conv_map layer_place_def load_of_def comp_def del: of_nat_add upt_Suc)
qed

lemma places_apart_iff: "places_apart qs \<longleftrightarrow> sorted_wrt (\<lambda>x. apart_from (snd x)) qs"
  by (induction qs) (simp_all add: list_all_iff)

lemma layers_apart:
  assumes "distinct rs" "length rs = 8" "i < j" "j < 24"
  shows "apart_from (snd (layer_place dir rs i)) (layer_place dir rs j)"
proof (cases "i div 4 = j div 4")
  case False
  then have "2 + i div 4 \<noteq> 2 + j div 4" "2 + i div 4 < 8" "2 + j div 4 < 8" using assms(3,4) by auto
  then have "rs ! (2 + i div 4) \<noteq> rs ! (2 + j div 4)"
    using assms(2) nth_eq_iff_index_eq [OF assms(1), of "2 + i div 4" "2 + j div 4"] by simp
  then show ?thesis by (simp add: apart_from_def layer_place_def)
next
  case True
  have "4 * (i div 4) + i mod 4 = i" "4 * (j div 4) + j mod 4 = j" by simp_all
  then have lt: "i mod 4 < j mod 4" using True assms(3) by linarith
  have same: "i < 4 \<longleftrightarrow> j < 4" using True div_eq_0_iff [of i 4] div_eq_0_iff [of j 4] by auto
  from lt have "(i mod 4 + 1) * WL_LAYER_BYTES \<le> (j mod 4) * WL_LAYER_BYTES" by (intro mult_le_mono1) simp
  then have "layer_off i + WL_LAYER_BYTES \<le> layer_off j"
    using same by (simp add: layer_off_def)
  then show ?thesis by (simp add: apart_from_def layer_place_def)
qed

lemma places_are_apart:
  assumes d: "distinct rs" and l: "length rs = 8"
  shows "places_apart (places dir rs)"
proof -
  have ne: "rs ! i \<noteq> rs ! j" if "i < 8" "j < 8" "i \<noteq> j" for i j
    using that d l by (simp add: nth_eq_iff_index_eq)
  have "sorted_wrt (\<lambda>x. apart_from (snd x)) (map (layer_place dir rs) [0..<24])"
    unfolding sorted_wrt_map sorted_wrt_iff_nth_less using layers_apart [OF d l] by simp
  moreover have "apart_from (rs ! i, 0, n) (layer_place dir rs j)" if "i < 2" "j < 24" for i j n
  proof -
    have "2 + j div 4 < 8" "i \<noteq> 2 + j div 4" "i < 8" using that by auto
    then show ?thesis using ne [of i "2 + j div 4"] by (simp add: apart_from_def layer_place_def)
  qed
  from this [of 0] this [of 1] have "\<forall>j<24. apart_from (rs ! 0, 0, n) (layer_place dir rs j) \<and>
      apart_from (rs ! 1, 0, n) (layer_place dir rs j)" for n by auto
  moreover have "apart_from (rs ! 2, 0, WL_FINAL_NORM_BYTES) (layer_place dir rs j)" if j: "j < 24" for j
  proof (cases "j < 4")
    case True
    then show ?thesis by (simp add: apart_from_def layer_place_def layer_off_def)
  next
    case False
    then have "2 + j div 4 < 8" "2 \<noteq> 2 + j div 4" using j by auto
    then show ?thesis using ne [of 2 "2 + j div 4"] by (simp add: apart_from_def layer_place_def)
  qed
  ultimately show ?thesis
    using ne [of 0 1] ne [of 0 2] ne [of 1 2]
    unfolding places_apart_iff places_def by (auto simp: apart_from_def [of _ "(_, _, _, _)"] simp del: upt_Suc)
qed

lemma places_are_ok:
  assumes l: "length rs = 8" and s: "\<forall>i<8. plan_bytes ! i \<le> snd (rs ! i)"
  shows "list_all (place_ok (R \<union> set rs)) (places dir rs)"
proof -
  have m: "rs ! i \<in> set rs" if "i < 8" for i using that l by simp
  have "layer_off j + WL_LAYER_BYTES \<le> plan_bytes ! (2 + j div 4)" "2 + j div 4 < 8" if "j < 24" for j
  proof -
    have "(j mod 4 + 1) * WL_LAYER_BYTES \<le> 4 * WL_LAYER_BYTES" by (intro mult_le_mono1) simp
    then have lo: "layer_off j + WL_LAYER_BYTES \<le> (if j < 4 then WL_FINAL_NORM_BYTES else 0) + 4 * WL_LAYER_BYTES"
      by (simp add: layer_off_def)
    show "2 + j div 4 < 8" using that by simp
    have "j div 4 \<in> {0, 1, 2, 3, 4, 5}" using that by auto
    then have "plan_bytes ! (2 + j div 4) = (if j < 4 then WL_FINAL_NORM_BYTES else 0) + 4 * WL_LAYER_BYTES"
      by (auto simp: plan_bytes_eval wl_defs numeral_2_eq_2)
    then show "layer_off j + WL_LAYER_BYTES \<le> plan_bytes ! (2 + j div 4)" using lo by simp
  qed
  then have "layer_off j + WL_LAYER_BYTES \<le> snd (rs ! (2 + j div 4)) \<and> rs ! (2 + j div 4) \<in> set rs"
    if "j < 24" for j using s m that le_trans by blast
  then have "list_all (place_ok (R \<union> set rs)) (map (layer_place dir rs) [0..<24])"
    by (simp add: list_all_iff place_ok_def layer_place_def)
  moreover have "WL_EMBEDDING_BYTES \<le> snd (rs ! 0)" "WL_LM_HEAD_BYTES \<le> snd (rs ! 1)" "WL_FINAL_NORM_BYTES \<le> snd (rs ! 2)"
    using s [rule_format, of 0] s [rule_format, of 1] s [rule_format, of 2]
    by (simp_all add: plan_bytes_eval wl_defs)
  ultimately show ?thesis using m [of 0] m [of 1] m [of 2] by (simp add: places_def place_ok_def del: upt_Suc)
qed

subsection \<open>The loader\<close>

lemma bases_valid:
  assumes "heap B S N ctx (R \<union> set rs)"
  shows "filter (\<lambda>b. b \<noteq> -1) (bases rs) = bases rs"
proof (rule filter_True)
  show "\<forall>b\<in>set (bases rs). b \<noteq> -1"
    using gpu.addr_valid(1) [OF assms] by (fastforce simp: bases_def)
qed

lemma plan_unat: "i < 8 \<Longrightarrow> unat (map word_of_nat plan_bytes ! i :: u64) = plan_bytes ! i"
proof -
  assume i: "i < 8"
  then have "plan_bytes ! i \<in> set plan_bytes" by (intro nth_mem) (simp add: plan_bytes_eval)
  then have "plan_bytes ! i < 2 ^ 64" unfolding plan_bytes_eval by auto
  moreover have "length plan_bytes = 8" by (simp add: plan_bytes_eval)
  ultimately show ?thesis using i by (simp add: unat_of_nat64)
qed

definition loaded :: "file_system \<Rightarrow> gpgpu_ctx \<Rightarrow> place \<Rightarrow> bool" where
  "loaded fs ctx q = (case q of (p, r, d, n) \<Rightarrow>
     \<exists>bs. content fs p = Some bs \<and> n \<le> length bs \<and> slice ctx r d n = take n bs)"

theorem weight_load_cases:
  assumes h: "heap B S N ctx R"
  obtains (fail) ctx' where "weight_loader_load fs ctx (Some dir) = Some (None, ctx')"
    "heap B S N ctx' R" "\<forall>r\<in>R. rdata ctx' r = rdata ctx r"
  | (ok) rs ctx' where "weight_loader_load fs ctx (Some dir) = Some (Some (place_tensors (bases rs)), ctx')"
    "heap B S N ctx' (R \<union> set rs)" "length rs = 8" "distinct rs" "set rs \<inter> R = {}"
    "\<forall>i<8. plan_bytes ! i \<le> snd (rs ! i)" "\<forall>q\<in>set (places dir rs). loaded fs ctx' q"
    "\<forall>r\<in>R. rdata ctx' r = rdata ctx r"
proof -
  let ?ctx = "ctx\<lparr>sh := snd (malloc (sh ctx))\<rparr>"
  let ?valid = "list_all (\<lambda>(p, n). \<not> check_file_size fs p (word_of_nat n) < 0) (weight_files dir)"
  obtain b s where ms: "malloc (sh ctx) = (b, s)" by fastforce
  note h0 = heap_malloc [OF h]
  note un = weight_loader_load_def [of fs ctx "Some dir", unfolded option.simps]
  have lp: "length (map word_of_nat plan_bytes :: u64 list) = 8" by (simp add: plan_bytes_eval)
  show thesis
  proof (cases "?valid \<and> b")
    case False
    show thesis
    proof (cases ?valid)
      case True
      then show thesis using False h0 by (intro fail [of ?ctx]) (simp_all add: un ms)
    next
      case False
      then show thesis using h by (intro fail [of ctx]) (simp_all add: un)
    qed
  next
    case True
    obtain rs k c1 where a: "alloc_list gpuMalloc ?ctx (map word_of_nat plan_bytes) = Some (bases rs, k, c1)"
      and h1: "heap B S N c1 (R \<union> set rs)" and d: "distinct rs" "set rs \<inter> R = {}"
      and k: "k \<longleftrightarrow> length rs = 8" and sz: "\<forall>i<length rs. unat (map word_of_nat plan_bytes ! i :: u64) \<le> snd (rs ! i)"
      and d1: "\<forall>r\<in>R. rdata c1 r = rdata ?ctx r"
      using gpu.alloc_list_regions [OF h0(1), of "map word_of_nat plan_bytes"] unfolding lp by blast
    show thesis
    proof (cases k)
      case False
      obtain c2 where f: "free_list_all gpuFree c1 (bases rs) = Some c2" "heap B S N c2 R"
        "\<forall>r\<in>R. rdata c2 r = rdata c1 r"
        using gpu.free_list_regions [OF h1 d] by blast
      have "weight_loader_load fs ctx (Some dir) = Some (None, c2)"
        unfolding un using True False a f(1) by (simp add: ms)
      then show thesis using f d1 h0(2) by (intro fail [of c2]) simp_all
    next
      case kT: True
      then have l8: "length rs = 8" using k by simp
      have sz8: "\<forall>i<8. plan_bytes ! i \<le> snd (rs ! i)" using sz l8 plan_unat by simp
      obtain ok' c2 where ld: "load_all fs c1 (map load_of (places dir rs)) = Some (ok', c2)"
        and h2: "heap B S N c2 (R \<union> set rs)"
        and o2: "\<forall>r\<in>R \<union> set rs - (\<lambda>q. fst (snd q)) ` set (places dir rs). rdata c2 r = rdata c1 r"
        and g: "ok' \<longrightarrow> (\<forall>q\<in>set (places dir rs). loaded fs c2 q)"
        using load_all_places [OF h1 places_are_ok [OF l8 sz8] places_are_apart [OF d(1) l8, of dir], where fs = fs]
        unfolding loaded_def by blast
      have "(\<lambda>q. fst (snd q)) ` set (places dir rs) \<subseteq> set rs"
        using places_are_ok [OF l8 sz8, of "{}" dir] by (auto simp: list_all_iff place_ok_def)
      then have "R \<subseteq> R \<union> set rs - (\<lambda>q. fst (snd q)) ` set (places dir rs)" using d(2) by blast
      then have d2: "\<forall>r\<in>R. rdata c2 r = rdata ctx r" using o2 d1 h0(2) by auto
      show thesis
      proof (cases ok')
        case okT: True
        have "weight_loader_load fs ctx (Some dir) = Some (Some (place_tensors (bases rs)), c2)"
          unfolding un using True kT okT a ld by (simp add: ms weight_loads_places [OF l8])
        then show thesis using h2 l8 d sz8 g okT d2 by (intro ok [of rs c2]) simp_all
      next
        case okF: False
        obtain c3 where f: "free_list_all gpuFree c2 (bases rs) = Some c3" "heap B S N c3 R"
          "\<forall>r\<in>R. rdata c3 r = rdata c2 r"
          using gpu.free_list_regions [OF h2 d] by blast
        have "region_base (place_tensors (bases rs)) = bases rs" by (simp add: place_tensors_def)
        then have "weight_loader_load fs ctx (Some dir) = Some (None, c3)"
          unfolding un using True kT okF a ld f(1) bases_valid [OF h2]
          by (simp add: ms weight_loads_places [OF l8])
        then show thesis using f d2 by (intro fail [of c3]) simp_all
      qed
    qed
  qed
qed

end
