(* ===== verification/Weight_Items.thy ===== *)
theory Weight_Items
  imports Weight_Ops
begin

text \<open>
  The tensors as the queries of \<open>lib/src/weight_loader.c\<close> name them: the three global ones and the
  twelve of each layer, with the address the query returns, the length, and the file and offset the
  bytes come from.
\<close>

datatype weight_item = Embedding | Lm_head | Final_norm | Layer nat wl_tensor

fun item_ok :: "weight_item \<Rightarrow> bool" where
  "item_ok (Layer i t) \<longleftrightarrow> i < WL_NUM_LAYERS"
| "item_ok _ \<longleftrightarrow> True"

fun item_addr :: "weight_loader \<Rightarrow> weight_item \<Rightarrow> u64 option" where
  "item_addr wl Embedding = Some (weight_loader_embedding wl)"
| "item_addr wl Lm_head = Some (weight_loader_lm_head wl)"
| "item_addr wl Final_norm = Some (weight_loader_final_norm wl)"
| "item_addr wl (Layer i t) = weight_loader_layer wl (int i) t"

fun item_len :: "weight_item \<Rightarrow> nat" where
  "item_len Embedding = WL_EMBEDDING_BYTES"
| "item_len Lm_head = WL_LM_HEAD_BYTES"
| "item_len Final_norm = WL_FINAL_NORM_BYTES"
| "item_len (Layer i t) = 4 * snd (TENSOR_TABLE t)"

fun item_file :: "weight_item \<Rightarrow> string" where
  "item_file Embedding = WL_FILE_EMBEDDING"
| "item_file Lm_head = WL_FILE_LM_HEAD"
| "item_file Final_norm = WL_FILE_FINAL_NORM"
| "item_file (Layer i t) = WL_FILE_LAYER i"

fun item_skip :: "weight_item \<Rightarrow> nat" where
  "item_skip (Layer i t) = fst (TENSOR_TABLE t)"
| "item_skip _ = 0"

text \<open>The place in the list of places that holds a tensor: its region and its offset there.\<close>

fun item_region :: "weight_item \<Rightarrow> nat" where
  "item_region Embedding = 0"
| "item_region Lm_head = 1"
| "item_region Final_norm = 2"
| "item_region (Layer i t) = 2 + i div 4"

fun item_base :: "weight_item \<Rightarrow> nat" where
  "item_base (Layer i t) = layer_off i"
| "item_base _ = 0"

fun item_size :: "weight_item \<Rightarrow> nat" where
  "item_size (Layer i t) = WL_LAYER_BYTES"
| "item_size x = item_len x"

lemma item_in_file: "item_skip x + item_len x \<le> item_size x"
  by (cases x) (simp_all add: tensor_in_layer)

lemma item_region_bound: "item_ok x \<Longrightarrow> item_region x < 8"
  by (cases x) (auto simp: WL_NUM_LAYERS_def)

lemma item_place:
  "item_ok x \<Longrightarrow> (path dir (item_file x), rs ! item_region x, item_base x, item_size x) \<in> set (places dir rs)"
  by (cases x) (auto simp: places_def layer_place_def WL_NUM_LAYERS_def)

lemma item_address:
  assumes l: "length rs = 8" and x: "item_ok x"
  shows "item_addr (place_tensors (bases rs)) x =
    Some (word_of_nat (fst (rs ! item_region x) + item_base x + item_skip x))"
proof -
  have b: "bases rs ! r = word_of_nat (fst (rs ! r))" if "r < 8" for r
    using that l by (simp add: bases_def)
  show ?thesis
  proof (cases x)
    case (Layer i t)
    then have i: "i < 24" using x by (simp add: WL_NUM_LAYERS_def)
    have "layer_base (place_tensors (bases rs)) ! i = word_of_nat (fst (rs ! (2 + i div 4)) + layer_off i)"
      using i by (simp add: layer_base_map [OF l] del: of_nat_add upt_Suc)
    then show ?thesis using Layer i by (simp add: weight_loader_layer_def WL_NUM_LAYERS_def)
  qed (simp_all add: weight_loader_embedding_def weight_loader_lm_head_def weight_loader_final_norm_def
      place_tensors_def b)
qed

lemma item_fits:
  fixes rs :: "region list"
  assumes l: "length rs = 8" and s: "\<forall>i<8. plan_bytes ! i \<le> snd (rs ! i)" and x: "item_ok x"
  shows "item_base x + item_size x \<le> snd (rs ! item_region x)"
  using places_are_ok [OF l s, of "{}" "[]"] item_place [OF x, of "[]" rs]
  by (auto simp: list_all_iff place_ok_def)

lemma slice_rdata:
  assumes "d + n \<le> snd r"
  shows "slice ctx r d n = rdata ctx (fst r + d, n)"
proof (rule nth_equalityI)
  show "length (slice ctx r d n) = length (rdata ctx (fst r + d, n))"
    using assms by (simp add: slice_def rdata_def)
  fix i assume "i < length (slice ctx r d n)"
  then have "i < n" using assms by (simp add: slice_def rdata_def)
  then show "slice ctx r d n ! i = rdata ctx (fst r + d, n) ! i"
    using assms by (simp add: slice_def rdata_def get_bytes_def algebra_simps)
qed

lemma rdata_sub: "e + k \<le> n \<Longrightarrow> rdata ctx (a + e, k) = take k (drop e (rdata ctx (a, n)))"
  using slice_rdata [of e k "(a, n)" ctx] by (simp add: slice_def)

text \<open>What the device holds at the address of a tensor after a successful load.\<close>

lemma item_bytes:
  assumes l: "length rs = 8" and s: "\<forall>i<8. plan_bytes ! i \<le> snd (rs ! i)" and x: "item_ok x"
    and ld: "\<forall>q\<in>set (places dir rs). loaded fs ctx q"
  obtains bs where "content fs (path dir (item_file x)) = Some bs" "item_skip x + item_len x \<le> length bs"
    "rdata ctx (fst (rs ! item_region x) + item_base x + item_skip x, item_len x) =
       take (item_len x) (drop (item_skip x) bs)"
proof -
  let ?r = "rs ! item_region x"
  obtain bs where bs: "content fs (path dir (item_file x)) = Some bs" "item_size x \<le> length bs"
    "slice ctx ?r (item_base x) (item_size x) = take (item_size x) bs"
    using ld item_place [OF x, of dir rs] unfolding loaded_def by fastforce
  note f = item_in_file [of x]
  have "rdata ctx (fst ?r + item_base x + item_skip x, item_len x) =
      take (item_len x) (drop (item_skip x) (rdata ctx (fst ?r + item_base x, item_size x)))"
    by (rule rdata_sub [OF f])
  also have "rdata ctx (fst ?r + item_base x, item_size x) = take (item_size x) bs"
    using bs(3) slice_rdata [OF item_fits [OF l s x], of ctx] by simp
  finally have "rdata ctx (fst ?r + item_base x + item_skip x, item_len x) =
      take (item_len x) (drop (item_skip x) bs)" using f by (simp add: drop_take min_def)
  then show thesis using bs(1,2) f by (intro that) auto
qed

subsection \<open>No two tensors share a byte\<close>

definition item_span :: "region list \<Rightarrow> weight_item \<Rightarrow> region" where
  "item_span rs x = (fst (rs ! item_region x) + item_base x + item_skip x, item_len x)"

lemma item_in_region:
  fixes rs :: "region list"
  assumes "length rs = 8" "\<forall>i<8. plan_bytes ! i \<le> snd (rs ! i)" "item_ok x"
  shows "rbytes (item_span rs x) \<subseteq> rbytes (rs ! item_region x)"
proof -
  have "item_base x + item_skip x + item_len x \<le> snd (rs ! item_region x)"
    using item_fits [OF assms] item_in_file [of x] by linarith
  then show ?thesis by (auto simp: rbytes_def item_span_def)
qed

lemma layer_blocks_apart:
  assumes "i div 4 = j div 4" "i < j"
  shows "layer_off i + WL_LAYER_BYTES \<le> layer_off j"
proof -
  have "i = 4 * (i div 4) + i mod 4" "j = 4 * (j div 4) + j mod 4" by simp_all
  then have "i mod 4 < j mod 4" using assms by linarith
  then have "(i mod 4 + 1) * WL_LAYER_BYTES \<le> (j mod 4) * WL_LAYER_BYTES" by (intro mult_le_mono1) simp
  moreover have "i < 4 \<longleftrightarrow> j < 4" using assms(1) div_eq_0_iff [of i 4] div_eq_0_iff [of j 4] by auto
  ultimately show ?thesis by (simp add: layer_off_def)
qed

lemma same_region_apart:
  assumes "item_region x = item_region y" "x \<noteq> y" "item_ok x" "item_ok y"
  shows "item_base x + item_skip x + item_len x \<le> item_base y + item_skip y \<or>
    item_base y + item_skip y + item_len y \<le> item_base x + item_skip x"
proof -
  have norm: "WL_FINAL_NORM_BYTES \<le> layer_off i" if "i < 4" for i using that by (simp add: layer_off_def)
  have layers: ?thesis if xy: "x = Layer i t" "y = Layer j u" for i t j u
  proof (cases "i = j")
    case True
    then show ?thesis using tensors_apart [of t u] assms(2) xy by auto
  next
    case False
    have d: "i div 4 = j div 4" using assms(1) xy by simp
    consider "i < j" | "j < i" using False by linarith
    then show ?thesis
    proof cases
      case 1
      then show ?thesis using layer_blocks_apart [OF d 1] tensor_in_layer [of t] xy by simp
    next
      case 2
      then show ?thesis using layer_blocks_apart [OF d [symmetric] 2] tensor_in_layer [of u] xy by simp
    qed
  qed
  show ?thesis
    using assms layers norm by (cases x; cases y) (auto simp: trans_le_add1)
qed

lemma items_apart:
  assumes h: "heap B S N ctx (R \<union> set rs)" and d: "distinct rs" and l: "length rs = 8"
    and s: "\<forall>i<8. plan_bytes ! i \<le> snd (rs ! i)" and x: "item_ok x" "item_ok y" "x \<noteq> y"
  shows "rbytes (item_span rs x) \<inter> rbytes (item_span rs y) = {}"
proof (cases "item_region x = item_region y")
  case True
  then show ?thesis using same_region_apart [OF True x(3,1,2)] by (auto simp: rbytes_def item_span_def)
next
  case False
  note b = item_region_bound [OF x(1)] item_region_bound [OF x(2)]
  have "rs ! item_region x \<noteq> rs ! item_region y" using False b d l by (simp add: nth_eq_iff_index_eq)
  then have "rbytes (rs ! item_region x) \<inter> rbytes (rs ! item_region y) = {}"
    using heap_disjoint [OF h] b l by simp
  then show ?thesis using item_in_region [OF l s x(1)] item_in_region [OF l s x(2)] by blast
qed

lemma item_addr_value:
  assumes h: "heap B S N ctx (R \<union> set rs)" and l: "length rs = 8"
    and s: "\<forall>i<8. plan_bytes ! i \<le> snd (rs ! i)" and x: "item_ok x"
  shows "unat (word_of_nat (fst (item_span rs x)) :: u64) = fst (item_span rs x)"
    "fst (item_span rs x) + item_len x \<le> 2 ^ 32"
proof -
  have "rs ! item_region x \<in> R \<union> set rs" using item_region_bound [OF x] l by simp
  then have "fst (rs ! item_region x) + snd (rs ! item_region x) \<le> 2 ^ 32"
    using heap_addr_bound [OF h, of "fst (rs ! item_region x)"] by simp
  then show b: "fst (item_span rs x) + item_len x \<le> 2 ^ 32"
    using item_fits [OF l s x] item_in_file [of x] by (simp add: item_span_def)
  then have "fst (item_span rs x) < 2 ^ 64" by simp
  then show "unat (word_of_nat (fst (item_span rs x)) :: u64) = fst (item_span rs x)" by (rule unat_of_nat64)
qed

lemma weight_destroy_frees:
  assumes h: "heap B S N ctx (R \<union> set rs)" and d: "distinct rs" "set rs \<inter> R = {}"
  shows "\<exists>ctx'. weight_loader_destroy ctx (Some (place_tensors (bases rs))) = Some ctx' \<and> heap B S N ctx' R \<and>
    (\<forall>r\<in>R. rdata ctx' r = rdata ctx r)"
  using gpu.free_list_regions [OF h d] bases_valid [OF h]
  by (simp add: weight_loader_destroy_def place_tensors_def)

end
