(* ===== verification/Infer_Setup.thy ===== *)
theory Infer_Setup
  imports Infer_Run Host_State Transformer_Init Weight_Items
begin

text \<open>
  The parts that \<open>lib/test/infer_tokens.c\<close> starts one after the other, put together: the regions of the
  weights, the cache and the workspace are the places of a step, and the memory there holds the files.
\<close>

subsection \<open>What the files say\<close>

definition file_part :: "file_system \<Rightarrow> string \<Rightarrow> weight_item \<Rightarrow> u8 list" where
  "file_part fs dir x = (case content fs (path dir (item_file x)) of None \<Rightarrow> []
     | Some bs \<Rightarrow> take (item_len x) (drop (item_skip x) bs))"

definition file_weights :: "fpu \<Rightarrow> file_system \<Rightarrow> string \<Rightarrow> model_weights" where
  "file_weights fp fs dir = \<lparr>w_layer = (\<lambda>L t. if L < 24 then file_part fs dir (Layer L t) else []),
     w_embedding = file_part fs dir weight_item.Embedding, w_lm_head = file_part fs dir Lm_head,
     w_final_norm = file_part fs dir Final_norm, w_table = float_bytes (rope_table fp transformer_default_config)\<rparr>"

definition file_code :: "file_system \<Rightarrow> string \<Rightarrow> ws_field \<Rightarrow> u8 list" where
  "file_code fs dir k = (case map_of kernel_plan k of None \<Rightarrow> []
     | Some name \<Rightarrow> (case (content fs (path dir (name @ ''.bin'')), stat_size fs (path dir (name @ ''.bin''))) of
         (Some bs, Some n) \<Rightarrow> take (unat n) bs | _ \<Rightarrow> []))"

subsection \<open>The places\<close>

definition place_slots :: "region list \<Rightarrow> region \<Rightarrow> region \<Rightarrow> (ws_field \<Rightarrow> region) \<Rightarrow> slot \<Rightarrow> region" where
  "place_slots rs rK rV reg s = (case s of
     Buf f \<Rightarrow> reg f
   | Weight L t \<Rightarrow> if L < 24 then item_span rs (Layer L t) else (0, 0)
   | slot.Embedding \<Rightarrow> item_span rs weight_item.Embedding
   | Lm_Head \<Rightarrow> item_span rs Lm_head
   | Final_Norm \<Rightarrow> item_span rs Final_norm
   | K_cache \<Rightarrow> rK
   | V_cache \<Rightarrow> rV)"

definition ready :: "u64 \<Rightarrow> nat \<Rightarrow> nat \<Rightarrow> fpu \<Rightarrow> file_system \<Rightarrow> string \<Rightarrow> string \<Rightarrow> region list \<Rightarrow> region \<Rightarrow> region \<Rightarrow>
    (ws_field \<Rightarrow> region) \<Rightarrow> kv_cache \<Rightarrow> transformer_workspace \<Rightarrow> gpgpu_ctx \<Rightarrow> bool" where
  "ready B S N fp fs wd kd rs rK rV reg kv ws ctx \<longleftrightarrow>
     heap B S N ctx (insert rK (insert rV (set rs)) \<union> range reg) \<and> distinct (rK # rV # rs) \<and>
     length rs = 8 \<and> (\<forall>i<8. plan_bytes ! i \<le> snd (rs ! i)) \<and> (\<forall>q\<in>set (places wd rs). loaded fs ctx q) \<and>
     kv_ok (insert rK (insert rV (set rs))) kv rK rV \<and> num_layers kv = 24 \<and> num_kv_heads kv = 2 \<and> max_seq kv = 128 \<and>
     head_dim kv = 64 \<and> filled kv = 0 \<and> pending kv = 0 \<and>
     ws_ready fp fs kd ctx (insert rK (insert rV (set rs))) reg ws \<and> ws_cfg ws = transformer_default_config \<and>
     ws_wl ws = place_tensors (bases rs)"

lemma readyD:
  assumes "ready B S N fp fs wd kd rs rK rV reg kv ws ctx"
  shows "heap B S N ctx (insert rK (insert rV (set rs)) \<union> range reg)" "distinct (rK # rV # rs)" "length rs = 8"
    "\<forall>i<8. plan_bytes ! i \<le> snd (rs ! i)" "\<forall>q\<in>set (places wd rs). loaded fs ctx q"
    "kv_ok (insert rK (insert rV (set rs))) kv rK rV" "ws_ready fp fs kd ctx (insert rK (insert rV (set rs))) reg ws"
    "ws_cfg ws = transformer_default_config" "ws_wl ws = place_tensors (bases rs)" "filled kv = 0" "pending kv = 0"
    "num_layers kv = 24 \<and> num_kv_heads kv = 2 \<and> max_seq kv = 128 \<and> head_dim kv = 64"
  using assms unfolding ready_def by blast+

lemma ready_holds: "ready B S N fp fs wd kd rs rK rV reg kv ws ctx \<Longrightarrow> holds (insert rK (insert rV (set rs))) UNIV reg ws"
  using readyD(7) by (simp add: ws_ready_def)

text \<open>The region a place lies in.\<close>

fun slot_item :: "slot \<Rightarrow> weight_item option" where
  "slot_item (Weight L t) = (if L < 24 then Some (Layer L t) else None)"
| "slot_item slot.Embedding = Some weight_item.Embedding"
| "slot_item Lm_Head = Some Lm_head"
| "slot_item Final_Norm = Some Final_norm"
| "slot_item _ = None"

lemma slot_item:
  assumes "slot_item s = Some x"
  shows "item_ok x" "place_slots rs rK rV reg s = item_span rs x" "slot_size P s = item_len x" "\<not> hidden s"
  using assms by (cases s; auto simp: place_slots_def slot_size_def WL_NUM_LAYERS_def split: if_splits)+

lemma slot_item_inj: "slot_item s = Some x \<Longrightarrow> slot_item t = Some x \<Longrightarrow> s = t"
  by (cases s; cases t; auto split: if_splits)

text \<open>The region that contains a place.\<close>

definition owner :: "region list \<Rightarrow> region \<Rightarrow> region \<Rightarrow> (ws_field \<Rightarrow> region) \<Rightarrow> slot \<Rightarrow> region" where
  "owner rs rK rV reg s = (case slot_item s of Some x \<Rightarrow> rs ! item_region x | None \<Rightarrow> place_slots rs rK rV reg s)"

definition unused :: "slot \<Rightarrow> bool" where
  "unused s \<longleftrightarrow> (case s of Weight L t \<Rightarrow> 24 \<le> L | _ \<Rightarrow> False)"

lemma unused_place: "unused s \<Longrightarrow> place_slots rs rK rV reg s = (0, 0)"
  by (cases s) (auto simp: unused_def place_slots_def)

lemma owner_region:
  assumes "length rs = 8" "\<not> unused s"
  shows "owner rs rK rV reg s \<in> insert rK (insert rV (set rs)) \<union> range reg"
proof (cases "slot_item s")
  case None
  then show ?thesis using assms(2) by (cases s) (auto simp: owner_def place_slots_def unused_def split: if_splits)
next
  case (Some x)
  then show ?thesis using item_region_bound [OF slot_item(1) [OF Some]] assms(1) by (simp add: owner_def)
qed

lemma place_in_owner:
  assumes r: "ready B S N fp fs wd kd rs rK rV reg kv ws ctx"
  shows "rbytes (place_slots rs rK rV reg s) \<subseteq> rbytes (owner rs rK rV reg s)"
proof (cases "slot_item s")
  case (Some x)
  then show ?thesis using item_in_region [OF readyD(3,4) [OF r] slot_item(1) [OF Some]] slot_item(2) [OF Some] by (simp add: owner_def)
qed (simp add: owner_def)

lemma slots_apart:
  assumes r: "ready B S N fp fs wd kd rs rK rV reg kv ws ctx" and st: "s \<noteq> t"
  shows "rbytes (place_slots rs rK rV reg s) \<inter> rbytes (place_slots rs rK rV reg t) = {}"
proof -
  let ?R = "insert rK (insert rV (set rs))" and ?o = "owner rs rK rV reg" and ?p = "place_slots rs rK rV reg"
  note D = readyD [OF r] and H = ready_holds [OF r]
  consider (unused) "unused s \<or> unused t" | (items) x y where "slot_item s = Some x" "slot_item t = Some y"
    | (apart) "\<not> unused s" "\<not> unused t" "?o s \<noteq> ?o t"
  proof -
    have i: "inj reg" "reg f \<noteq> rK" "reg f \<noteq> rV" "reg f \<notin> set rs" for f
      using H unfolding holds_def by blast+
    have some: "?o u \<in> set rs" if "slot_item u = Some x" for u x
      using item_region_bound [OF slot_item(1) [OF that]] D(3) that by (simp add: owner_def)
    have none: "?o u \<notin> set rs" if "slot_item u = None" "\<not> unused u" for u
      using that i D(2) by (cases u) (auto simp: owner_def place_slots_def unused_def split: if_splits)
    have "?o s \<noteq> ?o t" if "slot_item s = None" "slot_item t = None" "\<not> unused s" "\<not> unused t"
      using that st i D(2) by (cases s; cases t) (auto simp: owner_def place_slots_def unused_def dest: injD split: if_splits)
    then have "?o s \<noteq> ?o t" if "\<not> unused s" "\<not> unused t" "slot_item s = None \<or> slot_item t = None"
      using that some none by (metis option.exhaust)
    then show thesis using unused items apart by (metis option.exhaust)
  qed
  then show ?thesis
  proof cases
    case unused
    then show ?thesis by (auto simp: unused_place rbytes_def)
  next
    case (items x y)
    have "heap B S N ctx (insert rK (insert rV (range reg)) \<union> set rs)" using D(1) by (simp add: Un_commute)
    moreover have "distinct rs" "x \<noteq> y" using D(2) items st slot_item_inj by auto
    ultimately show ?thesis
      using items_apart [OF _ _ D(3,4)] items slot_item(1,2) by metis
  next
    case apart
    have "rbytes (?o s) \<inter> rbytes (?o t) = {}"
      using heap_disjoint [OF D(1) owner_region [OF D(3) apart(1)] owner_region [OF D(3) apart(2)] apart(3)] .
    then show ?thesis using place_in_owner [OF r, of s] place_in_owner [OF r, of t] by blast
  qed
qed

lemma ready_memory:
  assumes r: "ready B S N fp fs wd kd rs rK rV reg kv ws ctx"
  shows "mem_ok B (S, ctx) (place_slots rs rK rV reg) ctx"
proof -
  let ?p = "place_slots rs rK rV reg"
  note D = readyD [OF r]
  have A: "arena B (S, ctx) ctx (insert rK (insert rV (set rs)) \<union> range reg)" by (rule heap_arena [OF D(1)])
  have "fst (?p s) + snd (?p s) \<le> S \<and> fst (?p s) + snd (?p s) \<le> 2 ^ 32" for s
  proof (cases "unused s")
    case False
    let ?o = "owner rs rK rV reg s"
    have "fst ?o + snd ?o \<le> S \<and> fst ?o + snd ?o \<le> 2 ^ 32"
      using arenaD(4,5) [OF A, of "fst ?o" "snd ?o"] owner_region [OF D(3) False, of rK rV reg] by simp
    moreover have "fst (?p s) + snd (?p s) \<le> fst ?o + snd ?o"
    proof (cases "slot_item s")
      case (Some x)
      then show ?thesis
        using item_fits [OF D(3,4) slot_item(1) [OF Some]] item_in_file [of x] slot_item(2) [OF Some]
        by (simp add: owner_def item_span_def)
    qed (simp add: owner_def)
    ultimately show ?thesis by linarith
  qed (simp add: unused_place)
  moreover have "rbytes q \<inter> rbytes q' = {}" if "q \<in> range ?p" "q' \<in> range ?p" "q \<noteq> q'" for q q'
    using that slots_apart [OF r] by (metis imageE)
  ultimately have "arena B (S, ctx) ctx (range ?p)" using arenaD(1-3) [OF A] by (auto simp: arena_def)
  then show ?thesis using slots_apart [OF r] by (simp add: mem_ok_def)
qed

subsection \<open>The setting of a run\<close>

definition run_setting ::
  "kernel_fun \<Rightarrow> (ws_field \<Rightarrow> u8 list) \<Rightarrow> u64 \<Rightarrow> nat \<Rightarrow> machine \<Rightarrow> region list \<Rightarrow> region \<Rightarrow> region \<Rightarrow> (ws_field \<Rightarrow> region) \<Rightarrow>
   transformer_workspace \<Rightarrow> gpgpu_ctx \<Rightarrow> setting" where
  "run_setting KF code B S E rs rK rV reg ws ctx = \<lparr>s_kf = KF, s_code = code, s_base = B, s_from = (S, ctx),
     s_reg = place_slots rs rK rV reg, s_mach = E, s_ws = ws, s_pos = 0\<rparr>"

lemma file_code:
  assumes r: "ready B S N fp fs wd kd rs rK rV reg kv ws ctx" and k: "k \<in> set kernels"
  shows "file_code fs kd k \<noteq> []" "length (file_code fs kd k) \<le> snd (reg k)"
    "take (length (file_code fs kd k)) (rdata ctx (reg k)) = file_code fs kd k"
proof -
  obtain name where n: "(k, name) \<in> set kernel_plan" using k by (auto simp: kernels_def)
  then have m: "map_of kernel_plan k = Some name" by (auto simp: kernel_plan_def)
  have "kernel_loaded fs kd name (reg k) (rdata ctx (reg k))" using readyD(7) [OF r] n by (auto simp: ws_ready_def)
  then obtain bs z where c: "content fs (path kd (name @ ''.bin'')) = Some bs" "stat_size fs (path kd (name @ ''.bin'')) = Some z"
    "0 < unat z" "unat z \<le> length bs" "unat z \<le> snd (reg k)" "take (unat z) (rdata ctx (reg k)) = take (unat z) bs"
    by (auto simp: kernel_loaded_def)
  then have "file_code fs kd k = take (unat z) bs" by (simp add: file_code_def m)
  then show "file_code fs kd k \<noteq> []" "length (file_code fs kd k) \<le> snd (reg k)"
    "take (length (file_code fs kd k)) (rdata ctx (reg k)) = file_code fs kd k"
    using c by (auto simp: min_def)
qed

lemma ready_setting:
  assumes r: "ready B S N (mfpu E) fs wd kd rs rK rV reg kv ws ctx" and dev: "device_runs KF (file_code fs kd) B E"
  shows "setting_ok (run_setting KF (file_code fs kd) B S E rs rK rV reg ws ctx)"
proof -
  let ?P = "run_setting KF (file_code fs kd) B S E rs rK rV reg ws ctx" and ?p = "place_slots rs rK rV reg"
  note D = readyD [OF r]
  have a: "item_addr (ws_wl ws) x = Some (word_of_nat (fst (item_span rs x)))" if "item_ok x" for x
    using item_address [OF D(3) that] by (simp add: D(9) item_span_def)
  have "slot_size ?P s \<le> snd (?p s)" for s
  proof (cases "slot_item s")
    case (Some x)
    then show ?thesis using slot_item(2) [OF Some, of rs rK rV reg] slot_item(3) [OF Some, of ?P] by (simp add: item_span_def)
  next
    case None
    have kv: "kv_bytes kv = 24 * 2 * 128 * 64 * 4" using D(12) by (simp add: kv_bytes_def)
    have "slot_size ?P (Buf f) \<le> snd (reg f)" for f
    proof (cases "map_of (scratch_plan transformer_default_config @ args_plan) f")
      case (Some n)
      then show ?thesis using D(7,8) map_of_SomeD [OF Some] by (auto simp: ws_ready_def slot_size_def)
    next
      case N: None
      then have "f \<in> set kernels" by (cases f) (simp_all add: scratch_plan_def args_plan_def kernels_def kernel_plan_def)
      then show ?thesis using file_code(2) [OF r] kernel_size [of f ?P] by (simp add: run_setting_def)
    qed
    then show ?thesis
      using None kv_okD(6,7) [OF D(6)] kv by (cases s) (auto simp: place_slots_def slot_size_def split: if_splits)
  qed
  moreover have "ws_off ws f = word_of_nat (fst (reg f))" for f using ready_holds [OF r] by (simp add: holds_def)
  moreover have "weight_loader_layer (ws_wl ws) (int L) t = Some (word_of_nat (fst (item_span rs (Layer L t))))" if "L < 24" for L t
    using a [of "Layer L t"] that by (simp add: WL_NUM_LAYERS_def)
  ultimately show ?thesis
    using dev D(8) file_code(1) [OF r] a [of weight_item.Embedding] a [of Lm_head] a [of Final_norm]
    by (simp add: setting_ok_def run_setting_def place_slots_def)
qed

lemma ready_malloc:
  assumes "ready B S N fp fs wd kd rs rK rV reg kv ws ctx"
  shows "ready B S N fp fs wd kd rs rK rV reg kv ws (ctx\<lparr>sh := snd (malloc (sh ctx))\<rparr>)"
proof -
  let ?ctx = "ctx\<lparr>sh := snd (malloc (sh ctx))\<rparr>"
  note hm = heap_malloc [OF readyD(1) [OF assms]]
  have "loaded fs ?ctx = loaded fs ctx" by (simp add: fun_eq_iff loaded_def slice_def hm(2))
  moreover have "ws_ready fp fs kd ?ctx (insert rK (insert rV (set rs))) reg ws = ws_ready fp fs kd ctx (insert rK (insert rV (set rs))) reg ws"
    by (simp add: ws_ready_def hm(2))
  ultimately show ?thesis using assms hm(1) unfolding ready_def by simp
qed

lemma ready_state:
  assumes r: "ready B S N (mfpu E) fs wd kd rs rK rV reg kv ws ctx" and m: "False \<notin> set (mallocs (sh ctx))"
  shows "state_ok (run_setting KF (file_code fs kd) B S E rs rK rV reg ws ctx) \<lparr>rctx = ctx, rkv = kv, rdump = d\<rparr>"
  using ready_memory [OF r] m kv_okD(4,5) [OF readyD(6) [OF r]] readyD(12) [OF r] file_code(3) [OF r]
  by (simp add: state_ok_def kv_fits_def run_setting_def place_slots_def held_def)

lemma ready_weights:
  assumes r: "ready B S N (mfpu E) fs wd kd rs rK rV reg kv ws ctx"
  shows "weights_of (abs_of (run_setting KF (file_code fs kd) B S E rs rK rV reg ws ctx) \<lparr>rctx = ctx, rkv = kv, rdump = d\<rparr>) =
    file_weights (mfpu E) fs wd"
proof -
  let ?P = "run_setting KF (file_code fs kd) B S E rs rK rV reg ws ctx" and ?st = "\<lparr>rctx = ctx, rkv = kv, rdump = d\<rparr>"
  note D = readyD [OF r]
  have i: "a_buf (abs_of ?P ?st) s = file_part fs wd x" if x: "slot_item s = Some x" for s x
  proof -
    obtain bs where "content fs (path wd (item_file x)) = Some bs" "item_skip x + item_len x \<le> length bs"
      "rdata ctx (item_span rs x) = take (item_len x) (drop (item_skip x) bs)"
      using item_bytes [OF D(3,4) slot_item(1) [OF x] D(5)] by (metis item_span_def)
    then show ?thesis
      using slot_item(2) [OF x, of rs rK rV reg] slot_item(3) [OF x, of ?P] slot_item(4) [OF x]
      by (simp add: abstr_def file_part_def held_def run_setting_def)
  qed
  have u: "a_buf (abs_of ?P ?st) (Weight L t) = []" if "\<not> L < 24" for L t
    using that by (simp add: abstr_def slot_size_def)
  have "take 32768 (rdata ctx (reg sincos_off)) = float_bytes (rope_table (mfpu E) transformer_default_config)"
    using D(7,8) by (simp add: ws_ready_def transformer_default_config_def)
  then have t: "a_buf (abs_of ?P ?st) (Buf sincos_off) = float_bytes (rope_table (mfpu E) transformer_default_config)"
    by (simp add: abstr_def held_def run_setting_def place_slots_def args_plan_def)
  have "w_layer (weights_of (abs_of ?P ?st)) L t = w_layer (file_weights (mfpu E) fs wd) L t" for L t
    using i [of "Weight L t"] u [of L t] by (simp add: weights_of_def file_weights_def)
  then show ?thesis
    using i [of slot.Embedding] i [of Lm_Head] i [of Final_Norm] t
    by (auto intro!: model_weights.equality simp: weights_of_def file_weights_def fun_eq_iff)
qed

text \<open>After the run the heap is as it was: only bytes of the regions have changed.\<close>

lemma run_heap:
  assumes r: "ready B S N (mfpu E) fs wd kd rs rK rV reg kv ws ctx"
    and ok: "state_ok (run_setting KF code B S E rs rK rV reg ws ctx) st"
  shows "heap B S N (rctx st) (insert rK (insert rV (set rs)) \<union> range reg)" "fd (rctx st) = fd ctx" "vram_size (rctx st) = vram_size ctx"
    "vram_mmap (rctx st) = vram_mmap ctx" "K_dev_off (rkv st) = K_dev_off kv" "V_dev_off (rkv st) = V_dev_off kv"
proof -
  let ?p = "place_slots rs rK rV reg" and ?R = "insert rK (insert rV (set rs)) \<union> range reg"
  note D = readyD [OF r]
  have a: "arena B (S, ctx) (rctx st) (range ?p)" and k: "kv_fits (run_setting KF code B S E rs rK rV reg ws ctx) (rkv st)"
    and m: "False \<notin> set (mallocs (sh (rctx st)))"
    using ok by (simp_all add: state_ok_def mem_ok_def run_setting_def)
  have w: "within B (\<Union> (rbytes ` range ?p)) ctx (rctx st)" and v: "vram_at (vmem (sh (rctx st))) B S"
    using a by (simp_all add: arena_def)
  have "rbytes (?p s) \<subseteq> \<Union> (rbytes ` ?R)" for s
  proof (cases "unused s")
    case False
    then show ?thesis using place_in_owner [OF r, of s] owner_region [OF D(3) False, of rK rV reg] by blast
  qed (simp add: unused_place rbytes_def)
  then show "heap B S N (rctx st) ?R" by (intro heap_within [OF D(1) w _ v]) blast
  show "K_dev_off (rkv st) = K_dev_off kv" "V_dev_off (rkv st) = V_dev_off kv"
    using k kv_okD(4,5) [OF D(6)] by (simp_all add: kv_fits_def run_setting_def place_slots_def)
  show "fd (rctx st) = fd ctx" "vram_size (rctx st) = vram_size ctx" "vram_mmap (rctx st) = vram_mmap ctx"
    using w by (auto simp: within_def dest: rest_of_eqD)
qed

end
