(* ===== verification/Infer_Main.thy ===== *)
theory Infer_Main
  imports Infer_Setup
begin

text \<open>
  The whole program \<open>lib/test/infer_tokens.c\<close>: every way through it stops what it has started, and the one
  that gets to the end writes the tokens of the specification.
\<close>

subsection \<open>Reading the prompt\<close>

lemma read_loop_result:
  "read_loop s cap ids m = (res, m') \<Longrightarrow> set (mallocs m') \<subseteq> set (mallocs m) \<and>
     (\<forall>out. res = Some out \<longrightarrow> list_all (\<lambda>t. 0 \<le> t \<and> t \<le> INT32_MAX) ids \<longrightarrow>
        list_all (\<lambda>t. 0 \<le> t \<and> t \<le> INT32_MAX) out \<and> length out \<le> length ids + length s)"
proof (induction s cap ids m arbitrary: res m' rule: read_loop.induct)
  case (1 s cap ids m)
  show ?case
  proof (cases "scan_number s")
    case None
    then show ?thesis using "1.prems" by (auto simp: read_loop.simps)
  next
    case (Some p)
    obtain v rest where p: "p = (v, rest)" by (cases p)
    have l: "length rest < length s" using Some p scan_number_rest by simp
    let ?v = "clamp_long v"
    obtain ok m1 where m: "malloc m = (ok, m1)" by fastforce
    consider (bad) "?v < 0 \<or> ?v > INT32_MAX" | (full) "\<not> (?v < 0 \<or> ?v > INT32_MAX)" "length ids = cap"
      | (room) "\<not> (?v < 0 \<or> ?v > INT32_MAX)" "length ids \<noteq> cap" by blast
    then show ?thesis
    proof cases
      case bad
      then show ?thesis using "1.prems" Some p by (auto simp: read_loop.simps [of s] Let_def)
    next
      case full
      show ?thesis
      proof (cases ok)
        case True
        then have "read_loop rest (cap * 2) (ids @ [?v]) m1 = (res, m')"
          using "1.prems" Some p full m by (simp add: read_loop.simps [of s] Let_def)
        note ih = "1.IH"(1) [OF Some p [symmetric] refl full refl m [symmetric] _ this]
        show ?thesis using ih True malloc_mallocs [OF m] full(1) l by fastforce
      next
        case False
        then show ?thesis
          using "1.prems" Some p full m malloc_mallocs [OF m] by (simp add: read_loop.simps [of s] Let_def)
      qed
    next
      case room
      then have "read_loop rest cap (ids @ [?v]) m = (res, m')"
        using "1.prems" Some p by (simp add: read_loop.simps [of s] Let_def)
      note ih = "1.IH"(2) [OF Some p [symmetric] refl room this]
      show ?thesis using ih room(1) l by fastforce
    qed
  qed
qed

lemma read_tokens_result:
  assumes "read_tokens io p m = (res, m')"
  shows "set (mallocs m') \<subseteq> set (mallocs m)"
    "res = Some ids \<Longrightarrow> \<exists>text. in_text io p = Some text \<and> ids \<noteq> [] \<and> length ids \<le> length text \<and> list_all (\<lambda>t. 0 \<le> t \<and> t \<le> INT32_MAX) ids"
proof -
  obtain ok m1 where m: "malloc m = (ok, m1)" by fastforce
  note mm = malloc_mallocs [OF m]
  show "set (mallocs m') \<subseteq> set (mallocs m)"
    "res = Some ids \<Longrightarrow> \<exists>text. in_text io p = Some text \<and> ids \<noteq> [] \<and> length ids \<le> length text \<and> list_all (\<lambda>t. 0 \<le> t \<and> t \<le> INT32_MAX) ids"
    using assms m mm
    by (auto simp: read_tokens_def Let_def split: option.splits prod.splits if_splits dest!: read_loop_result)
qed

lemma valid_prompt:
  assumes "list_all (\<lambda>t. 0 \<le> t \<and> t \<le> INT32_MAX) prompt" "in_vocab transformer_default_config prompt"
  shows "list_all valid_token prompt"
proof -
  have "t < 151936" if t: "0 \<le> t" "t \<le> INT32_MAX" "\<not> (word_of_int t :: u32) \<ge> 151936" for t
  proof -
    have "uint (word_of_int t :: u32) = t" using t(1,2) by (simp add: uint_word_of_int INT32_MAX_def)
    then show ?thesis using t(3) by (simp add: word_le_def)
  qed
  then show ?thesis
    using assms by (auto simp: list_all_iff in_vocab_def valid_token_def transformer_default_config_def)
qed

lemma fitting_prompt:
  assumes "prompt_fits transformer_default_config prompt n" "length prompt < 2 ^ 63" "n \<noteq> 0" "unat n < 2 ^ 63"
  shows "length prompt \<le> 128" "length prompt + unat n - 1 \<le> 128"
proof -
  have u: "unat (word_of_nat (length prompt) :: u64) = length prompt" using assms(2) by (intro unat_of_nat64) simp
  have "1 \<le> unat n" using assms(3) by (simp add: Suc_le_eq unat_gt_0)
  then have s: "unat ((word_of_nat (length prompt) :: u64) + n - 1) = length prompt + unat n - 1"
    using assms(2,4) u by (simp add: unat_word_ariths unat_sub_if')
  show "length prompt \<le> 128" "length prompt + unat n - 1 \<le> 128"
    using assms(1) u s by (simp_all add: prompt_fits_def transformer_default_config_def word_less_nat_alt not_less)
qed

subsection \<open>Stopping\<close>

definition opened :: "u64 \<Rightarrow> int list \<Rightarrow> gpgpu_ctx \<Rightarrow> host \<Rightarrow> bool" where
  "opened B fds ctx h \<longleftrightarrow> 0 \<le> fd ctx \<and> open_fds h = fd ctx # fds \<and> vram_mmap ctx = B \<and> B \<noteq> 0 \<and> B \<noteq> MAP_FAILED \<and>
     vram_size ctx = VRAM_SIZE"

definition ends :: "u64 \<Rightarrow> int list \<Rightarrow> int \<Rightarrow> text_files \<Rightarrow> outcome option \<Rightarrow> bool" where
  "ends B fds rc io out \<longleftrightarrow> (\<exists>ctx h. out = Some (rc, io, ctx, h) \<and> open_fds h = fds \<and>
     (\<forall>x. loc B x < unat VRAM_SIZE \<longrightarrow> vmem (sh ctx) x = None))"

lemma opened_follows: "opened B fds ctx h \<Longrightarrow> follows ctx ctx' \<Longrightarrow> opened B fds ctx' h"
  by (simp add: opened_def follows_def)

lemma leave_ends:
  assumes "opened B fds ctx h" shows "ends B fds rc io (Some (leave rc io ctx h))"
proof -
  obtain ctx' h' where d: "gpuDestroy ctx h = (ctx', h')" by fastforce
  have n: "0 \<le> fd ctx" "vram_mmap ctx \<noteq> 0" "vram_mmap ctx \<noteq> MAP_FAILED" using assms by (auto simp: opened_def)
  have "open_fds h' = fds" "\<forall>x. loc B x < unat VRAM_SIZE \<longrightarrow> vmem (sh ctx') x = None"
    using gpuDestroy_closes [OF n d] assms by (simp_all add: opened_def)
  then show ?thesis by (simp add: ends_def leave_def d)
qed

lemma leave_wl_ends:
  assumes "opened B fds ctx h" "heap B S N ctx (set rs)" "distinct rs"
  shows "ends B fds rc io (leave_wl rc io ctx h (place_tensors (bases rs)))"
proof -
  obtain ctx' where "weight_loader_destroy ctx (Some (place_tensors (bases rs))) = Some ctx'"
    using weight_destroy_frees [of B S N ctx "{}" rs] assms(2,3) by auto
  then show ?thesis
    using leave_ends [OF opened_follows [OF assms(1) weight_destroy_follows]] by (simp add: leave_wl_def)
qed

lemma leave_kv_ends:
  assumes o: "opened B fds ctx h" and h: "heap B S N ctx (insert rK (insert rV (set rs)))" "distinct (rK # rV # rs)"
    and k: "kv_ok (insert rK (insert rV (set rs))) kv rK rV" "K_dev_off c = K_dev_off kv" "V_dev_off c = V_dev_off kv"
  shows "ends B fds rc io (leave_kv rc io ctx h (place_tensors (bases rs)) c)"
proof -
  obtain ctx' where "kv_cache_destroy ctx (Some kv) = Some ctx'" "heap B S N ctx' (insert rK (insert rV (set rs)) - {rK, rV})"
    by (rule kv_destroy_frees [OF h(1) k(1)]) (rule that)
  moreover have "insert rK (insert rV (set rs)) - {rK, rV} = set rs" using h(2) by auto
  moreover have "kv_cache_destroy ctx (Some c) = kv_cache_destroy ctx (Some kv)" using k(2,3) by (simp add: kv_cache_destroy_def)
  ultimately show ?thesis
    using leave_wl_ends [OF opened_follows [OF o kv_destroy_follows]] h(2) by (simp add: leave_kv_def)
qed

lemma leave_ws_ends:
  assumes o: "opened B fds ctx h" and h: "heap B S N ctx (insert rK (insert rV (set rs)) \<union> range reg)" "distinct (rK # rV # rs)"
    and k: "kv_ok (insert rK (insert rV (set rs))) kv rK rV" "K_dev_off c = K_dev_off kv" "V_dev_off c = V_dev_off kv"
    and w: "holds (insert rK (insert rV (set rs))) UNIV reg ws"
  shows "ends B fds rc io (leave_ws rc io ctx h (place_tensors (bases rs)) c ws)"
proof -
  obtain ctx' where "transformer_destroy ctx (Some ws) = Some ctx'" "heap B S N ctx' (insert rK (insert rV (set rs)))"
    by (rule destroy_holds [OF h(1) w]) (rule that)
  then show ?thesis
    using leave_kv_ends [OF opened_follows [OF o transformer_destroy_follows] _ h(2) k] by (simp add: leave_ws_def)
qed

subsection \<open>Running\<close>

text \<open>What is written when the run gets to its end.\<close>

definition with_output :: "text_files \<Rightarrow> string \<Rightarrow> int list \<Rightarrow> text_files" where
  "with_output io p toks = io\<lparr>written := (p, token_text toks) # written io\<rparr>"

lemma infer_steps_ends:
  assumes r: "ready B S N (mfpu E) fs wd kd rs rK rV reg kv ws ctx" and o: "opened B fds ctx h" and m: "False \<notin> set (mallocs (sh ctx))"
    and dev: "device_runs KF (file_code fs kd) B E" "argmax_in_vocab KF"
    and pr: "prompt \<noteq> []" "list_all valid_token prompt" "length prompt + unat n - 1 \<le> 128" "length prompt \<le> 128" "n \<noteq> 0"
  shows "ends B fds (if out_ok io p then 0 else 1)
    (if out_ok io p then with_output io p (spec_generate KF (mfpu E) (file_weights (mfpu E) fs wd) prompt (unat n) eos) else io)
    (infer_steps E io ctx h d (place_tensors (bases rs)) kv ws prompt n eos p)"
proof -
  obtain ok s where ms: "malloc (sh ctx) = (ok, s)" by fastforce
  note ok = malloc_succeeds [OF m ms] malloc_mallocs [OF ms]
  let ?ctx = "ctx\<lparr>sh := s\<rparr>" let ?st = "\<lparr>rctx = ?ctx, rkv = kv, rdump = d\<rparr>"
  let ?P = "run_setting KF (file_code fs kd) B S E rs rK rV reg ws ?ctx"
  have r': "ready B S N (mfpu E) fs wd kd rs rK rV reg kv ws ?ctx" using ready_malloc [OF r] ms by simp
  have P: "setting_ok ?P" by (rule ready_setting [OF r' dev(1)])
  have st: "state_ok ?P ?st" by (rule ready_state [OF r']) (use m ok(2) in auto)
  have W: "weights_of (abs_of ?P ?st) = file_weights (mfpu E) fs wd" by (rule ready_weights [OF r'])
  have am: "argmax_in_vocab (s_kf ?P)" using dev(2) by (simp add: run_setting_def)
  have c: "cache_at ?st 0" using readyD(10,11) [OF r] by simp
  obtain st' where g: "generate E ws prompt n eos ?st =
      Some (Some (spec_generate KF (mfpu E) (file_weights (mfpu E) fs wd) prompt (unat n) eos), st')" "state_ok ?P st'"
    using generate_ok [OF P am st c pr, of eos thesis] W by (simp add: run_setting_def)
  note h = run_heap [OF r' g(2)]
  have o': "opened B fds (rctx st') h" using o h(2-4) by (simp add: opened_def)
  have "ends B fds rc io' (leave_ws rc io' (rctx st') h (place_tensors (bases rs)) (rkv st') ws)" for rc io'
    by (rule leave_ws_ends [OF o' h(1) readyD(2,6) [OF r'] h(5,6) ready_holds [OF r']])
  then show ?thesis
    using ms ok(1) g(1) by (simp add: infer_steps_def write_generated_def with_output_def Let_def)
qed

lemma loaded_same:
  assumes "length rs = 8" "\<forall>r\<in>set rs. rdata ctx' r = rdata ctx r" "\<forall>q\<in>set (places wd rs). loaded fs ctx q"
  shows "\<forall>q\<in>set (places wd rs). loaded fs ctx' q"
proof
  fix q assume q: "q \<in> set (places wd rs)"
  obtain f r d n where e: "q = (f, r, d, n)" by (cases q)
  have "r \<in> set rs" using q e assms(1) by (auto simp: places_def layer_place_def intro!: nth_mem)
  then show "loaded fs ctx' q" using assms(2,3) q e by (auto simp: loaded_def slice_def)
qed

lemma default_kv_size: "unat (24 :: u32) * unat (2 :: u32) * unat (128 :: u32) * unat (64 :: u32) * 4 < (2 :: nat) ^ 64"
  by simp

text \<open>The parts can be started one after the other.\<close>

definition transformer_starts ::
  "machine \<Rightarrow> file_system \<Rightarrow> gpgpu_ctx \<Rightarrow> dump_state \<Rightarrow> weight_loader \<Rightarrow> kv_cache \<Rightarrow> string \<Rightarrow> bool" where
  "transformer_starts E fs ctx d wl kv kd \<longleftrightarrow> (\<exists>ws ctx' d'. transformer_init (DUMP_INTERMEDIATES E) (mfpu E) fs ctx d (Some wl) (Some kv)
     (Some transformer_default_config) kd = Some (Some ws, ctx', d'))"

definition parts_start :: "machine \<Rightarrow> file_system \<Rightarrow> gpgpu_ctx \<Rightarrow> dump_state \<Rightarrow> string \<Rightarrow> string \<Rightarrow> bool" where
  "parts_start E fs ctx d wd kd \<longleftrightarrow> (\<exists>wl ctx1 kv ctx2. weight_loader_load fs ctx (Some wd) = Some (Some wl, ctx1) \<and>
     kv_cache_create ctx1 24 2 128 64 = Some (Some kv, ctx2) \<and> transformer_starts E fs ctx2 d wl kv kd)"

text \<open>From the start of the transformer on.\<close>

lemma infer_init_ends:
  assumes h: "heap B S N ctx (insert rK (insert rV (set rs)))" "distinct (rK # rV # rs)" "length rs = 8" "\<forall>i<8. plan_bytes ! i \<le> snd (rs ! i)"
      "\<forall>q\<in>set (places wd rs). loaded fs ctx q"
    and k: "kv_ok (insert rK (insert rV (set rs))) kv rK rV" "filled kv = 0" "pending kv = 0"
      "num_layers kv = 24" "num_kv_heads kv = 2" "max_seq kv = 128" "head_dim kv = 64"
    and o: "opened B fds ctx h" and m: "False \<notin> set (mallocs (sh ctx))"
    and dev: "device_runs KF (file_code fs kd) B E" "argmax_in_vocab KF"
    and pr: "prompt \<noteq> []" "list_all valid_token prompt" "length prompt + unat n - 1 \<le> 128" "length prompt \<le> 128" "n \<noteq> 0"
    and wl: "wl = place_tensors (bases rs)"
  shows "\<exists>rc io'. ends B fds rc io' (infer_init E fs io ctx h d wl kv kd prompt n eos p) \<and>
    (rc = 1 \<and> io' = io \<or>
     rc = 0 \<and> io' = with_output io p (spec_generate KF (mfpu E) (file_weights (mfpu E) fs wd) prompt (unat n) eos)) \<and>
    (out_ok io p \<and> transformer_starts E fs ctx d wl kv kd \<longrightarrow> rc = 0)"
proof (cases rule: transformer_init_cases [OF h(1) default_head_dim, of "DUMP_INTERMEDIATES E" "mfpu E" fs d "Some wl" "Some kv" kd])
  case n: (1 ctx' d')
  have "opened B fds ctx' h" using o transformer_init_follows [OF n(1)] by (rule opened_follows)
  then have "ends B fds 1 io (leave_kv 1 io ctx' h wl kv)" unfolding wl by (rule leave_kv_ends [OF _ n(2) h(2) k(1) refl refl])
  then show ?thesis using n(1) by (intro exI [of _ 1] exI [of _ io]) (simp add: infer_init_def transformer_starts_def)
next
  case y: (2 ws reg ctx' d')
  have f: "follows ctx ctx'" by (rule transformer_init_follows [OF y(1)])
  have "ready B S N (mfpu E) fs wd kd rs rK rV reg kv ws ctx'"
    using h k y(2-5) wl loaded_same [OF h(3) _ h(5), of ctx'] y(6) unfolding ready_def by auto
  moreover have "opened B fds ctx' h" using o f by (rule opened_follows)
  moreover have "False \<notin> set (mallocs (sh ctx'))" using m f by (auto simp: follows_def)
  ultimately have "ends B fds (if out_ok io p then 0 else 1)
      (if out_ok io p then with_output io p (spec_generate KF (mfpu E) (file_weights (mfpu E) fs wd) prompt (unat n) eos) else io)
      (infer_steps E io ctx' h d' wl kv ws prompt n eos p)"
    unfolding wl by (rule infer_steps_ends [OF _ _ _ dev pr])
  moreover have "infer_init E fs io ctx h d wl kv kd prompt n eos p = infer_steps E io ctx' h d' wl kv ws prompt n eos p"
    using y(1) by (simp add: infer_init_def)
  ultimately show ?thesis by (cases "out_ok io p") auto
qed

lemma infer_start_ends:
  assumes h: "heap B S N ctx {}" and o: "opened B fds ctx h" and m: "False \<notin> set (mallocs (sh ctx))"
    and dev: "device_runs KF (file_code fs kd) B E" "argmax_in_vocab KF"
    and pr: "prompt \<noteq> []" "list_all (\<lambda>t. 0 \<le> t \<and> t \<le> INT32_MAX) prompt" "length prompt < 2 ^ 63" "n \<noteq> 0" "unat n < 2 ^ 63"
  shows "\<exists>rc io'. ends B fds rc io' (infer_start E fs io ctx h d wd kd prompt n eos p) \<and>
    (rc = 1 \<and> io' = io \<or>
     rc = 0 \<and> io' = with_output io p (spec_generate KF (mfpu E) (file_weights (mfpu E) fs wd) prompt (unat n) eos)) \<and>
    (prompt_fits transformer_default_config prompt n \<and> in_vocab transformer_default_config prompt \<and> out_ok io p \<and>
     parts_start E fs ctx d wd kd \<longrightarrow> rc = 0)"
proof (cases "prompt_fits transformer_default_config prompt n \<and> in_vocab transformer_default_config prompt")
  case False
  then show ?thesis using leave_ends [OF o] by (auto simp: infer_start_def Let_def)
next
  case True
  note fit = fitting_prompt [OF conjunct1 [OF True] pr(3-5)] and v = valid_prompt [OF pr(2) conjunct2 [OF True]]
  show ?thesis
  proof (cases rule: weight_load_cases [OF h, of fs wd])
    case f: (1 ctx1)
    have "opened B fds ctx1 h" using o weight_load_follows [OF f(1)] by (rule opened_follows)
    then have "ends B fds 1 io (Some (leave 1 io ctx1 h))" by (rule leave_ends)
    then show ?thesis using f(1) True by (intro exI [of _ 1] exI [of _ io]) (simp add: infer_start_def parts_start_def Let_def)
  next
    case w: (2 rs ctx1)
    have f1: "follows ctx ctx1" by (rule weight_load_follows [OF w(1)])
    have h1: "heap B S N ctx1 (set rs)" using w(2) by simp
    show ?thesis
    proof (cases rule: kv_create_cases [OF h1 default_kv_size])
      case f: (1 ctx2)
      have "opened B fds ctx2 h" using o follows_trans [OF f1 kv_create_follows [OF f(1)]] by (rule opened_follows)
      then have "ends B fds 1 io (leave_wl 1 io ctx2 h (place_tensors (bases rs)))" by (rule leave_wl_ends [OF _ f(2) w(4)])
      then show ?thesis
        using f(1) w(1) True
        by (intro exI [of _ 1] exI [of _ io]) (simp add: infer_start_def parts_start_def Let_def transformer_default_config_def)
    next
      case k: (2 kv rK rV ctx2)
      have f2: "follows ctx ctx2" by (rule follows_trans [OF f1 kv_create_follows [OF k(1)]])
      have "distinct (rK # rV # rs)" using k(3,4) kv_okD(3) [OF k(5)] w(4) by simp
      moreover have "\<forall>q\<in>set (places wd rs). loaded fs ctx2 q" by (rule loaded_same [OF w(3) k(12) w(7)])
      moreover have "opened B fds ctx2 h" "False \<notin> set (mallocs (sh ctx2))"
        using o f2 m by (auto intro: opened_follows simp: follows_def)
      ultimately obtain rc io' where "ends B fds rc io' (infer_init E fs io ctx2 h d (place_tensors (bases rs)) kv kd prompt n eos p)"
        "rc = 1 \<and> io' = io \<or>
         rc = 0 \<and> io' = with_output io p (spec_generate KF (mfpu E) (file_weights (mfpu E) fs wd) prompt (unat n) eos)"
        "out_ok io p \<and> transformer_starts E fs ctx2 d (place_tensors (bases rs)) kv kd \<longrightarrow> rc = 0"
        using infer_init_ends [OF k(2) _ w(3,6) _ k(5-11) _ _ dev pr(1) v fit(2,1) pr(4) refl, where fds = fds and h = h and io = io and p = p] by blast
      moreover have "infer_start E fs io ctx h d wd kd prompt n eos p =
          infer_init E fs io ctx2 h d (place_tensors (bases rs)) kv kd prompt n eos p"
        using k(1) w(1) True by (simp add: infer_start_def Let_def transformer_default_config_def)
      moreover have "parts_start E fs ctx d wd kd \<longrightarrow> transformer_starts E fs ctx2 d (place_tensors (bases rs)) kv kd"
        using w(1) k(1) by (simp add: parts_start_def)
      ultimately show ?thesis by auto
    qed
  qed
qed

end
