(* ===== verification/Capacity.thy ===== *)
theory Capacity
  imports Host_State Transformer_Init Weight_Items
begin

text \<open>
  When requests are met.  The free lists of a context are determined by its memory, so what can be split off
  from them is a property of the context; allocations lower it by a known amount, and writes into regions keep
  it.  A context is rich when it has such a supply and the host has memory.
\<close>

subsection \<open>The free lists of a context\<close>

lemma dll_unique:
  assumes "base_ok B S N" "set ps \<subseteq> {..<N}" "set qs \<subseteq> {..<N}" "dll m B pr h ps" "dll m B pr h qs"
  shows "ps = qs"
  using assms(2-)
proof (induction ps arbitrary: pr h qs)
  case Nil
  then show ?case using dll_head_null [OF Nil(4) assms(1) Nil(2)] by simp
next
  case (Cons p ps)
  have "h \<noteq> 0" using dll_head_null [OF Cons.prems(3) assms(1) Cons.prems(1)] by simp
  then obtain q qs' where q: "qs = q # qs'" using Cons.prems(4) by (cases qs) auto
  have "p < 2 ^ 52" "q < 2 ^ 52" using Cons.prems(1,2) q base_okD(4) [OF assms(1)] by auto
  then have "p = q" using Cons.prems(3,4) q nd_inj by auto
  then show ?case using Cons.IH [of qs' "nd B p" "get64 m (nd B p + 8)"] Cons.prems q by simp
qed

lemma free_lists_unique:
  assumes "ginv B S N ctx F U L P" "ginv B S N ctx F' U' L' P'" "k < 21"
  shows "F k = F' k"
proof -
  note i = ginvD(2) [OF assms(1)] ginvD(2) [OF assms(2)]
  have "set (F k) \<subseteq> {..<N}" "set (F' k) \<subseteq> {..<N}"
    using wf_lists_list_bound [OF binvD(4) [OF i(1)] assms(3)] wf_lists_list_bound [OF binvD(4) [OF i(2)] assms(3)] by blast+
  then show ?thesis
    using dll_unique [OF binvD(1) [OF i(1)]] binvD(5) [OF i(1) assms(3)] binvD(5) [OF i(2) assms(3)] by blast
qed

lemma capacity_heap:
  assumes "capacity B S N ctx s" "heap B S N ctx R"
  obtains F U L P where "ginv B S N ctx F U L P" "R = regions U L P" "\<forall>i<21. s i \<le> avail F i"
proof -
  obtain F U L P where 1: "ginv B S N ctx F U L P" "\<forall>i<21. s i \<le> avail F i" using assms(1) unfolding capacity_def by blast
  obtain F' U' L' P' where 2: "ginv B S N ctx F' U' L' P'" "R = regions U' L' P'" using assms(2) by (rule heapE)
  have "avail F i = avail F' i" for i
    using free_lists_unique [OF 1(1) 2(1)] by (auto simp: avail_def intro!: sum.cong)
  then show thesis using 1(2) 2 that by metis
qed

lemma capacity_some_heap: "capacity B S N ctx s \<Longrightarrow> \<exists>R. heap B S N ctx R"
  unfolding capacity_def heap_def by blast

subsection \<open>Rich contexts\<close>

definition rich :: "u64 \<Rightarrow> nat \<Rightarrow> nat \<Rightarrow> gpgpu_ctx \<Rightarrow> (nat \<Rightarrow> nat) \<Rightarrow> bool" where
  "rich B S N ctx s \<longleftrightarrow> capacity B S N ctx s \<and> False \<notin> set (mallocs (sh ctx))"

definition spend :: "nat \<Rightarrow> (nat \<Rightarrow> nat) \<Rightarrow> nat \<Rightarrow> nat" where
  "spend k s = (\<lambda>i. s i - cost k i)"

lemma richI: "capacity B S N ctx s \<Longrightarrow> rich B S N ctx0 s0 \<Longrightarrow> follows ctx0 ctx \<Longrightarrow> rich B S N ctx s"
  by (auto simp: rich_def follows_def)

lemma rich_less: "rich B S N ctx s \<Longrightarrow> (\<And>i. i < 21 \<Longrightarrow> s' i \<le> s i) \<Longrightarrow> rich B S N ctx s'"
  unfolding rich_def capacity_def by (meson order_trans)

lemma cost_mono: "k \<le> k' \<Longrightarrow> cost k i \<le> cost k' i"
  by (auto simp: cost_def intro!: power_increasing)

lemma spend_cost:
  assumes "\<forall>i<21. s i \<le> avail F i" "aalloc F k = Some (p, F')" "k \<le> k'"
  shows "\<forall>i<21. spend k' s i \<le> avail F' i"
proof (intro allI impI)
  fix i :: nat assume "i < 21"
  then show "spend k' s i \<le> avail F' i"
    using assms(1) aalloc_avail(1) [OF assms(2), of i] cost_mono [OF assms(3), of i] unfolding spend_def by force
qed

text \<open>\<open>malloc\<close> does not fail.\<close>

lemma rich_malloc:
  assumes "rich B S N ctx s" "malloc (sh ctx) = (ok, sh')"
  shows ok "rich B S N (ctx\<lparr>sh := sh'\<rparr>) s"
proof -
  have m: "buddy sh' = buddy (sh ctx)" "vmem sh' = vmem (sh ctx)" using assms(2) by (auto simp: malloc_def split: list.splits)
  show ok using assms malloc_succeeds by (auto simp: rich_def)
  show "rich B S N (ctx\<lparr>sh := sh'\<rparr>) s"
    using assms malloc_mallocs [OF assms(2)] by (auto simp: rich_def capacity_def ginv_def m)
qed

text \<open>A request for at most \<open>2 ^ k\<close> pages is met where order \<open>k\<close> can be split off.\<close>

theorem rich_gpuMalloc:
  assumes r: "rich B S N ctx s" and n: "unat n \<le> 4096 * 2 ^ k" "k < 21" and s: "0 < s k"
  obtains a ctx' where "gpuMalloc ctx n = Some (a, ctx')" "a \<noteq> -1" "rich B S N ctx' (spend k s)"
proof -
  obtain F U L P where g: "ginv B S N ctx F U L P" and av: "\<forall>i<21. s i \<le> avail F i"
    using r unfolding rich_def capacity_def by blast
  have pos: "0 < avail F k" using av n(2) s by (meson less_le_trans)
  have m: "fst (malloc (sh ctx))" using r by (cases "malloc (sh ctx)") (auto simp: rich_def dest: malloc_succeeds)
  show thesis
  proof (cases "route_slab n")
    case None
    have o: "find_order n 0 \<le> k" using find_order_spec [of 0 n] n by (metis le_less_trans not_le zero_le)
    show thesis
    proof (cases rule: gpuMalloc_buddy [OF g None])
      case 1
      then show thesis using aalloc_met [OF pos o] o n(2) by auto
    next
      case (2 b ctx' F')
      have "block_region b \<in> regions (insert b U) L P" by (simp add: regions_block_insert)
      then have "word_of_nat (4096 * fst b) \<noteq> (-1 :: u64)"
        using addr_not_minus1 [OF 2(2), of "4096 * fst b" "4096 * 2 ^ snd b"] by (simp add: block_region_def del: of_nat_mult)
      moreover have "capacity B S N ctx' (spend k s)"
        unfolding capacity_def using 2(2) spend_cost [OF av 2(7) o] by blast
      ultimately show thesis using 2(1) richI [OF _ r gpuMalloc_follows [OF 2(1)]] by (intro that)
    qed
  next
    case (Some pm)
    obtain p mark where rt: "route_slab n = Some (p, mark)" using Some by (cases pm) simp
    show thesis
    proof (cases rule: gpuMalloc_slab [OF g rt])
      case (1 ctx' F')
      then show thesis using m aalloc_met [OF pos, of 0] by (auto simp: has_room_def)
    next
      case (2 x ctx' F' L' P')
      have "word_of_nat x \<noteq> (-1 :: u64)" using addr_not_minus1 [OF 2(2), of x "osz_of p"] 2(3) by simp
      moreover have "\<forall>i<21. spend k s i \<le> avail F' i"
        using 2(7) spend_cost [OF av, of 0 _ F' k] av by (auto simp: spend_def intro: le_trans [OF diff_le_self])
      then have "capacity B S N ctx' (spend k s)" unfolding capacity_def using 2(2) by blast
      ultimately show thesis using 2(1) richI [OF _ r gpuMalloc_follows [OF 2(1)]] by (intro that)
    qed
  qed
qed

text \<open>A copy into a region succeeds and keeps the supply.\<close>

theorem rich_copy:
  assumes r: "rich B S N ctx s" and h: "heap B S N ctx R" and a: "(a, l) \<in> R" "d + unat n \<le> l" "unat n \<le> length src"
  obtains ctx' where "gpuMemcpy ctx (word_of_nat (a + d)) src n GPU_MEMCPY_H2D = Some (0, src, ctx')" "rich B S N ctx' s"
    "heap B S N ctx' R"
proof -
  obtain ctx' where c: "gpuMemcpy ctx (word_of_nat (a + d)) src n GPU_MEMCPY_H2D = Some (0, src, ctx')" "heap B S N ctx' R"
    by (rule gpuMemcpy_write [OF h a]) (rule that)
  obtain F U L P where g: "ginv B S N ctx F U L P" "R = regions U L P" "\<forall>i<21. s i \<le> avail F i"
    using capacity_heap [OF _ h] r unfolding rich_def by metis
  note i = ginvD(2) [OF g(1)] and rr = a(1) [unfolded g(2)]
  let ?bs = "take (unat n) src"
  let ?m' = "put_bytes (vmem (sh ctx)) (ofs B (a + d)) ?bs"
  have len: "length ?bs = unat n" using a(3) by simp
  have mp: "mapped (vmem (sh ctx)) (ofs B (a + d)) (length ?bs)" using region_mapped [OF g(1) rr a(2)] len by simp
  have "bframe B (rbytes (a, l)) (vmem (sh ctx)) ?m'"
    using region_in_vram(1) [OF g(1) rr] base_okD(4) [OF binvD(1) [OF i]] a(2) len
    by (intro bframe_put_bytes) (auto simp: rbytes_def)
  then have gn: "ginv B S N (ctx\<lparr>sh := (sh ctx)\<lparr>vmem := ?m'\<rparr>\<rparr>) F U L P"
    using ginv_write [OF g(1) rr] binvD(2) [OF i] mp by (simp add: vram_at_put_bytes)
  have e: "ctx' = ctx\<lparr>sh := (sh ctx)\<lparr>vmem := ?m'\<rparr>\<rparr>"
    using c(1) mp len a(3) ginvD(1) [OF g(1)] by (simp add: gpuMemcpy_def store_bytes_def del: of_nat_add)
  then have "capacity B S N ctx' s" unfolding capacity_def using gn g(3) by blast
  then show thesis using c richI [OF _ r gpuMemcpy_follows [OF c(1)]] by (intro that)
qed

subsection \<open>Lists of requests\<close>

text \<open>Requests of given orders that a supply can meet one after the other.\<close>

fun affords :: "(nat \<Rightarrow> nat) \<Rightarrow> nat list \<Rightarrow> bool" where
  "affords s [] \<longleftrightarrow> True"
| "affords s (k # ks) \<longleftrightarrow> 0 < s k \<and> affords (spend k s) ks"

definition of_order :: "u64 \<Rightarrow> nat \<Rightarrow> bool" where
  "of_order n k \<longleftrightarrow> unat n \<le> 4096 * 2 ^ k \<and> k < 21"

lemma alloc_list_rich:
  "rich B S N ctx s \<Longrightarrow> list_all2 of_order ns ks \<Longrightarrow> affords s ks \<Longrightarrow>
   \<exists>bs ctx'. alloc_list gpuMalloc ctx ns = Some (bs, True, ctx') \<and> rich B S N ctx' (fold spend ks s)"
proof (induction ns arbitrary: ctx s ks)
  case (Cons n ns)
  obtain k ks' where k: "ks = k # ks'" "of_order n k" "list_all2 of_order ns ks'"
    using Cons.prems(2) by (auto simp: list_all2_Cons1)
  obtain a c1 where 1: "gpuMalloc ctx n = Some (a, c1)" "a \<noteq> -1" "rich B S N c1 (spend k s)"
    using k(2) Cons.prems(3) unfolding of_order_def k(1) by (elim conjE) (rule rich_gpuMalloc [OF Cons.prems(1)], auto intro: that)
  obtain bs c2 where 2: "alloc_list gpuMalloc c1 ns = Some (bs, True, c2)" "rich B S N c2 (fold spend ks' (spend k s))"
    using Cons.IH [OF 1(3) k(3)] Cons.prems(3) k(1) by auto
  show ?case using 1(1,2) 2 k(1) by simp
qed simp

subsection \<open>Loading files\<close>

definition file_present :: "file_system \<Rightarrow> string \<Rightarrow> nat \<Rightarrow> bool" where
  "file_present fs p n \<longleftrightarrow> stat_size fs p = Some (word_of_nat n) \<and> (\<exists>bs. content fs p = Some bs \<and> n \<le> length bs)"

lemma load_file_rich:
  assumes r: "rich B S N ctx s" and h: "heap B S N ctx R" and q: "place_ok R (p, r, d, n)" and f: "file_present fs p n"
  obtains ctx' where "load_file_to_vram fs ctx p (word_of_nat (fst r + d)) (word_of_nat n) = Some (0, ctx')"
    "rich B S N ctx' s" "heap B S N ctx' R"
proof -
  obtain a l where al: "r = (a, l)" by (cases r)
  have rr: "(a, l) \<in> R" and dn: "d + n \<le> l" using q al by (auto simp: place_ok_def)
  have n64: "unat (word_of_nat n :: u64) = n"
    using heap_addr_bound [OF h rr] dn by (intro unat_of_nat64) simp
  obtain bs where bs: "content fs p = Some bs" "n \<le> length bs" using f by (auto simp: file_present_def)
  obtain ok s' where ms: "malloc (sh ctx) = (ok, s')" by fastforce
  have h1: "heap B S N (ctx\<lparr>sh := s'\<rparr>) R" using heap_malloc(1) [OF h] ms by simp
  obtain ctx' where c: "gpuMemcpy (ctx\<lparr>sh := s'\<rparr>) (word_of_nat (a + d)) (take n bs) (word_of_nat n) GPU_MEMCPY_H2D = Some (0, take n bs, ctx')"
    "rich B S N ctx' s" "heap B S N ctx' R"
    by (rule rich_copy [OF rich_malloc(2) [OF r ms] h1 rr]) (use dn bs n64 in \<open>auto intro: that\<close>)
  then show thesis
    using rich_malloc(1) [OF r ms] ms bs n64 al by (intro that [of ctx']) (simp_all add: load_file_to_vram_def min.absorb2 del: of_nat_add)
qed

lemma load_all_rich:
  "rich B S N ctx s \<Longrightarrow> heap B S N ctx R \<Longrightarrow> list_all (place_ok R) qs \<Longrightarrow> \<forall>(p, r, d, n)\<in>set qs. file_present fs p n \<Longrightarrow>
   \<exists>ctx'. load_all fs ctx (map load_of qs) = Some (True, ctx') \<and> rich B S N ctx' s"
proof (induction qs arbitrary: ctx)
  case (Cons q qs)
  obtain p r d n where q: "q = (p, r, d, n)" by (cases q) auto
  obtain c1 where 1: "load_file_to_vram fs ctx p (word_of_nat (fst r + d)) (word_of_nat n) = Some (0, c1)"
    "rich B S N c1 s" "heap B S N c1 R"
    by (rule load_file_rich [OF Cons.prems(1,2), of p r d n fs]) (use Cons.prems(3,4) q in \<open>auto intro: that\<close>)
  obtain c2 where "load_all fs c1 (map load_of qs) = Some (True, c2)" "rich B S N c2 s"
    using Cons.IH [OF 1(2,3)] Cons.prems(3,4) by auto
  moreover have "load_of q = (p, word_of_nat (fst r + d), word_of_nat n)" by (simp add: load_of_def q)
  ultimately show ?case using 1(1) by (simp del: of_nat_add)
qed simp

definition weights_present :: "file_system \<Rightarrow> string \<Rightarrow> bool" where
  "weights_present fs dir \<longleftrightarrow> (\<forall>(p, n)\<in>set (weight_files dir). file_present fs p n)"

lemma places_files: "(p, r, d, n) \<in> set (places dir rs) \<Longrightarrow> (p, n) \<in> set (weight_files dir)"
  by (auto simp: places_def weight_files_def layer_place_def WL_NUM_LAYERS_def)

text \<open>The eight regions of the weights have the orders 18 and 16.\<close>

definition weight_orders :: "nat list" where
  "weight_orders = [18, 18, 16, 16, 16, 16, 16, 16]"

theorem weight_load_rich:
  assumes r: "rich B S N ctx s" and w: "weights_present fs dir" and s: "affords s weight_orders"
  obtains wl ctx' where "weight_loader_load fs ctx (Some dir) = Some (Some wl, ctx')" "rich B S N ctx' (fold spend weight_orders s)"
proof -
  obtain R where h: "heap B S N ctx R" using r capacity_some_heap unfolding rich_def by blast
  obtain ok s' where ms: "malloc (sh ctx) = (ok, s')" by fastforce
  let ?ctx = "ctx\<lparr>sh := s'\<rparr>" and ?ns = "map word_of_nat plan_bytes :: u64 list"
  note m = rich_malloc [OF r ms]
  have h0: "heap B S N ?ctx R" using heap_malloc(1) [OF h] ms by simp
  have valid: "list_all (\<lambda>(p, n). \<not> check_file_size fs p (word_of_nat n) < 0) (weight_files dir)"
    using w by (auto simp: weights_present_def file_present_def check_file_size_def list_all_iff)
  have lp: "length ?ns = 8" by (simp add: plan_bytes_eval)
  have "list_all2 of_order ?ns weight_orders"
    by (simp add: plan_bytes_eval weight_orders_def of_order_def)
  then obtain bs c1 where a: "alloc_list gpuMalloc ?ctx ?ns = Some (bs, True, c1)" "rich B S N c1 (fold spend weight_orders s)"
    using alloc_list_rich [OF m(2) _ s] by blast
  obtain rs where rs: "bs = bases rs" "heap B S N c1 (R \<union> set rs)" "length rs = 8"
      "\<forall>i<length rs. unat (?ns ! i) \<le> snd (rs ! i)"
    using gpu.alloc_list_regions [OF h0, of ?ns] a(1) lp by auto
  have sz: "\<forall>i<8. plan_bytes ! i \<le> snd (rs ! i)" using rs(3,4) plan_unat by simp
  have "\<forall>(p, r, d, n)\<in>set (places dir rs). file_present fs p n"
    using w places_files unfolding weights_present_def by fastforce
  then obtain c2 where l: "load_all fs c1 (map load_of (places dir rs)) = Some (True, c2)" "rich B S N c2 (fold spend weight_orders s)"
    using load_all_rich [OF a(2) rs(2) places_are_ok [OF rs(3) sz, of R dir]] by blast
  have "weight_loader_load fs ctx (Some dir) = Some (Some (place_tensors bs), c2)"
    unfolding weight_loader_load_def option.simps using valid ms m(1) a(1) l(1)
    by (simp add: rs(1) weight_loads_places [OF rs(3)])
  then show thesis using l(2) by (rule that)
qed

subsection \<open>The cache\<close>

theorem kv_create_rich:
  assumes r: "rich B S N ctx s" and n: "of_order (ucast nl * ucast nh * ucast ms * ucast hdim * 4) k" and s: "affords s [k, k]"
  obtains kv ctx' where "kv_cache_create ctx nl nh ms hdim = Some (Some kv, ctx')" "rich B S N ctx' (spend k (spend k s))"
proof -
  let ?n = "ucast nl * ucast nh * ucast ms * ucast hdim * 4 :: u64"
  obtain ok s' where m: "malloc (sh ctx) = (ok, s')" by fastforce
  note rm = rich_malloc [OF r m] and o = n [unfolded of_order_def]
  obtain a c1 where 1: "gpuMalloc (ctx\<lparr>sh := s'\<rparr>) ?n = Some (a, c1)" "a \<noteq> -1" "rich B S N c1 (spend k s)"
    by (rule rich_gpuMalloc [OF rm(2) conjunct1 [OF o] conjunct2 [OF o]]) (use s in \<open>auto intro: that\<close>)
  obtain b c2 where 2: "gpuMalloc c1 ?n = Some (b, c2)" "b \<noteq> -1" "rich B S N c2 (spend k (spend k s))"
    by (rule rich_gpuMalloc [OF 1(3) conjunct1 [OF o] conjunct2 [OF o]]) (use s in \<open>auto intro: that\<close>)
  show thesis
    using m rm(1) 1(1,2) 2 by (intro that) (simp_all add: kv_cache_create_def Let_def)
qed

subsection \<open>The workspace\<close>

definition single :: "nat \<Rightarrow> nat \<Rightarrow> nat \<Rightarrow> nat" where
  "single k n = (\<lambda>i. if i = k then n else 0)"

lemma spend_single: "spend k (single k n) = single k (n - 1)"
  by (auto simp: spend_def single_def cost_def)

text \<open>A source that takes at most one block of order \<open>k\<close> for every field.\<close>

locale rich_source =
  fixes B :: u64 and S N k :: nat
    and get :: "gpgpu_ctx \<Rightarrow> 'x \<Rightarrow> (u64 \<times> gpgpu_ctx) option"
    and fits :: "'x \<Rightarrow> bool"
  assumes get_rich: "rich B S N ctx (single k (Suc n)) \<Longrightarrow> fits x \<Longrightarrow>
    \<exists>a ctx'. get ctx x = Some (a, ctx') \<and> a \<noteq> -1 \<and> rich B S N ctx' (single k n)"
begin

lemma assign_rich:
  "rich B S N ctx (single k (length xs + n)) \<Longrightarrow> list_all (\<lambda>(f, x). fits x) xs \<Longrightarrow> distinct (map fst xs) \<Longrightarrow>
   \<exists>ws' ctx'. assign_fields get xs ws ctx = Some (ws', ctx') \<and> all_assigned xs ws' \<and> rich B S N ctx' (single k n) \<and>
     (\<forall>f. f \<notin> set (map fst xs) \<longrightarrow> ws_off ws' f = ws_off ws f)"
proof (induction xs arbitrary: ctx ws)
  case Nil
  then show ?case by (simp add: all_assigned_def)
next
  case (Cons fx xs)
  obtain f x where fx: "fx = (f, x)" by (cases fx)
  obtain a c1 where 1: "get ctx x = Some (a, c1)" "a \<noteq> -1" "rich B S N c1 (single k (length xs + n))"
    using get_rich [of ctx "length xs + n" x] Cons.prems(1,2) fx by auto
  obtain ws' ctx' where 2: "assign_fields get xs (set_off f a ws) c1 = Some (ws', ctx')" "all_assigned xs ws'"
    "rich B S N ctx' (single k n)" "\<forall>g. g \<notin> set (map fst xs) \<longrightarrow> ws_off ws' g = ws_off (set_off f a ws) g"
    using Cons.IH [OF 1(3), of "set_off f a ws"] Cons.prems(2,3) by auto
  have "ws_off ws' f = a" using 2(4) Cons.prems(3) fx by simp
  then have "all_assigned (fx # xs) ws'" using 2(2) 1(2) fx by (simp add: all_assigned_def OFF_INVALID_def)
  then show ?case using 1(1) 2 fx by auto
qed

end

interpretation take8: rich_source B S N 8 gpuMalloc "\<lambda>n. unat n \<le> 1048576" for B S N
proof
  fix ctx n x assume "rich B S N ctx (single 8 (Suc n))" "unat (x :: u64) \<le> 1048576"
  then show "\<exists>a ctx'. gpuMalloc ctx x = Some (a, ctx') \<and> a \<noteq> -1 \<and> rich B S N ctx' (single 8 n)"
    using rich_gpuMalloc [of B S N ctx "single 8 (Suc n)" x 8 thesis for thesis]
    by (simp add: spend_single) (simp add: single_def, blast)
qed

text \<open>The code of a kernel, of at most one megabyte.\<close>

definition kernel_present :: "file_system \<Rightarrow> string \<Rightarrow> string \<Rightarrow> bool" where
  "kernel_present fs dir name \<longleftrightarrow> (\<exists>bs n. content fs (path dir (name @ ''.bin'')) = Some bs \<and>
     stat_size fs (path dir (name @ ''.bin'')) = Some n \<and> 0 < unat n \<and> unat n \<le> length bs \<and> unat n \<le> 1048576)"

lemma sint_positive:
  assumes "0 < unat (n :: u64)" "unat n \<le> 1048576"
  shows "sint n = uint n" "0 < uint n"
proof -
  have "int (unat n) = uint n" by simp
  then have u: "0 < uint n" "uint n \<le> 1048576" using assms by linarith+
  then show "0 < uint n" by simp
  show "sint n = uint n" using u by (simp add: sint_uint signed_take_bit_int_eq_self)
qed

lemma load_kernel_rich:
  assumes r: "rich B S N ctx (single 8 (Suc k))" and f: "kernel_present fs dir name"
  shows "\<exists>a ctx'. load_kernel_bin fs ctx dir name = Some (a, ctx') \<and> a \<noteq> -1 \<and> rich B S N ctx' (single 8 k)"
proof -
  let ?p = "path dir (name @ ''.bin'')"
  obtain bs n where n: "content fs ?p = Some bs" "stat_size fs ?p = Some n" "0 < unat n" "unat n \<le> length bs" "unat n \<le> 1048576"
    using f by (auto simp: kernel_present_def)
  obtain ok s where ms: "malloc (sh ctx) = (ok, s)" by fastforce
  let ?ctx = "ctx\<lparr>sh := s\<rparr>"
  note m = rich_malloc [OF r ms]
  obtain R where h: "heap B S N ?ctx R" using m(2) capacity_some_heap unfolding rich_def by blast
  obtain v c1 where 1: "gpuMalloc ?ctx n = Some (v, c1)" "v \<noteq> -1" "rich B S N c1 (single 8 k)"
    using take8.get_rich [OF m(2) n(5)] by blast
  obtain a l where a: "v = word_of_nat a" "heap B S N c1 (insert (a, l) R)" "unat n \<le> l"
    using gpuMalloc_heap [OF h, of n thesis] 1(1,2) by auto
  obtain c2 where 2: "gpuMemcpy c1 (word_of_nat (a + 0)) (take (unat n) bs) n GPU_MEMCPY_H2D = Some (0, take (unat n) bs, c2)"
    "rich B S N c2 (single 8 k)"
    by (rule rich_copy [OF 1(3) a(2), of a l 0 n "take (unat n) bs"]) (use a(3) n(4) in \<open>auto intro: that\<close>)
  have "load_kernel_bin fs ctx dir name = Some (v, c2)"
    using n m(1) 1(1,2) 2(1) a(1) sint_positive [OF n(3,5)] ms
    by (simp add: load_kernel_bin_def OFF_INVALID_def min.absorb2 Let_def)
  then show ?thesis using 1(2) 2(2) by blast
qed

interpretation code8: rich_source B S N 8 "\<lambda>ctx. load_kernel_bin fs ctx dir" "kernel_present fs dir" for B S N fs dir
  by unfold_locales (rule load_kernel_rich)

end
