(* ===== verification/Infer_Live.thy ===== *)
theory Infer_Live
  imports Infer_Main Capacity
begin

text \<open>
  When the program gets to its end: four gigabytes are enough for the weights, the cache and the workspace, in
  the order in which they are requested.
\<close>

subsection \<open>The table\<close>

text \<open>What the start of the transformer checks of the functions of the C library, at the angle 0.\<close>

definition exact_at_zero :: "fpu \<Rightarrow> transformer_config \<Rightarrow> bool" where
  "exact_at_zero fp cfg \<longleftrightarrow>
     (\<forall>k<unat (cfg_head_dim cfg) div 2. f_mul fp (f_of_int fp 0) (sincos_freq fp (cfg_rope_theta cfg) (unat (cfg_head_dim cfg)) k) = 0) \<and>
     cosf fp 0 = F_ONE \<and> sinf fp 0 = 0 \<and> f_sub fp F_ONE F_ONE = 0 \<and> fabsf fp 0 = 0 \<and> \<not> f_gt fp 0 F_1EM6"

lemma exact_pairs:
  assumes e: "exact_at_zero fp cfg" and h: "head_dim_ok cfg" and j: "j < unat (cfg_head_dim cfg) div 2"
  shows "\<not> pair_off fp (rope_table fp cfg) j"
proof -
  let ?h = "unat (cfg_head_dim cfg)"
  have b: "j * 2 < ?h" "j * 2 + 1 < ?h" using j h by (auto simp: head_dim_ok_def)
  have l: "length (rope_table fp cfg) = 128 * ?h" by simp
  have "rope_table fp cfg ! (j * 2) = F_ONE" "rope_table fp cfg ! (j * 2 + 1) = 0"
    using b l e j by (simp_all add: rope_table_def sincos_table_def sincos_entry_def sincos_angle_def exact_at_zero_def)
  then show ?thesis using e by (simp add: pair_off_def exact_at_zero_def)
qed

subsection \<open>The workspace\<close>

definition kernels_present :: "file_system \<Rightarrow> string \<Rightarrow> bool" where
  "kernels_present fs dir \<longleftrightarrow> (\<forall>(f, name)\<in>set kernel_plan. kernel_present fs dir name)"

lemma default_requests:
  "list_all (\<lambda>(f, n). unat n \<le> 1048576) (scratch_plan transformer_default_config)"
  "list_all (\<lambda>(f, n). unat n \<le> 1048576) args_plan"
  by (simp_all add: scratch_plan_def args_plan_def size4_def kv_dim_def transformer_default_config_def)

theorem transformer_init_rich:
  assumes r: "rich B S N ctx (single 8 35)" and v: "max_seq kv = 128" and k: "kernels_present fs dir"
    and e: "exact_at_zero fp transformer_default_config"
  obtains ws ctx' d' where
    "transformer_init dm fp fs ctx d (Some wl) (Some kv) (Some transformer_default_config) dir = Some (Some ws, ctx', d')"
proof -
  let ?cfg = transformer_default_config
  let ?ws = "fold (\<lambda>f. set_off f OFF_INVALID) ws_fields \<lparr>ws_wl = wl, ws_cfg = ?cfg, ws_off = (\<lambda>_. 0)\<rparr>"
  obtain ok s where ms: "malloc (sh ctx) = (ok, s)" by fastforce
  let ?ctx = "ctx\<lparr>sh := s\<rparr>"
  note m = rich_malloc [OF r ms]
  obtain R where h: "heap B S N ?ctx R" using m(2) capacity_some_heap unfolding rich_def by blast
  have l: "length (scratch_plan ?cfg) + 22 = 35" "length kernel_plan + 11 = 22" "length args_plan + 0 = 11"
    by (simp_all add: scratch_plan_def kernel_plan_def args_plan_def)
  obtain ws1 c1 where 1: "assign_fields gpuMalloc (scratch_plan ?cfg) ?ws ?ctx = Some (ws1, c1)" "all_assigned (scratch_plan ?cfg) ws1"
    "rich B S N c1 (single 8 22)"
    using take8.assign_rich [of B S N ?ctx "scratch_plan ?cfg" 22 ?ws] m(2) default_requests(1) plan_parts(1) [of ?cfg] unfolding l by blast
  have kf: "list_all (\<lambda>(f, x). kernel_present fs dir x) kernel_plan" using k by (auto simp: kernels_present_def list_all_iff)
  obtain ws2 c2 where 2: "assign_fields (\<lambda>ctx. load_kernel_bin fs ctx dir) kernel_plan ws1 c1 = Some (ws2, c2)" "all_assigned kernel_plan ws2"
    "rich B S N c2 (single 8 11)"
    using code8.assign_rich [of B S N c1 kernel_plan 11 fs dir ws1] 1(3) kf plan_parts(2) unfolding l by blast
  obtain ws3 c3 where 3: "assign_fields gpuMalloc args_plan ws2 c2 = Some (ws3, c3)" "all_assigned args_plan ws3"
    "rich B S N c3 (single 8 0)"
    using take8.assign_rich [of B S N c2 args_plan 0 ws2] 2(3) default_requests(2) plan_parts(3) unfolding l by blast
  have mc: "fst (malloc (sh c3))" using 3(3) rich_malloc(1) by (metis prod.collapse)
  have "\<exists>ctx4 d4 ctx5. init_sincos dm fp ws3 c3 d = Some (True, ctx4, d4) \<and> init_zero ws3 ctx4 = Some ctx5"
  proof (cases rule: init_buffers [OF h refl, where wl = wl and cfg = ?cfg and fs = fs and dir = dir])
    case (3 w1 x1 w2 x2 w3 x3 D reg)
    then have q: "w1 = ws1" "x1 = c1" "w2 = ws2" "x2 = c2" "w3 = ws3" "x3 = c3" "D = UNIV"
      using 1 2 \<open>assign_fields gpuMalloc args_plan ws2 c2 = Some (ws3, c3)\<close> \<open>all_assigned args_plan ws3\<close> by simp_all
    have U: "heap B S N c3 (R \<union> range reg)" "holds R UNIV reg ws3" "ws_cfg ws3 = ?cfg" using 3(6,7,10) q by simp_all
    have hd3: "head_dim_ok (ws_cfg ws3)" "cfg_max_seq (ws_cfg ws3) = 128"
      using default_head_dim U(3) by (simp_all add: transformer_default_config_def)
    have p: "\<forall>(f, n)\<in>set (scratch_plan (ws_cfg ws3) @ args_plan). unat n \<le> snd (reg f)"
      "\<forall>(f, name)\<in>set kernel_plan. kernel_loaded fs dir name (reg f) (rdata c3 (reg f))"
      using 3(12,13) q U(3) by simp_all
    show ?thesis
    proof (cases rule: init_last [OF U(1,2) hd3 p, of dm fp d])
      case (1 ctx')
      then show ?thesis using mc exact_pairs [OF e default_head_dim] U(3) by auto
    qed auto
  qed (use 1 2 in simp_all)
  then obtain ctx4 d4 ctx5 where 4: "init_sincos dm fp ws3 c3 d = Some (True, ctx4, d4)" "init_zero ws3 ctx4 = Some ctx5" by blast
  have "init_args_valid (Some wl) (Some kv) (Some ?cfg)"
    using v by (simp add: init_args_valid_def transformer_default_config_def)
  then have "transformer_init dm fp fs ctx d (Some wl) (Some kv) (Some ?cfg) dir = Some (Some ws3, ctx5, d4)"
    using ms m(1) 1(1,2) 2(1,2) 3(1,2) 4 by (simp add: transformer_init_def Let_def)
  then show thesis by (rule that)
qed

subsection \<open>Four gigabytes are enough\<close>

theorem parts_start_rich:
  assumes r: "rich B S N ctx (\<lambda>i. 1048570 div 2 ^ i)" and w: "weights_present fs wd" and k: "kernels_present fs kd"
    and e: "exact_at_zero (mfpu E) transformer_default_config"
  shows "parts_start E fs ctx d wd kd"
proof -
  let ?s = "\<lambda>i. 1048570 div 2 ^ i :: nat"
  have a: "affords ?s weight_orders" by (simp add: weight_orders_def spend_def cost_def)
  obtain wl c1 where 1: "weight_loader_load fs ctx (Some wd) = Some (Some wl, c1)" "rich B S N c1 (fold spend weight_orders ?s)"
    by (rule weight_load_rich [OF r w a]) (rule that)
  have o: "of_order (ucast (24 :: u32) * ucast (2 :: u32) * ucast (128 :: u32) * ucast (64 :: u32) * 4) 9" by (simp add: of_order_def)
  have b: "affords (fold spend weight_orders ?s) [9, 9]" by (simp add: weight_orders_def spend_def cost_def)
  obtain kv c2 where 2: "kv_cache_create c1 24 2 128 64 = Some (Some kv, c2)" "rich B S N c2 (spend 9 (spend 9 (fold spend weight_orders ?s)))"
    by (rule kv_create_rich [OF 1(2) o b]) (rule that)
  have "rich B S N c2 (single 8 35)"
    by (rule rich_less [OF 2(2)]) (simp add: single_def weight_orders_def spend_def cost_def)
  moreover have "max_seq kv = 128"
    using 2(1) by (auto simp: kv_cache_create_def Let_def split: bind_splits if_splits prod.splits)
  ultimately have "transformer_starts E fs c2 d wl kv kd"
    unfolding transformer_starts_def by (rule transformer_init_rich [OF _ _ k e]) blast
  then show ?thesis using 1(1) 2(1) unfolding parts_start_def by blast
qed

subsection \<open>The program\<close>

text \<open>
  A host on which the device can be opened and its four gigabytes are mapped, on which \<open>malloc\<close> does not fail and
  text files have less than \<open>2 ^ 63\<close> characters.
\<close>

definition host_ok :: "host \<Rightarrow> shared \<Rightarrow> text_files \<Rightarrow> bool" where
  "host_ok h m io \<longleftrightarrow> 0 \<le> open_result h \<and> mmap_result h \<noteq> MAP_FAILED \<and> base_ok (mmap_result h) 4294967296 1048576 \<and>
     vram_at (mmap_mem h VRAM_SIZE) (mmap_result h) 4294967296 \<and> False \<notin> set (mallocs m) \<and>
     (\<forall>p cs. in_text io p = Some cs \<longrightarrow> length cs < 2 ^ 63)"

lemma parse_long_range: "parse_long_arg s < 2 ^ 63"
  by (auto simp: parse_long_arg_def LONG_MAX_def split: option.splits)

lemma calloc_ctx_sh [simp]: "sh (calloc_ctx m) = m"
  by (simp add: calloc_ctx_def Let_def)

text \<open>
  What the program needs to get to its end: arguments in range, a prompt that leaves room for the new tokens,
  the files, and an output file that can be written.
\<close>

definition can_run :: "fpu \<Rightarrow> file_system \<Rightarrow> text_files \<Rightarrow> string list \<Rightarrow> int list \<Rightarrow> bool" where
  "can_run fp fs io argv prompt \<longleftrightarrow> (length argv = 6 \<or> length argv = 7 \<and> 0 \<le> parse_long_arg (argv ! 6) \<and> parse_long_arg (argv ! 6) \<le> INT32_MAX) \<and>
     0 < parse_long_arg (argv ! 4) \<and> int (length prompt) + parse_long_arg (argv ! 4) \<le> 129 \<and> list_all (\<lambda>t. t < 151936) prompt \<and>
     weights_present fs (argv ! 1) \<and> kernels_present fs (argv ! 2) \<and> exact_at_zero fp transformer_default_config \<and> out_ok io (argv ! 5)"

lemma can_run_prompt:
  assumes c: "can_run fp fs io argv prompt" and p: "prompt \<noteq> []" "list_all (\<lambda>t. 0 \<le> t \<and> t \<le> INT32_MAX) prompt"
  shows "prompt_fits transformer_default_config prompt (word_of_int (parse_long_arg (argv ! 4)))" "in_vocab transformer_default_config prompt"
proof -
  let ?n = "parse_long_arg (argv ! 4)"
  obtain k where k: "?n = int (Suc k)" using c by (metis can_run_def gr0_conv_Suc zero_less_imp_eq_int)
  have l: "length prompt + k \<le> 128" using c k by (simp add: can_run_def)
  have u: "unat (word_of_nat (length prompt) :: u64) = length prompt" "unat (word_of_nat (length prompt + k) :: u64) = length prompt + k"
    using l by (simp_all add: unat_of_nat64 del: of_nat_add)
  have "(word_of_nat (length prompt) :: u64) + word_of_int ?n - 1 = word_of_nat (length prompt + k)" by (simp add: k)
  then show "prompt_fits transformer_default_config prompt (word_of_int ?n)"
    using l u by (simp add: prompt_fits_def transformer_default_config_def word_less_nat_alt del: of_nat_add)
  have "\<not> (word_of_int t :: u32) \<ge> 151936" if "0 \<le> t" "t < 151936" for t :: int
    using that by (simp add: word_le_def uint_word_of_int)
  then show "in_vocab transformer_default_config prompt"
    using c p(2) by (auto simp: in_vocab_def can_run_def list_all_iff transformer_default_config_def)
qed

lemma new_tokens_word:
  assumes "0 < n" "n < 2 ^ 63"
  shows "unat (word_of_int n :: u64) = nat n" "(word_of_int n :: u64) \<noteq> 0" "unat (word_of_int n :: u64) < 2 ^ 63"
proof -
  have "uint (word_of_int n :: u64) = n" using assms by (simp add: uint_word_of_int)
  then show "unat (word_of_int n :: u64) = nat n" "(word_of_int n :: u64) \<noteq> 0" "unat (word_of_int n :: u64) < 2 ^ 63"
    using assms by (auto simp: unat_eq_nat_uint)
qed

text \<open>The part that uses the device.\<close>

lemma infer_device_runs:
  assumes ok: "host_ok h m0 io" and m: "False \<notin> set (mallocs m)"
    and dev: "device_runs KF (file_code fs (argv ! 2)) (mmap_result h) E" "argmax_in_vocab KF"
    and p: "prompt \<noteq> []" "list_all (\<lambda>t. 0 \<le> t \<and> t \<le> INT32_MAX) prompt" "length prompt < 2 ^ 63"
    and n: "0 < parse_long_arg (argv ! 4)"
  shows "\<exists>rc io' c h'. infer_device E fs io m h d argv prompt (parse_long_arg (argv ! 4)) eos = Some (rc, io', Some c, h') \<and>
    open_fds h' = open_fds h \<and> (\<forall>x. loc (mmap_result h) x < 4294967296 \<longrightarrow> vmem (sh c) x = None) \<and>
    (rc = 1 \<and> io' = io \<or> rc = 0 \<and> io' = with_output io (argv ! 5)
       (spec_generate KF (mfpu E) (file_weights (mfpu E) fs (argv ! 1)) prompt (nat (parse_long_arg (argv ! 4))) eos)) \<and>
    (can_run (mfpu E) fs io argv prompt \<longrightarrow> rc = 0)"
proof -
  let ?B = "mmap_result h" and ?n = "parse_long_arg (argv ! 4)" and ?h = "h\<lparr>open_fds := open_result h # open_fds h\<rparr>"
  note H = ok [unfolded host_ok_def] and w = new_tokens_word [OF n parse_long_range]
  have z: "unat VRAM_SIZE = 4294967296" by (simp add: VRAM_SIZE_def)
  have all: "\<forall>b\<in>set (mallocs (sh (calloc_ctx m))). b" using m by (metis (full_types) calloc_ctx_sh)
  obtain ctx where g: "gpuInit (calloc_ctx m) h VRAM_SIZE = Some (0, ctx, ?h)"
    "stocked ?B 4294967296 1048576 ctx {} 2" "fd ctx = open_result h" "vram_size ctx = VRAM_SIZE" "vram_mmap ctx = ?B"
    "capacity ?B 4294967296 1048576 ctx (\<lambda>i. (1048576 - 6) div 2 ^ i)"
    by (rule gpuInit_heap [where h = h and B = ?B and S = 4294967296 and N = 1048576 and vsize = VRAM_SIZE and ctx = "calloc_ctx m"])
      (use H all z in \<open>auto intro: that\<close>)
  have mc: "False \<notin> set (mallocs (sh ctx))" using gpuInit_mallocs [OF g(1)] m by auto
  have ri: "rich ?B 4294967296 1048576 ctx (\<lambda>i. 1048570 div 2 ^ i)" using g(6) mc by (simp add: rich_def)
  have op: "opened ?B (open_fds h) ctx ?h"
    using H g(3-5) base_okD(1) [of ?B 4294967296 1048576] by (auto simp: opened_def)
  obtain rc io' where e: "ends ?B (open_fds h) rc io' (infer_start E fs io ctx ?h d (argv ! 1) (argv ! 2) prompt (word_of_int ?n) eos (argv ! 5))"
    "rc = 1 \<and> io' = io \<or> rc = 0 \<and> io' = with_output io (argv ! 5)
       (spec_generate KF (mfpu E) (file_weights (mfpu E) fs (argv ! 1)) prompt (unat (word_of_int ?n :: u64)) eos)"
    "prompt_fits transformer_default_config prompt (word_of_int ?n) \<and> in_vocab transformer_default_config prompt \<and> out_ok io (argv ! 5) \<and>
     parts_start E fs ctx d (argv ! 1) (argv ! 2) \<longrightarrow> rc = 0"
    using infer_start_ends [OF stocked_heap [OF g(2)] op mc dev p w(2,3)] by blast
  then obtain c h' where r: "infer_device E fs io m h d argv prompt ?n eos = Some (rc, io', Some c, h')" "open_fds h' = open_fds h"
    "\<forall>x. loc ?B x < 4294967296 \<longrightarrow> vmem (sh c) x = None"
    using g(1) z by (auto simp: ends_def infer_device_def)
  moreover have "rc = 0" if c: "can_run (mfpu E) fs io argv prompt"
    using e(3) can_run_prompt [OF c p(1,2)] parts_start_rich [OF ri, of fs "argv ! 1" "argv ! 2" E d] c by (simp add: can_run_def)
  ultimately show ?thesis using e(2) w(1) by (intro exI [of _ rc] exI [of _ io'] exI [of _ c] exI [of _ h']) auto
qed

lemma infer_main_runs:
  assumes ok: "host_ok h m io" and dev: "device_runs KF (file_code fs (argv ! 2)) (mmap_result h) E" "argmax_in_vocab KF"
  shows "\<exists>rc io' ctx h'. infer_main E fs io m h d argv = Some (rc, io', ctx, h') \<and> open_fds h' = open_fds h \<and>
    (\<forall>c. ctx = Some c \<longrightarrow> (\<forall>x. loc (mmap_result h) x < 4294967296 \<longrightarrow> vmem (sh c) x = None)) \<and>
    (rc = 0 \<and> (\<exists>prompt. fst (read_tokens io (argv ! 3) m) = Some prompt \<and>
       io' = with_output io (argv ! 5) (spec_generate KF (mfpu E) (file_weights (mfpu E) fs (argv ! 1)) prompt
         (nat (parse_long_arg (argv ! 4))) (if length argv = 7 then parse_long_arg (argv ! 6) else -1))) \<or>
     rc \<in> {1, 2} \<and> io' = io) \<and>
    (\<forall>prompt. fst (read_tokens io (argv ! 3) m) = Some prompt \<longrightarrow> can_run (mfpu E) fs io argv prompt \<longrightarrow> rc = 0)"
proof -
  let ?B = "mmap_result h" and ?new = "parse_long_arg (argv ! 4)" and ?eos = "if length argv = 7 then parse_long_arg (argv ! 6) else -1"
  note H = ok [unfolded host_ok_def]
  obtain res m1 where rt: "read_tokens io (argv ! 3) m = (res, m1)" by fastforce
  obtain ok m2 where mm: "malloc m1 = (ok, m2)" by fastforce
  have ms: "False \<notin> set (mallocs m1)" "False \<notin> set (mallocs m2)"
    using H read_tokens_result(1) [OF rt] malloc_mallocs [OF mm] by blast+
  note ok = malloc_succeeds [OF ms(1) mm]
  have "(\<exists>rc\<in>{1, 2}. infer_main E fs io m h d argv = Some (rc, io, None, h)) \<and> (\<forall>p. res = Some p \<longrightarrow> \<not> can_run (mfpu E) fs io argv p) \<or>
      (\<exists>prompt. res = Some prompt \<and> 0 < ?new \<and> infer_main E fs io m h d argv = infer_device E fs io m2 h d argv prompt ?new ?eos)"
    using rt mm ok by (auto simp: infer_main_def can_run_def Let_def split: option.splits)
  then consider (stop) rc where "rc \<in> {1, 2}" "infer_main E fs io m h d argv = Some (rc, io, None, h)"
      "\<forall>p. res = Some p \<longrightarrow> \<not> can_run (mfpu E) fs io argv p"
    | (go) prompt where "res = Some prompt" "0 < ?new" "infer_main E fs io m h d argv = infer_device E fs io m2 h d argv prompt ?new ?eos"
    by blast
  then show ?thesis
  proof cases
    case stop
    then show ?thesis using rt by auto
  next
    case (go prompt)
    obtain cs where t: "in_text io (argv ! 3) = Some cs" "prompt \<noteq> []" "length prompt \<le> length cs"
      "list_all (\<lambda>t. 0 \<le> t \<and> t \<le> INT32_MAX) prompt"
      using read_tokens_result(2) [OF rt go(1)] by blast
    have pl: "length prompt < 2 ^ 63" using H t(1,3) le_less_trans by blast
    then obtain rc io' c h' where "infer_main E fs io m h d argv = Some (rc, io', Some c, h')" "open_fds h' = open_fds h"
      "\<forall>x. loc ?B x < 4294967296 \<longrightarrow> vmem (sh c) x = None"
      "rc = 1 \<and> io' = io \<or> rc = 0 \<and> io' = with_output io (argv ! 5)
         (spec_generate KF (mfpu E) (file_weights (mfpu E) fs (argv ! 1)) prompt (nat ?new) ?eos)"
      "can_run (mfpu E) fs io argv prompt \<longrightarrow> rc = 0"
      using infer_device_runs [OF assms(1) ms(2) dev t(2,4) _ go(2), of d ?eos] go(3) by auto
    then show ?thesis using go(1) rt by (intro exI [of _ rc] exI [of _ io'] exI [of _ "Some c"] exI [of _ h']) auto
  qed
qed

end
