(* ===== verification/Linux_Headers.thy ===== *)
theory Linux_Headers
  imports Prelude
begin

text \<open>
  The parts of the kernel's headers that the module \<open>gpgpu_drv.c\<close> expands: the encoding of an ioctl
  command, pointers that carry an error code, device numbers, the choice of a cache by \<open>kmalloc\<close>, and
  entries of a table of PCI devices.
\<close>

subsection \<open>Commands: \<open>uapi/asm-generic/ioctl.h\<close>\<close>

definition IOC_NRBITS :: nat where "IOC_NRBITS = 8"
definition IOC_TYPEBITS :: nat where "IOC_TYPEBITS = 8"
definition IOC_SIZEBITS :: nat where "IOC_SIZEBITS = 14"
definition IOC_DIRBITS :: nat where "IOC_DIRBITS = 2"

definition IOC_NRMASK :: u32 where "IOC_NRMASK = push_bit IOC_NRBITS 1 - 1"
definition IOC_TYPEMASK :: u32 where "IOC_TYPEMASK = push_bit IOC_TYPEBITS 1 - 1"
definition IOC_SIZEMASK :: u32 where "IOC_SIZEMASK = push_bit IOC_SIZEBITS 1 - 1"
definition IOC_DIRMASK :: u32 where "IOC_DIRMASK = push_bit IOC_DIRBITS 1 - 1"

definition IOC_NRSHIFT :: nat where "IOC_NRSHIFT = 0"
definition IOC_TYPESHIFT :: nat where "IOC_TYPESHIFT = IOC_NRSHIFT + IOC_NRBITS"
definition IOC_SIZESHIFT :: nat where "IOC_SIZESHIFT = IOC_TYPESHIFT + IOC_TYPEBITS"
definition IOC_DIRSHIFT :: nat where "IOC_DIRSHIFT = IOC_SIZESHIFT + IOC_SIZEBITS"

definition IOC_NONE :: u32 where "IOC_NONE = 0"
definition IOC_WRITE :: u32 where "IOC_WRITE = 1"
definition IOC_READ :: u32 where "IOC_READ = 2"

definition IOC :: "u32 \<Rightarrow> u32 \<Rightarrow> u32 \<Rightarrow> u32 \<Rightarrow> u32" where
  "IOC dir type nr sz = push_bit IOC_DIRSHIFT dir OR push_bit IOC_TYPESHIFT type OR
     push_bit IOC_NRSHIFT nr OR push_bit IOC_SIZESHIFT sz"

text \<open>The last argument is the size of the type that the macro names.\<close>

definition IO :: "u32 \<Rightarrow> u32 \<Rightarrow> u32" where "IO type nr = IOC IOC_NONE type nr 0"
definition IOR :: "u32 \<Rightarrow> u32 \<Rightarrow> u32 \<Rightarrow> u32" where "IOR type nr sz = IOC IOC_READ type nr sz"
definition IOW :: "u32 \<Rightarrow> u32 \<Rightarrow> u32 \<Rightarrow> u32" where "IOW type nr sz = IOC IOC_WRITE type nr sz"
definition IOWR :: "u32 \<Rightarrow> u32 \<Rightarrow> u32 \<Rightarrow> u32" where "IOWR type nr sz = IOC (IOC_READ OR IOC_WRITE) type nr sz"

definition IOC_DIR :: "u32 \<Rightarrow> u32" where "IOC_DIR nr = drop_bit IOC_DIRSHIFT nr AND IOC_DIRMASK"
definition IOC_TYPE :: "u32 \<Rightarrow> u32" where "IOC_TYPE nr = drop_bit IOC_TYPESHIFT nr AND IOC_TYPEMASK"
definition IOC_NR :: "u32 \<Rightarrow> u32" where "IOC_NR nr = drop_bit IOC_NRSHIFT nr AND IOC_NRMASK"
definition IOC_SIZE :: "u32 \<Rightarrow> u32" where "IOC_SIZE nr = drop_bit IOC_SIZESHIFT nr AND IOC_SIZEMASK"

definition IOC_IN :: u32 where "IOC_IN = push_bit IOC_DIRSHIFT IOC_WRITE"
definition IOC_OUT :: u32 where "IOC_OUT = push_bit IOC_DIRSHIFT IOC_READ"
definition IOC_INOUT :: u32 where "IOC_INOUT = push_bit IOC_DIRSHIFT (IOC_WRITE OR IOC_READ)"
definition IOCSIZE_MASK :: u32 where "IOCSIZE_MASK = push_bit IOC_SIZESHIFT IOC_SIZEMASK"
definition IOCSIZE_SHIFT :: nat where "IOCSIZE_SHIFT = IOC_SIZESHIFT"

lemmas ioc_shifts = IOC_NRBITS_def IOC_TYPEBITS_def IOC_SIZEBITS_def IOC_DIRBITS_def
  IOC_NRSHIFT_def IOC_TYPESHIFT_def IOC_SIZESHIFT_def IOC_DIRSHIFT_def

lemma ioc_masks: "IOC_NRMASK = mask 8" "IOC_TYPEMASK = mask 8" "IOC_SIZEMASK = mask 14" "IOC_DIRMASK = mask 2"
  by (simp_all add: IOC_NRMASK_def IOC_TYPEMASK_def IOC_SIZEMASK_def IOC_DIRMASK_def ioc_shifts mask_eq_exp_minus_1
      push_bit_eq_mult)

lemma bit_small: "unat (w :: u32) < 2 ^ n \<Longrightarrow> bit w i \<Longrightarrow> i < n"
proof -
  assume a: "unat w < 2 ^ n" "bit w i"
  have "take_bit n (unat w) = unat w" using a(1) by (simp add: take_bit_nat_eq_self)
  then have "take_bit n w = w" by (metis unsigned_take_bit_eq unsigned_word_eqI)
  then show "i < n" using a(2) by (metis bit_take_bit_iff)
qed

theorem ioc_fields:
  assumes "dir < 4" "type < 256" "nr < 256" "sz < 16384"
  shows "IOC_DIR (IOC dir type nr sz) = dir" "IOC_TYPE (IOC dir type nr sz) = type"
    "IOC_NR (IOC dir type nr sz) = nr" "IOC_SIZE (IOC dir type nr sz) = sz"
proof -
  have u: "unat dir < 2 ^ 2" "unat type < 2 ^ 8" "unat nr < 2 ^ 8" "unat sz < 2 ^ 14"
    using assms by (simp_all add: word_less_nat_alt)
  note b = bit_small [OF u(1)] bit_small [OF u(2)] bit_small [OF u(3)] bit_small [OF u(4)]
  show "IOC_DIR (IOC dir type nr sz) = dir"
    by (intro bit_word_eqI) (auto dest: b simp: IOC_DIR_def IOC_def ioc_shifts ioc_masks bit_simps)
  show "IOC_TYPE (IOC dir type nr sz) = type"
    by (intro bit_word_eqI) (auto dest: b simp: IOC_TYPE_def IOC_def ioc_shifts ioc_masks bit_simps)
  show "IOC_NR (IOC dir type nr sz) = nr"
    by (intro bit_word_eqI) (auto dest: b simp: IOC_NR_def IOC_def ioc_shifts ioc_masks bit_simps)
  show "IOC_SIZE (IOC dir type nr sz) = sz"
    by (intro bit_word_eqI) (auto dest: b simp: IOC_SIZE_def IOC_def ioc_shifts ioc_masks bit_simps)
qed

subsection \<open>Error pointers: \<open>linux/err.h\<close>\<close>

text \<open>\<open>long\<close> is a 64-bit word read as signed.\<close>

definition MAX_ERRNO :: u64 where "MAX_ERRNO = 4095"

definition IS_ERR_VALUE :: "u64 \<Rightarrow> bool" where "IS_ERR_VALUE x \<longleftrightarrow> - MAX_ERRNO \<le> x"
definition ERR_PTR :: "int \<Rightarrow> u64" where "ERR_PTR error = word_of_int error"
definition PTR_ERR :: "u64 \<Rightarrow> int" where "PTR_ERR ptr = sint ptr"
definition IS_ERR :: "u64 \<Rightarrow> bool" where "IS_ERR ptr = IS_ERR_VALUE ptr"
definition IS_ERR_OR_NULL :: "u64 \<Rightarrow> bool" where "IS_ERR_OR_NULL ptr \<longleftrightarrow> ptr = 0 \<or> IS_ERR_VALUE ptr"
definition ERR_CAST :: "u64 \<Rightarrow> u64" where "ERR_CAST ptr = ptr"
definition PTR_ERR_OR_ZERO :: "u64 \<Rightarrow> int" where "PTR_ERR_OR_ZERO ptr = (if IS_ERR ptr then PTR_ERR ptr else 0)"

lemma is_err_iff: "IS_ERR p \<longleftrightarrow> 2 ^ 64 - 4095 \<le> uint p"
proof -
  have "uint (- 4095 :: u64) = 2 ^ 64 - 4095" by simp
  then show ?thesis by (simp add: IS_ERR_def IS_ERR_VALUE_def MAX_ERRNO_def word_le_def)
qed

lemma not_is_err_null [simp]: "\<not> IS_ERR 0"
  by (simp add: is_err_iff)

theorem error_pointers:
  "- 4095 \<le> e \<Longrightarrow> e < 0 \<Longrightarrow> IS_ERR (ERR_PTR e) \<and> PTR_ERR (ERR_PTR e) = e"
  "IS_ERR p \<Longrightarrow> - 4095 \<le> PTR_ERR p \<and> PTR_ERR p < 0 \<and> ERR_PTR (PTR_ERR p) = p"
proof -
  show "- 4095 \<le> e \<Longrightarrow> e < 0 \<Longrightarrow> IS_ERR (ERR_PTR e) \<and> PTR_ERR (ERR_PTR e) = e"
  proof -
    assume a: "- 4095 \<le> e" "e < 0"
    have "uint (word_of_int e :: u64) = (2 ^ 64 + e) mod 2 ^ 64" by (simp add: unsigned_of_int take_bit_eq_mod)
    also have "\<dots> = 2 ^ 64 + e" using a by (intro mod_pos_pos_trivial) simp_all
    finally have "IS_ERR (ERR_PTR e)" using a by (simp add: is_err_iff ERR_PTR_def)
    moreover have "sint (word_of_int e :: u64) = e"
      using a by (simp add: signed_of_int signed_take_bit_int_eq_self)
    ultimately show ?thesis by (simp add: PTR_ERR_def ERR_PTR_def)
  qed
  show "IS_ERR p \<Longrightarrow> - 4095 \<le> PTR_ERR p \<and> PTR_ERR p < 0 \<and> ERR_PTR (PTR_ERR p) = p"
  proof -
    assume a: "IS_ERR p"
    have u: "2 ^ 64 - 4095 \<le> uint p" "uint p < 2 ^ 64" using a is_err_iff uint_lt2p [of p] by auto
    have "(uint p + 2 ^ 63) mod 2 ^ 64 = (uint p + 2 ^ 63 - 2 ^ 64) mod 2 ^ 64" by (simp only: minus_mod_self2)
    also have "\<dots> = uint p + 2 ^ 63 - 2 ^ 64" using u by (intro mod_pos_pos_trivial) simp_all
    finally have "sint p = uint p - 2 ^ 64"
      by (simp add: sint_uint signed_take_bit_eq_take_bit_shift take_bit_eq_mod)
    then show ?thesis using u by (simp add: PTR_ERR_def ERR_PTR_def)
  qed
qed

subsection \<open>Device numbers: \<open>linux/kdev_t.h\<close>\<close>

definition MINORBITS :: nat where "MINORBITS = 20"
definition MINORMASK :: u32 where "MINORMASK = push_bit MINORBITS 1 - 1"
definition MAJOR :: "u32 \<Rightarrow> u32" where "MAJOR dev = drop_bit MINORBITS dev"
definition MINOR :: "u32 \<Rightarrow> u32" where "MINOR dev = dev AND MINORMASK"
definition MKDEV :: "u32 \<Rightarrow> u32 \<Rightarrow> u32" where "MKDEV ma mi = push_bit MINORBITS ma OR mi"

definition old_valid_dev :: "u32 \<Rightarrow> bool" where "old_valid_dev dev \<longleftrightarrow> MAJOR dev < 256 \<and> MINOR dev < 256"
definition old_encode_dev :: "u32 \<Rightarrow> u16" where "old_encode_dev dev = ucast (push_bit 8 (MAJOR dev) OR MINOR dev)"
definition old_decode_dev :: "u16 \<Rightarrow> u32" where
  "old_decode_dev val = MKDEV (drop_bit 8 (ucast val) AND 255) (ucast val AND 255)"

definition new_encode_dev :: "u32 \<Rightarrow> u32" where
  "new_encode_dev dev = (let major = MAJOR dev; minor = MINOR dev in
     (minor AND 0xff) OR push_bit 8 major OR push_bit 12 (minor AND NOT 0xff))"

definition new_decode_dev :: "u32 \<Rightarrow> u32" where
  "new_decode_dev dev = (let major = drop_bit 8 (dev AND 0xfff00); minor = (dev AND 0xff) OR (drop_bit 12 dev AND 0xfff00)
     in MKDEV major minor)"

definition huge_encode_dev :: "u32 \<Rightarrow> u64" where "huge_encode_dev dev = ucast (new_encode_dev dev)"
definition huge_decode_dev :: "u64 \<Rightarrow> u32" where "huge_decode_dev dev = new_decode_dev (ucast dev)"

definition sysv_valid_dev :: "u32 \<Rightarrow> bool" where
  "sysv_valid_dev dev \<longleftrightarrow> MAJOR dev < push_bit 14 1 \<and> MINOR dev < push_bit 18 1"
definition sysv_encode_dev :: "u32 \<Rightarrow> u32" where "sysv_encode_dev dev = MINOR dev OR push_bit 18 (MAJOR dev)"
definition sysv_major :: "u32 \<Rightarrow> u32" where "sysv_major dev = drop_bit 18 dev AND 0x3fff"
definition sysv_minor :: "u32 \<Rightarrow> u32" where "sysv_minor dev = dev AND 0x3ffff"

lemma minor_mask: "MINORMASK = mask 20"
  by (simp add: MINORMASK_def MINORBITS_def mask_eq_exp_minus_1 push_bit_eq_mult)

lemma bit_consts:
  "(0xff :: u32) = mask 8" "(255 :: u32) = mask 8" "(0x3fff :: u32) = mask 14" "(0x3ffff :: u32) = mask 18"
  "(0xfff00 :: u32) = push_bit 8 (mask 12)"
  by (simp_all add: mask_eq_exp_minus_1 push_bit_eq_mult)

lemmas dev_simps = MAJOR_def MINOR_def MKDEV_def MINORBITS_def minor_mask bit_consts bit_simps

theorem mkdev_fields:
  assumes "ma < 4096" "mi < 1048576"
  shows "MAJOR (MKDEV ma mi) = ma" "MINOR (MKDEV ma mi) = mi" "MKDEV (MAJOR dev) (MINOR dev) = dev"
proof -
  have u: "unat ma < 2 ^ 12" "unat mi < 2 ^ 20" using assms by (simp_all add: word_less_nat_alt)
  note b = bit_small [OF u(1)] bit_small [OF u(2)]
  show "MAJOR (MKDEV ma mi) = ma" by (intro bit_word_eqI) (auto dest: b simp: dev_simps)
  show "MINOR (MKDEV ma mi) = mi" by (intro bit_word_eqI) (auto dest: b simp: dev_simps)
  show "MKDEV (MAJOR dev) (MINOR dev) = dev" by (intro bit_word_eqI) (auto simp: dev_simps)
qed

theorem new_dev_round_trip: "new_decode_dev (new_encode_dev dev) = dev" "huge_decode_dev (huge_encode_dev dev) = dev"
proof -
  have e: "bit (new_encode_dev dev) k \<longleftrightarrow> k < 32 \<and>
      (if k < 8 then bit dev k else if k < 20 then bit dev (12 + k) else bit dev (k - 12))" for k
    by (auto simp: new_encode_dev_def Let_def dev_simps dest: bit_imp_le_length)
  have d: "bit (new_decode_dev w) k \<longleftrightarrow> k < 32 \<and>
      (if k < 8 then bit w k else if k < 20 then bit w (12 + k) else bit w (k - 12))" for w k
    by (auto simp: new_decode_dev_def Let_def dev_simps dest: bit_imp_le_length)
  show n: "new_decode_dev (new_encode_dev dev) = dev"
    by (intro bit_word_eqI) (auto simp: e d)
  have "ucast (ucast x :: u64) = (x :: u32)" for x by (intro bit_word_eqI) (auto simp: bit_simps)
  then show "huge_decode_dev (huge_encode_dev dev) = dev"
    using n by (simp add: huge_decode_dev_def huge_encode_dev_def)
qed

theorem old_dev_round_trip:
  assumes "old_valid_dev dev"
  shows "old_decode_dev (old_encode_dev dev) = dev"
proof -
  have u: "unat (MAJOR dev) < 2 ^ 8" "unat (MINOR dev) < 2 ^ 8"
    using assms by (simp_all add: old_valid_dev_def word_less_nat_alt)
  have b: "k < 8" if "bit dev (20 + k)" for k
    using bit_small [OF u(1), of k] that by (simp add: MAJOR_def MINORBITS_def bit_simps)
  have c: "k < 8" if "bit dev k" "k < 20" for k
    using bit_small [OF u(2), of k] that by (simp add: MINOR_def minor_mask bit_simps)
  have e: "bit (old_encode_dev dev) k \<longleftrightarrow> k < 16 \<and> (if k < 8 then bit dev k else bit dev (12 + k))" for k
    by (auto simp: old_encode_dev_def dev_simps dest: c)
  have d: "bit (old_decode_dev w) k \<longleftrightarrow> k < 28 \<and> (if k < 20 then k < 8 \<and> bit w k else bit w (k - 12))" for w k
    by (auto simp: old_decode_dev_def dev_simps)
  have t: "bit dev k \<Longrightarrow> k < 28" for k using b [of "k - 20"] by (cases "20 \<le> k") auto
  show ?thesis by (intro bit_word_eqI) (auto simp: d e dest: c t)
qed

theorem sysv_dev_fields:
  assumes "sysv_valid_dev dev"
  shows "sysv_major (sysv_encode_dev dev) = MAJOR dev" "sysv_minor (sysv_encode_dev dev) = MINOR dev"
proof -
  have u: "unat (MAJOR dev) < 2 ^ 14" "unat (MINOR dev) < 2 ^ 18"
    using assms by (simp_all add: sysv_valid_dev_def word_less_nat_alt push_bit_eq_mult)
  note b = bit_small [OF u(1)] bit_small [OF u(2)]
  show "sysv_major (sysv_encode_dev dev) = MAJOR dev"
    by (intro bit_word_eqI) (auto simp: sysv_major_def sysv_encode_dev_def bit_consts bit_simps dest: b)
  show "sysv_minor (sysv_encode_dev dev) = MINOR dev"
    by (intro bit_word_eqI) (auto simp: sysv_minor_def sysv_encode_dev_def bit_consts bit_simps dest: b)
qed

subsection \<open>The cache of an allocation: \<open>linux/slab.h\<close>\<close>

text \<open>With the default allocator: the smallest cache has eight bytes, the largest two pages.\<close>

definition KMALLOC_SHIFT_LOW :: nat where "KMALLOC_SHIFT_LOW = 3"
definition KMALLOC_SHIFT_HIGH :: nat where "KMALLOC_SHIFT_HIGH = 12 + 1"
definition KMALLOC_MAX_CACHE_SIZE :: nat where "KMALLOC_MAX_CACHE_SIZE = 2 ^ KMALLOC_SHIFT_HIGH"
definition KMALLOC_MIN_SIZE :: nat where "KMALLOC_MIN_SIZE = 2 ^ KMALLOC_SHIFT_LOW"

definition kmalloc_index :: "nat \<Rightarrow> nat option" where
  "kmalloc_index sz =
     (if sz = 0 then Some 0
      else if sz \<le> KMALLOC_MIN_SIZE then Some KMALLOC_SHIFT_LOW
      else if KMALLOC_MIN_SIZE \<le> 32 \<and> sz > 64 \<and> sz \<le> 96 then Some 1
      else if KMALLOC_MIN_SIZE \<le> 64 \<and> sz > 128 \<and> sz \<le> 192 then Some 2
      else if sz \<le> 8 then Some 3
      else if sz \<le> 16 then Some 4
      else if sz \<le> 32 then Some 5
      else if sz \<le> 64 then Some 6
      else if sz \<le> 128 then Some 7
      else if sz \<le> 256 then Some 8
      else if sz \<le> 512 then Some 9
      else if sz \<le> 1024 then Some 10
      else if sz \<le> 2 * 1024 then Some 11
      else if sz \<le> 4 * 1024 then Some 12
      else if sz \<le> 8 * 1024 then Some 13
      else if sz \<le> 16 * 1024 then Some 14
      else if sz \<le> 32 * 1024 then Some 15
      else if sz \<le> 64 * 1024 then Some 16
      else if sz \<le> 128 * 1024 then Some 17
      else if sz \<le> 256 * 1024 then Some 18
      else if sz \<le> 512 * 1024 then Some 19
      else if sz \<le> 1024 * 1024 then Some 20
      else if sz \<le> 2 * 1024 * 1024 then Some 21
      else None)"

text \<open>Where a request of constant size goes: to the page allocator, or to the cache with an index.\<close>

datatype kmalloc_target = Kmalloc_large | Kmalloc_trace nat | Kmalloc_any

definition kmalloc_route :: "nat \<Rightarrow> kmalloc_target option" where
  "kmalloc_route sz =
     (if sz \<noteq> 0 then
        if sz > KMALLOC_MAX_CACHE_SIZE then Some Kmalloc_large
        else do { index \<leftarrow> kmalloc_index sz; Some (Kmalloc_trace index) }
      else Some Kmalloc_any)"

text \<open>The comment of the header: which sizes the cache of an index serves.\<close>

definition cache_bytes :: "nat \<Rightarrow> nat" where
  "cache_bytes i = (if i = 1 then 96 else if i = 2 then 192 else 2 ^ i)"

lemma upto_21: "{1..21} = {1, 2, 3, 4, 5, 6, 7, 8, 9, 10, 11, 12, 13, 14, 15, 16, 17, 18, 19, 20, 21 :: nat}"
  by (rule set_eqI) (simp only: atLeastAtMost_iff insert_iff empty_iff, presburger)

theorem kmalloc_index_best:
  assumes "0 < sz" "sz \<le> 2 * 1024 * 1024"
  obtains i where "kmalloc_index sz = Some i" "i \<in> {1..21}" "sz \<le> cache_bytes i"
    "\<forall>j\<in>{1..21}. sz \<le> cache_bytes j \<longrightarrow> cache_bytes i \<le> cache_bytes j"
proof -
  have "\<exists>i. kmalloc_index sz = Some i" using assms by (simp add: kmalloc_index_def)
  then obtain i where i: "kmalloc_index sz = Some i" by blast
  have "i \<in> {1..21} \<and> sz \<le> cache_bytes i \<and> (\<forall>j\<in>{1..21}. sz \<le> cache_bytes j \<longrightarrow> cache_bytes i \<le> cache_bytes j)"
    using i assms unfolding upto_21
    by (simp add: kmalloc_index_def KMALLOC_MIN_SIZE_def KMALLOC_SHIFT_LOW_def cache_bytes_def split: if_splits)
  then show thesis using i that by blast
qed

subsection \<open>Tables of PCI devices: \<open>linux/mod_devicetable.h\<close>, \<open>linux/pci.h\<close>\<close>

record pci_device_id =
  id_vendor :: u32
  id_device :: u32
  id_subvendor :: u32
  id_subdevice :: u32
  id_class :: u32
  id_class_mask :: u32
  id_driver_data :: u64
  id_override_only :: u32

definition PCI_ANY_ID :: u32 where "PCI_ANY_ID = NOT 0"

definition zero_id :: pci_device_id where
  "zero_id = \<lparr>id_vendor = 0, id_device = 0, id_subvendor = 0, id_subdevice = 0, id_class = 0, id_class_mask = 0,
     id_driver_data = 0, id_override_only = 0\<rparr>"

definition PCI_DEVICE :: "u32 \<Rightarrow> u32 \<Rightarrow> pci_device_id" where
  "PCI_DEVICE vend dev = zero_id\<lparr>id_vendor := vend, id_device := dev, id_subvendor := PCI_ANY_ID, id_subdevice := PCI_ANY_ID\<rparr>"

end
