(* ===== verification/Driver.thy ===== *)
theory Driver
  imports Libgpgpu Linux_Headers
begin

text \<open>
  The kernel module \<open>gpgpu_drv.c\<close>: binding and unbinding a device, mapping a BAR, and the
  dispatch call with its interrupt handler.

  The kernel services the module calls are not part of the repository; what they return is the
  argument \<open>probe_env\<close> of \<open>gpgpu_probe\<close>, and the resources they hand out are recorded in a
  ledger, so that a release of something that is not held has no result.  The control
  registers are a map from register offsets to values; the dispatch call is a sequence of micro
  steps that the steps of other callers and interrupts may interleave with.
\<close>

definition ENOMEM :: int where "ENOMEM = 12"
definition EFAULT :: int where "EFAULT = 14"
definition EINVAL :: int where "EINVAL = 22"

definition GPGPU_IRQ_KERNEL_DONE :: u32 where "GPGPU_IRQ_KERNEL_DONE = 1"
definition GPGPU_IRQ_DMA_DONE :: u32 where "GPGPU_IRQ_DMA_DONE = 2"
definition GPGPU_IRQ_ERROR :: u32 where "GPGPU_IRQ_ERROR = 4"

definition GPGPU_REG_IRQ_ENABLE :: nat where "GPGPU_REG_IRQ_ENABLE = 0x200"
definition GPGPU_REG_VRAM_SIZE_LO :: nat where "GPGPU_REG_VRAM_SIZE_LO = 0x0C"
definition GPGPU_REG_VRAM_SIZE_HI :: nat where "GPGPU_REG_VRAM_SIZE_HI = 0x10"
definition GPGPU_REG_KERNEL_ADDR_LO :: nat where "GPGPU_REG_KERNEL_ADDR_LO = 0x300"
definition GPGPU_REG_KERNEL_ADDR_HI :: nat where "GPGPU_REG_KERNEL_ADDR_HI = 0x304"
definition GPGPU_REG_KERNEL_ARGS_LO :: nat where "GPGPU_REG_KERNEL_ARGS_LO = 0x308"
definition GPGPU_REG_KERNEL_ARGS_HI :: nat where "GPGPU_REG_KERNEL_ARGS_HI = 0x30C"
definition GPGPU_REG_GRID_DIM_X :: nat where "GPGPU_REG_GRID_DIM_X = 0x310"
definition GPGPU_REG_GRID_DIM_Y :: nat where "GPGPU_REG_GRID_DIM_Y = 0x314"
definition GPGPU_REG_GRID_DIM_Z :: nat where "GPGPU_REG_GRID_DIM_Z = 0x318"
definition GPGPU_REG_BLOCK_DIM_X :: nat where "GPGPU_REG_BLOCK_DIM_X = 0x31C"
definition GPGPU_REG_BLOCK_DIM_Y :: nat where "GPGPU_REG_BLOCK_DIM_Y = 0x320"
definition GPGPU_REG_BLOCK_DIM_Z :: nat where "GPGPU_REG_BLOCK_DIM_Z = 0x324"
definition GPGPU_REG_SHARED_MEM_SIZE :: nat where "GPGPU_REG_SHARED_MEM_SIZE = 0x328"
definition GPGPU_REG_DISPATCH :: nat where "GPGPU_REG_DISPATCH = 0x330"

lemmas reg_defs = GPGPU_REG_IRQ_ENABLE_def GPGPU_REG_VRAM_SIZE_LO_def GPGPU_REG_VRAM_SIZE_HI_def
  GPGPU_REG_KERNEL_ADDR_LO_def GPGPU_REG_KERNEL_ADDR_HI_def GPGPU_REG_KERNEL_ARGS_LO_def
  GPGPU_REG_KERNEL_ARGS_HI_def GPGPU_REG_GRID_DIM_X_def GPGPU_REG_GRID_DIM_Y_def
  GPGPU_REG_GRID_DIM_Z_def GPGPU_REG_BLOCK_DIM_X_def GPGPU_REG_BLOCK_DIM_Y_def
  GPGPU_REG_BLOCK_DIM_Z_def GPGPU_REG_SHARED_MEM_SIZE_def GPGPU_REG_DISPATCH_def

text \<open>The type of the command is \<open>'G'\<close>; its argument is a structure of 48 bytes.\<close>

definition GPGPU_IOC_MAGIC :: u32 where
  "GPGPU_IOC_MAGIC = 0x47"

definition GPGPU_IOC_DISPATCH :: u32 where
  "GPGPU_IOC_DISPATCH = IOW GPGPU_IOC_MAGIC 0 48"

lemma dispatch_command: "GPGPU_IOC_DISPATCH = 0x40304700"
  by (simp add: GPGPU_IOC_DISPATCH_def GPGPU_IOC_MAGIC_def IOW_def IOC_def IOC_WRITE_def ioc_shifts)

text \<open>The devices the module drives.\<close>

definition GPGPU_VENDOR_ID :: u32 where "GPGPU_VENDOR_ID = 0x1234"
definition GPGPU_DEVICE_ID :: u32 where "GPGPU_DEVICE_ID = 0x1337"

definition gpgpu_pci_ids :: "pci_device_id list" where
  "gpgpu_pci_ids = [PCI_DEVICE GPGPU_VENDOR_ID GPGPU_DEVICE_ID, zero_id]"

subsection \<open>The device and its registers\<close>

record gpgpu_dev =
  ctrl_base :: "nat \<Rightarrow> u32"
  kernel_done :: bool
  launched :: "gpgpu_dispatch_args list"

text \<open>
  What the registers say at a moment; a write to the dispatch register starts the kernel they
  describe, which the field \<open>launched\<close> records.
\<close>

definition reg_args :: "(nat \<Rightarrow> u32) \<Rightarrow> gpgpu_dispatch_args" where
  "reg_args r = \<lparr>kernel_addr = push_bit 32 (ucast (r GPGPU_REG_KERNEL_ADDR_HI)) OR ucast (r GPGPU_REG_KERNEL_ADDR_LO),
     kernel_args = push_bit 32 (ucast (r GPGPU_REG_KERNEL_ARGS_HI)) OR ucast (r GPGPU_REG_KERNEL_ARGS_LO),
     grid_dim = (r GPGPU_REG_GRID_DIM_X, r GPGPU_REG_GRID_DIM_Y, r GPGPU_REG_GRID_DIM_Z),
     block_dim = (r GPGPU_REG_BLOCK_DIM_X, r GPGPU_REG_BLOCK_DIM_Y, r GPGPU_REG_BLOCK_DIM_Z),
     shared_mem_size = r GPGPU_REG_SHARED_MEM_SIZE\<rparr>"

definition iowrite32 :: "u32 \<Rightarrow> nat \<Rightarrow> gpgpu_dev \<Rightarrow> gpgpu_dev" where
  "iowrite32 v reg dev = (let r = (ctrl_base dev)(reg := v) in
     dev\<lparr>ctrl_base := r,
         launched := (if reg = GPGPU_REG_DISPATCH then launched dev @ [reg_args r] else launched dev)\<rparr>)"

definition ioread32 :: "nat \<Rightarrow> gpgpu_dev \<Rightarrow> u32" where
  "ioread32 reg dev = ctrl_base dev reg"

definition irq_kernel_handler :: "gpgpu_dev \<Rightarrow> gpgpu_dev" where
  "irq_kernel_handler dev = dev\<lparr>kernel_done := True\<rparr>"

subsection \<open>The dispatch call\<close>

datatype micro = Reset | Write u32 nat | Wait

definition lo32 :: "u64 \<Rightarrow> u32" where
  "lo32 x = ucast (x AND 0xFFFFFFFF)"

definition hi32 :: "u64 \<Rightarrow> u32" where
  "hi32 x = ucast (drop_bit 32 x AND 0xFFFFFFFF)"

definition dispatch_ops :: "gpgpu_dispatch_args \<Rightarrow> micro list" where
  "dispatch_ops args =
     (case (grid_dim args, block_dim args) of ((gx, gy, gz), (bx, by, bz)) \<Rightarrow>
      [Reset,
       Write (lo32 (kernel_addr args)) GPGPU_REG_KERNEL_ADDR_LO,
       Write (hi32 (kernel_addr args)) GPGPU_REG_KERNEL_ADDR_HI,
       Write (lo32 (kernel_args args)) GPGPU_REG_KERNEL_ARGS_LO,
       Write (hi32 (kernel_args args)) GPGPU_REG_KERNEL_ARGS_HI,
       Write gx GPGPU_REG_GRID_DIM_X,
       Write gy GPGPU_REG_GRID_DIM_Y,
       Write gz GPGPU_REG_GRID_DIM_Z,
       Write bx GPGPU_REG_BLOCK_DIM_X,
       Write by GPGPU_REG_BLOCK_DIM_Y,
       Write bz GPGPU_REG_BLOCK_DIM_Z,
       Write (shared_mem_size args) GPGPU_REG_SHARED_MEM_SIZE,
       Write 1 GPGPU_REG_DISPATCH,
       Wait])"

text \<open>The start of the call: the command and the copy of the argument decide.\<close>

definition gpgpu_ioctl :: "u32 \<Rightarrow> gpgpu_dispatch_args option \<Rightarrow> int + micro list" where
  "gpgpu_ioctl cmd arg =
     (if cmd = GPGPU_IOC_DISPATCH then
        case arg of None \<Rightarrow> Inl (- EFAULT) | Some args \<Rightarrow> Inr (dispatch_ops args)
      else Inl (- EINVAL))"

text \<open>A caller in the driver: the micro steps it still has, or the value it returned.\<close>

datatype caller = Run "micro list" | Returned int

record system =
  dev :: gpgpu_dev
  callers :: "nat \<Rightarrow> caller option"

datatype event = Call nat u32 "gpgpu_dispatch_args option" | Op nat | Woken nat | Signal nat | Return nat | Irq

inductive step :: "system \<Rightarrow> event \<Rightarrow> system \<Rightarrow> bool" where
  call: "callers s t = None \<Longrightarrow>
    step s (Call t cmd arg)
      (s\<lparr>callers := (callers s)(t \<mapsto> (case gpgpu_ioctl cmd arg of Inl e \<Rightarrow> Returned e | Inr ops \<Rightarrow> Run ops))\<rparr>)"
| reset: "callers s t = Some (Run (Reset # ops)) \<Longrightarrow>
    step s (Op t) (s\<lparr>dev := (dev s)\<lparr>kernel_done := False\<rparr>, callers := (callers s)(t \<mapsto> Run ops)\<rparr>)"
| write_reg: "callers s t = Some (Run (Write v reg # ops)) \<Longrightarrow>
    step s (Op t) (s\<lparr>dev := iowrite32 v reg (dev s), callers := (callers s)(t \<mapsto> Run ops)\<rparr>)"
| woken: "callers s t = Some (Run (Wait # ops)) \<Longrightarrow> kernel_done (dev s) \<Longrightarrow>
    step s (Woken t) (s\<lparr>callers := (callers s)(t \<mapsto> Run ops)\<rparr>)"
| signal: "callers s t = Some (Run (Wait # ops)) \<Longrightarrow>
    step s (Signal t) (s\<lparr>callers := (callers s)(t \<mapsto> Run ops)\<rparr>)"
| returned: "callers s t = Some (Run []) \<Longrightarrow>
    step s (Return t) (s\<lparr>callers := (callers s)(t \<mapsto> Returned 0)\<rparr>)"
| irq: "step s Irq (s\<lparr>dev := irq_kernel_handler (dev s)\<rparr>)"

inductive_simps step_simps: "step s e s'"

text \<open>Runs of the driver, for a list of events.\<close>

inductive steps :: "system \<Rightarrow> event list \<Rightarrow> system \<Rightarrow> bool" where
  nil: "steps s [] s"
| snoc: "steps s es s' \<Longrightarrow> step s' e s'' \<Longrightarrow> steps s (es @ [e]) s''"

text \<open>The same steps as a function of the event.\<close>

fun do_event :: "system \<Rightarrow> event \<Rightarrow> system option" where
  "do_event s (Call t cmd arg) = (case callers s t of
     None \<Rightarrow> Some (s\<lparr>callers := (callers s)(t \<mapsto>
       (case gpgpu_ioctl cmd arg of Inl e \<Rightarrow> Returned e | Inr ops \<Rightarrow> Run ops))\<rparr>)
   | Some _ \<Rightarrow> None)"
| "do_event s (Op t) = (case callers s t of
     Some (Run (Reset # ops)) \<Rightarrow>
       Some (s\<lparr>dev := (dev s)\<lparr>kernel_done := False\<rparr>, callers := (callers s)(t \<mapsto> Run ops)\<rparr>)
   | Some (Run (Write v reg # ops)) \<Rightarrow>
       Some (s\<lparr>dev := iowrite32 v reg (dev s), callers := (callers s)(t \<mapsto> Run ops)\<rparr>)
   | _ \<Rightarrow> None)"
| "do_event s (Woken t) = (case callers s t of
     Some (Run (Wait # ops)) \<Rightarrow> if kernel_done (dev s)
       then Some (s\<lparr>callers := (callers s)(t \<mapsto> Run ops)\<rparr>) else None
   | _ \<Rightarrow> None)"
| "do_event s (Signal t) = (case callers s t of
     Some (Run (Wait # ops)) \<Rightarrow> Some (s\<lparr>callers := (callers s)(t \<mapsto> Run ops)\<rparr>)
   | _ \<Rightarrow> None)"
| "do_event s (Return t) = (case callers s t of
     Some (Run []) \<Rightarrow> Some (s\<lparr>callers := (callers s)(t \<mapsto> Returned 0)\<rparr>)
   | _ \<Rightarrow> None)"
| "do_event s Irq = Some (s\<lparr>dev := irq_kernel_handler (dev s)\<rparr>)"

fun run_events :: "system \<Rightarrow> event list \<Rightarrow> system option" where
  "run_events s [] = Some s"
| "run_events s (e # es) = do { s \<leftarrow> do_event s e; run_events s es }"

definition idle :: system where
  "idle = \<lparr>dev = \<lparr>ctrl_base = (\<lambda>_. 0), kernel_done = False, launched = []\<rparr>, callers = (\<lambda>_. None)\<rparr>"

subsection \<open>Binding a device\<close>

datatype resource = Mem | Enabled | Regions | Map_ctrl | Map_vram | Map_doorbell | Chrdev | Cdev
  | Class | Device | Vectors | Irq_line

record probe_env =
  kmalloc :: bool
  pci_enable_device :: int
  pci_request_regions :: int
  pci_iomap :: "nat \<Rightarrow> bool"
  alloc_chrdev_region :: int
  cdev_add :: int
  class_create :: u64
  device_create :: u64
  pci_alloc_irq_vectors :: int
  request_irq :: int

text \<open>\<open>class_create\<close> and \<open>device_create\<close> return a pointer or an error pointer.\<close>

record ledger =
  held :: "resource list"
  drvdata :: bool
  irq_enable :: u32

definition take_res :: "resource \<Rightarrow> ledger \<Rightarrow> ledger" where
  "take_res r l = l\<lparr>held := r # held l\<rparr>"

definition put_res :: "resource \<Rightarrow> ledger \<Rightarrow> ledger option" where
  "put_res r l = (if r \<in> set (held l) then Some (l\<lparr>held := remove1 r (held l)\<rparr>) else None)"

text \<open>The labels at the end of \<open>gpgpu_probe\<close>: each one falls through to the next.\<close>

definition err_free :: "ledger \<Rightarrow> ledger option" where
  "err_free l = (if Mem \<in> set (held l) then put_res Mem l else Some l)"

definition err_disable_device :: "ledger \<Rightarrow> ledger option" where
  "err_disable_device l = do { l \<leftarrow> put_res Enabled l; err_free l }"

definition err_release_regions :: "ledger \<Rightarrow> ledger option" where
  "err_release_regions l = do { l \<leftarrow> put_res Regions l; err_disable_device l }"

definition err_iounmap_ctrl :: "ledger \<Rightarrow> ledger option" where
  "err_iounmap_ctrl l = do { l \<leftarrow> put_res Map_ctrl l; err_release_regions l }"

definition err_iounmap_vram :: "ledger \<Rightarrow> ledger option" where
  "err_iounmap_vram l = do { l \<leftarrow> put_res Map_vram l; err_iounmap_ctrl l }"

definition err_iounmap_doorbell :: "ledger \<Rightarrow> ledger option" where
  "err_iounmap_doorbell l = do { l \<leftarrow> put_res Map_doorbell l; err_iounmap_vram l }"

definition err_cdev_region :: "ledger \<Rightarrow> ledger option" where
  "err_cdev_region l = do { l \<leftarrow> put_res Chrdev l; err_iounmap_doorbell l }"

definition err_cdev_init :: "ledger \<Rightarrow> ledger option" where
  "err_cdev_init l = do { l \<leftarrow> put_res Cdev l; err_cdev_region l }"

definition err_cdev_create :: "ledger \<Rightarrow> ledger option" where
  "err_cdev_create l = do { l \<leftarrow> put_res Class l; err_cdev_init l }"

definition err_device_create :: "ledger \<Rightarrow> ledger option" where
  "err_device_create l = do { l \<leftarrow> put_res Device l; err_cdev_create l }"

definition err_pci_alloc_irq_vectors :: "ledger \<Rightarrow> ledger option" where
  "err_pci_alloc_irq_vectors l = do { l \<leftarrow> put_res Vectors l; err_device_create l }"

definition fail_with :: "int \<Rightarrow> ledger option \<Rightarrow> (int \<times> ledger) option" where
  "fail_with ret l = map_option (Pair ret) l"

text \<open>The second half of the function: the device node and the interrupt.\<close>

definition probe_node :: "probe_env \<Rightarrow> ledger \<Rightarrow> (int \<times> ledger) option" where
  "probe_node env l =
     (if alloc_chrdev_region env \<noteq> 0 then fail_with (alloc_chrdev_region env) (err_iounmap_doorbell l)
      else let l = take_res Chrdev l in
      if cdev_add env \<noteq> 0 then fail_with (cdev_add env) (err_cdev_region l)
      else let l = take_res Cdev l in
      if IS_ERR (class_create env) then fail_with (PTR_ERR (class_create env)) (err_cdev_init l)
      else let l = take_res Class l in
      if IS_ERR (device_create env) then fail_with (PTR_ERR (device_create env)) (err_cdev_create l)
      else let l = take_res Device l in
      if pci_alloc_irq_vectors env < 0 then fail_with (pci_alloc_irq_vectors env) (err_device_create l)
      else let l = take_res Vectors l in
      if request_irq env \<noteq> 0 then fail_with (request_irq env) (err_pci_alloc_irq_vectors l)
      else let l = take_res Irq_line l in
      Some (0, l\<lparr>irq_enable := GPGPU_IRQ_KERNEL_DONE OR GPGPU_IRQ_DMA_DONE OR GPGPU_IRQ_ERROR\<rparr>))"

definition gpgpu_probe :: "probe_env \<Rightarrow> ledger \<Rightarrow> (int \<times> ledger) option" where
  "gpgpu_probe env l =
     (let ret = - ENOMEM in
      if \<not> kmalloc env then fail_with ret (err_free l)
      else let l = take_res Mem l; ret = pci_enable_device env in
      if ret \<noteq> 0 then fail_with ret (err_free l)
      else let l = take_res Enabled l; ret = pci_request_regions env in
      if ret \<noteq> 0 then fail_with ret (err_disable_device l)
      else let l = take_res Regions l in
      if \<not> pci_iomap env 0 then fail_with ret (err_release_regions l)
      else let l = take_res Map_ctrl l in
      if \<not> pci_iomap env 2 then fail_with ret (err_iounmap_ctrl l)
      else let l = take_res Map_vram l in
      if \<not> pci_iomap env 4 then fail_with ret (err_iounmap_vram l)
      else let l = take_res Map_doorbell l; l = l\<lparr>drvdata := True\<rparr> in
      probe_node env l)"

text \<open>The size the module reads from the device and prints.\<close>

definition probe_vram_size :: "gpgpu_dev \<Rightarrow> u64" where
  "probe_vram_size d = push_bit 32 (ucast (ioread32 GPGPU_REG_VRAM_SIZE_HI d)) OR
     ucast (ioread32 GPGPU_REG_VRAM_SIZE_LO d)"

text \<open>\<open>gpgpu_remove\<close> reads its device through the driver data; a null pointer is a fault.\<close>

definition gpgpu_remove :: "ledger \<Rightarrow> ledger option" where
  "gpgpu_remove l = do {
     guard (drvdata l);
     l \<leftarrow> put_res Irq_line l;
     l \<leftarrow> put_res Vectors l;
     l \<leftarrow> put_res Device l;
     l \<leftarrow> put_res Class l;
     l \<leftarrow> put_res Cdev l;
     l \<leftarrow> put_res Chrdev l;
     l \<leftarrow> put_res Map_ctrl l;
     l \<leftarrow> put_res Map_vram l;
     l \<leftarrow> put_res Map_doorbell l;
     l \<leftarrow> put_res Regions l;
     l \<leftarrow> put_res Enabled l;
     put_res Mem l }"

subsection \<open>Files\<close>

text \<open>An open file refers to the device of its inode; every later call goes through it.\<close>

record 'd open_file =
  private_data :: "'d option"

definition gpgpu_open :: "'d \<Rightarrow> 'd open_file \<Rightarrow> int \<times> 'd open_file" where
  "gpgpu_open gpu_dev f = (0, f\<lparr>private_data := Some gpu_dev\<rparr>)"

definition gpgpu_realse :: "'d open_file \<Rightarrow> int \<times> 'd open_file" where
  "gpgpu_realse f = (0, f)"

subsection \<open>Mapping a BAR\<close>

record vm_area =
  vm_pgoff :: u64
  vm_start :: u64
  vm_end :: u64

text \<open>
  The result of \<open>io_remap_pfn_range\<close> is an argument; the call it gets is part of the result: the
  virtual address, the first page frame and the length.
\<close>

definition gpgpu_mmap ::
  "(nat \<Rightarrow> u64) \<Rightarrow> (u64 \<times> u64 \<times> u64 \<Rightarrow> int) \<Rightarrow> vm_area \<Rightarrow> int \<times> (u64 \<times> u64 \<times> u64) option" where
  "gpgpu_mmap pci_resource_start io_remap_pfn_range vma =
     (if vm_pgoff vma = 0 \<or> vm_pgoff vma = 1 then
        let pfn = drop_bit 12 (pci_resource_start (if vm_pgoff vma = 0 then 0 else 2));
            remap = (vm_start vma, pfn, vm_end vma - vm_start vma);
            ret = io_remap_pfn_range remap
        in if ret \<noteq> 0 then (ret, None) else (0, Some remap)
      else (- EINVAL, None))"

subsection \<open>The tables the kernel calls the module through\<close>

record 'd file_operations =
  fop_open :: "'d \<Rightarrow> 'd open_file \<Rightarrow> int \<times> 'd open_file"
  fop_release :: "'d open_file \<Rightarrow> int \<times> 'd open_file"
  fop_mmap :: "(nat \<Rightarrow> u64) \<Rightarrow> (u64 \<times> u64 \<times> u64 \<Rightarrow> int) \<Rightarrow> vm_area \<Rightarrow> int \<times> (u64 \<times> u64 \<times> u64) option"
  fop_unlocked_ioctl :: "u32 \<Rightarrow> gpgpu_dispatch_args option \<Rightarrow> int + micro list"

definition gpgpu_fops :: "'d file_operations" where
  "gpgpu_fops = \<lparr>fop_open = gpgpu_open, fop_release = gpgpu_realse, fop_mmap = gpgpu_mmap,
     fop_unlocked_ioctl = gpgpu_ioctl\<rparr>"

record pci_driver =
  drv_name :: string
  drv_id_table :: "pci_device_id list"
  drv_probe :: "probe_env \<Rightarrow> ledger \<Rightarrow> (int \<times> ledger) option"
  drv_remove :: "ledger \<Rightarrow> ledger option"

definition gpgpu_driver :: pci_driver where
  "gpgpu_driver = \<lparr>drv_name = ''gpgpu'', drv_id_table = gpgpu_pci_ids, drv_probe = gpgpu_probe,
     drv_remove = gpgpu_remove\<rparr>"

end
