(* ===== verification/Driver_Ops.thy ===== *)
theory Driver_Ops
  imports Driver
begin

text \<open>
  The dispatch call under interleaving: what a run without overlapping calls launches, that no
  completion is lost in such a run, and what overlapping calls and signals can do.
\<close>

lemma do_event_step: "do_event s e = Some s' \<longleftrightarrow> step s e s'"
  by (cases e) (auto simp: step_simps split: option.splits caller.splits list.splits micro.splits)

lemma run_events_append: "run_events s (es @ fs) = do { s \<leftarrow> run_events s es; run_events s fs }"
  by (induction es arbitrary: s) (simp_all add: Option.bind_assoc)

lemma steps_run: "steps s es s' \<longleftrightarrow> run_events s es = Some s'"
proof
  show "steps s es s' \<Longrightarrow> run_events s es = Some s'"
    by (induction rule: steps.induct) (simp_all add: run_events_append do_event_step [symmetric])
  show "run_events s es = Some s' \<Longrightarrow> steps s es s'"
  proof (induction es arbitrary: s' rule: rev_induct)
    case Nil
    then show ?case by (simp add: steps.nil)
  next
    case (snoc e es)
    then obtain s1 where "run_events s es = Some s1" "do_event s1 e = Some s'"
      by (auto simp: run_events_append Option.bind_eq_Some_conv)
    then show ?case using snoc.IH by (auto simp: do_event_step intro: steps.snoc)
  qed
qed

subsection \<open>The registers of a dispatch\<close>

lemma mask32: "(0xFFFFFFFF :: u64) = mask 32"
  by (simp add: mask_eq_exp_minus_1)

lemma join_lo_hi: "push_bit 32 (ucast (hi32 x)) OR ucast (lo32 x) = x"
  unfolding hi32_def lo32_def mask32 by (simp add: bit_eq_iff bit_simps) (auto simp: not_less)

lemma length_dispatch_ops: "length (dispatch_ops a) = 14"
  by (simp add: dispatch_ops_def split: prod.splits)

lemma dispatch_regs_distinct:
  assumes "j < 14" "k < 14" "dispatch_ops a ! j = Write v r" "dispatch_ops a ! k = Write v' r"
  shows "j = k"
proof -
  let ?f = "\<lambda>x. case x of Reset \<Rightarrow> 0 | Wait \<Rightarrow> 1 | Write v r \<Rightarrow> Suc r"
  have "distinct (map ?f (dispatch_ops a))"
    by (simp add: dispatch_ops_def reg_defs split: prod.splits)
  moreover have "map ?f (dispatch_ops a) ! j = map ?f (dispatch_ops a) ! k"
    using assms by (simp add: length_dispatch_ops)
  ultimately show ?thesis
    using assms(1,2) nth_eq_iff_index_eq [of "map ?f (dispatch_ops a)" j k] length_dispatch_ops [of a]
    by (simp only: length_map)
qed

definition written :: "gpgpu_dispatch_args \<Rightarrow> nat \<Rightarrow> (nat \<Rightarrow> u32) \<Rightarrow> bool" where
  "written a k r \<longleftrightarrow> (\<forall>j v reg. j < k \<longrightarrow> dispatch_ops a ! j = Write v reg \<longrightarrow> r reg = v)"

lemma written_mono: "written a k r \<Longrightarrow> j \<le> k \<Longrightarrow> written a j r"
  unfolding written_def by (meson less_le_trans)

lemma written_all:
  assumes "written a 12 r"
  shows "reg_args r = a"
proof -
  obtain ka kg gx gy gz bx by' bz sm where a: "a = \<lparr>kernel_addr = ka, kernel_args = kg,
      grid_dim = (gx, gy, gz), block_dim = (bx, by', bz), shared_mem_size = sm\<rparr>"
    by (metis gpgpu_dispatch_args.cases prod_cases3)
  have w: "r reg = v" if "j < 12" "dispatch_ops a ! j = Write v reg" for j v reg
    using assms that unfolding written_def by blast
  have "r GPGPU_REG_KERNEL_ADDR_LO = lo32 ka" "r GPGPU_REG_KERNEL_ADDR_HI = hi32 ka"
    "r GPGPU_REG_KERNEL_ARGS_LO = lo32 kg" "r GPGPU_REG_KERNEL_ARGS_HI = hi32 kg"
    "r GPGPU_REG_GRID_DIM_X = gx" "r GPGPU_REG_GRID_DIM_Y = gy" "r GPGPU_REG_GRID_DIM_Z = gz"
    "r GPGPU_REG_BLOCK_DIM_X = bx" "r GPGPU_REG_BLOCK_DIM_Y = by'" "r GPGPU_REG_BLOCK_DIM_Z = bz"
    "r GPGPU_REG_SHARED_MEM_SIZE = sm"
    using w [of 1] w [of 2] w [of 3] w [of 4] w [of 5] w [of 6] w [of 7] w [of 8] w [of 9]
      w [of 10] w [of 11]
    by (simp_all add: a dispatch_ops_def)
  then show ?thesis by (simp add: reg_args_def a join_lo_hi)
qed

lemma written_step:
  assumes "written a k r" "k < 14" "dispatch_ops a ! k = Write v reg"
  shows "written a (Suc k) (r(reg := v))"
  unfolding written_def
proof (intro allI impI)
  fix j v' reg' assume j: "j < Suc k" "dispatch_ops a ! j = Write v' reg'"
  show "(r(reg := v)) reg' = v'"
  proof (cases "reg' = reg")
    case True
    then have "j = k" using dispatch_regs_distinct [of j k a v' reg v] j assms(2,3) by simp
    then show ?thesis using j assms(3) by simp
  next
    case False
    then have "j < k" using j assms(3) by (cases "j = k") auto
    then show ?thesis using assms(1) j False unfolding written_def by auto
  qed
qed

lemma written_skip:
  assumes "written a k r" "\<And>v reg. dispatch_ops a ! k \<noteq> Write v reg"
  shows "written a (Suc k) r"
  using assms unfolding written_def by (metis less_antisym)

lemma dispatch_position: "k < 14 \<Longrightarrow> dispatch_ops a ! k = Write v GPGPU_REG_DISPATCH \<longleftrightarrow> k = 12 \<and> v = 1"
proof -
  have d: "dispatch_ops a ! 12 = Write 1 GPGPU_REG_DISPATCH"
    by (simp add: dispatch_ops_def split: prod.splits)
  assume "k < 14"
  then show ?thesis using dispatch_regs_distinct [of k 12 a v GPGPU_REG_DISPATCH 1] d by auto
qed

subsection \<open>Calls that do not overlap\<close>

definition busy :: "system \<Rightarrow> bool" where
  "busy s \<longleftrightarrow> (\<exists>t ops. callers s t = Some (Run ops))"

inductive serial_steps :: "system \<Rightarrow> event list \<Rightarrow> system \<Rightarrow> bool" for s where
  nil: "serial_steps s [] s"
| snoc: "serial_steps s es s' \<Longrightarrow> step s' e s'' \<Longrightarrow>
    (\<And>t cmd arg. e = Call t cmd arg \<Longrightarrow> \<not> busy s') \<Longrightarrow> serial_steps s (es @ [e]) s''"

fun accepted1 :: "event \<Rightarrow> gpgpu_dispatch_args list" where
  "accepted1 (Call t cmd (Some a)) = (if cmd = GPGPU_IOC_DISPATCH then [a] else [])"
| "accepted1 _ = []"

definition accepted :: "event list \<Rightarrow> gpgpu_dispatch_args list" where
  "accepted es = concat (map accepted1 es)"

text \<open>
  The one caller in the driver stands at position \<open>k\<close> of its sequence; the registers before it
  are written, and its kernel is launched when it is past the dispatch register.
\<close>

definition in_call :: "system \<Rightarrow> nat \<Rightarrow> nat \<Rightarrow> gpgpu_dispatch_args \<Rightarrow> gpgpu_dispatch_args list \<Rightarrow> bool" where
  "in_call s t k a H \<longleftrightarrow> k \<le> 14 \<and> callers s t = Some (Run (drop k (dispatch_ops a))) \<and>
     (\<forall>u ops. callers s u = Some (Run ops) \<longrightarrow> u = t) \<and> written a k (ctrl_base (dev s)) \<and>
     launched (dev s) = H @ (if 12 < k then [a] else [])"

definition serial_inv :: "system \<Rightarrow> gpgpu_dispatch_args list \<Rightarrow> bool" where
  "serial_inv s H \<longleftrightarrow> \<not> busy s \<and> launched (dev s) = H \<or> (\<exists>t k a H'. H = H' @ [a] \<and> in_call s t k a H')"

lemma in_call_busy: "in_call s t k a H \<Longrightarrow> busy s"
  by (auto simp: in_call_def busy_def)

lemma drop_dispatch:
  "k \<le> 14 \<Longrightarrow> drop k (dispatch_ops a) = x # xs \<longleftrightarrow>
     k < 14 \<and> dispatch_ops a ! k = x \<and> drop (Suc k) (dispatch_ops a) = xs"
proof (cases "k < 14")
  case True
  then show ?thesis using Cons_nth_drop_Suc [of k "dispatch_ops a"] length_dispatch_ops [of a] by auto
next
  case False
  then show ?thesis using length_dispatch_ops [of a] by simp
qed

lemma in_call_next:
  assumes c: "in_call s t k a H" and e: "callers s t = Some (Run (x # ops))"
    and s': "callers s' = (callers s)(t \<mapsto> Run ops)"
    and d: "(case x of Write v reg \<Rightarrow> dev s' = iowrite32 v reg (dev s)
       | _ \<Rightarrow> ctrl_base (dev s') = ctrl_base (dev s) \<and> launched (dev s') = launched (dev s))"
  shows "in_call s' t (Suc k) a H"
proof -
  have k: "k \<le> 14" and w: "written a k (ctrl_base (dev s))"
    and l: "launched (dev s) = H @ (if 12 < k then [a] else [])" using c by (simp_all add: in_call_def)
  have p: "k < 14" "dispatch_ops a ! k = x" "drop (Suc k) (dispatch_ops a) = ops"
    using c e k drop_dispatch [OF k, of a x ops] by (auto simp: in_call_def)
  have "written a (Suc k) (ctrl_base (dev s')) \<and>
      launched (dev s') = H @ (if 12 < Suc k then [a] else [])"
  proof (cases x)
    case (Write v reg)
    then have dv: "dev s' = iowrite32 v reg (dev s)" using d by simp
    have w': "written a (Suc k) (ctrl_base (dev s'))"
      using written_step [OF w p(1)] p(2) Write by (simp add: dv iowrite32_def Let_def)
    show ?thesis
    proof (cases "reg = GPGPU_REG_DISPATCH")
      case True
      then have "k = 12" using dispatch_position [OF p(1)] p(2) Write by auto
      moreover from this have "written a 12 ((ctrl_base (dev s))(reg := v))"
        using written_mono [OF w', of 12] by (simp add: dv iowrite32_def Let_def)
      ultimately show ?thesis
        using True written_all [of a] w' l by (simp add: dv iowrite32_def Let_def)
    next
      case False
      then have "k \<noteq> 12" using dispatch_position [of 12 a 1] p(2) Write by auto
      then show ?thesis using False w' l by (auto simp: dv iowrite32_def Let_def)
    qed
  next
    case Reset
    then have "k \<noteq> 12" using dispatch_position [of 12 a 1] p(2) by auto
    then show ?thesis using d Reset written_skip [OF w] p(2) l by auto
  next
    case Wait
    then have "k \<noteq> 12" using dispatch_position [of 12 a 1] p(2) by auto
    then show ?thesis using d Wait written_skip [OF w] p(2) l by auto
  qed
  then show ?thesis using c p(1,3) s' by (auto simp: in_call_def)
qed

lemma serial_inv_step:
  assumes i: "serial_inv s H" and st: "step s e s'" and ser: "\<And>t cmd arg. e = Call t cmd arg \<Longrightarrow> \<not> busy s"
  shows "serial_inv s' (H @ accepted1 e)"
proof -
  have run: "\<exists>k a H'. H = H' @ [a] \<and> in_call s t k a H'" if "callers s t = Some (Run ops)" for t ops
  proof -
    have "busy s" using that by (auto simp: busy_def)
    then obtain u k a H' where "H = H' @ [a]" "in_call s u k a H'" using i by (auto simp: serial_inv_def)
    moreover from this have "t = u" using that by (auto simp: in_call_def)
    ultimately show ?thesis by blast
  qed
  have next_ok: "serial_inv s' H"
    if "callers s t = Some (Run (x # ops))" "callers s' = (callers s)(t \<mapsto> Run ops)"
      "(case x of Write v reg \<Rightarrow> dev s' = iowrite32 v reg (dev s)
       | _ \<Rightarrow> ctrl_base (dev s') = ctrl_base (dev s) \<and> launched (dev s') = launched (dev s))" for t x ops
    using run [OF that(1)] in_call_next [OF _ that(1,2,3)] unfolding serial_inv_def by blast
  show ?thesis
    using st
  proof (cases rule: step.cases)
    case (call t cmd arg)
    then have nb: "\<not> busy s" and l: "launched (dev s) = H" using ser i in_call_busy
      by (auto simp: serial_inv_def)
    show ?thesis
    proof (cases "cmd = GPGPU_IOC_DISPATCH \<and> arg \<noteq> None")
      case True
      then obtain a where a: "arg = Some a" by auto
      have "in_call s' t 0 a H"
        using call nb True a l
        by (auto simp: in_call_def written_def gpgpu_ioctl_def busy_def split: if_splits)
      then show ?thesis using call True a by (auto simp: serial_inv_def)
    next
      case False
      then have "accepted1 e = []" using call by (cases arg) auto
      moreover have "\<not> busy s'"
        using call False nb by (auto simp: busy_def gpgpu_ioctl_def split: if_splits option.splits)
      ultimately show ?thesis using call l by (simp add: serial_inv_def)
    qed
  next
    case (reset t ops)
    then show ?thesis using next_ok [of t Reset ops] by simp
  next
    case (write_reg t v reg ops)
    then show ?thesis using next_ok [of t "Write v reg" ops] by simp
  next
    case (woken t ops)
    then show ?thesis using next_ok [of t Wait ops] by simp
  next
    case (signal t ops)
    then show ?thesis using next_ok [of t Wait ops] by simp
  next
    case (returned t)
    obtain k a H' where H: "H = H' @ [a]" and c: "in_call s t k a H'" using run [OF returned(3)] by blast
    have "\<not> k < 14" using c returned(3) length_dispatch_ops [of a] by (auto simp: in_call_def)
    then have "launched (dev s) = H" using c H by (auto simp: in_call_def)
    moreover have "\<not> busy s'" using c returned by (auto simp: busy_def in_call_def)
    ultimately show ?thesis using returned by (simp add: serial_inv_def)
  next
    case irq
    then show ?thesis using i
      by (auto simp: serial_inv_def in_call_def busy_def irq_kernel_handler_def)
  qed
qed

theorem serial_runs:
  "serial_steps s es s' \<Longrightarrow> \<not> busy s \<Longrightarrow> launched (dev s) = [] \<Longrightarrow> serial_inv s' (accepted es)"
proof (induction rule: serial_steps.induct)
  case nil
  then show ?case by (simp add: serial_inv_def accepted_def)
next
  case (snoc es s' e s'')
  then show ?case using serial_inv_step [of s' "accepted es" e s''] by (simp add: accepted_def)
qed

subsection \<open>Completion\<close>

text \<open>In a run of one caller at a time a completion that arrived is not forgotten.\<close>

definition completed :: "system \<Rightarrow> nat \<Rightarrow> bool" where
  "completed s t \<longleftrightarrow> callers s t = Some (Run [Wait]) \<and> kernel_done (dev s) \<and>
     (\<forall>u ops. callers s u = Some (Run ops) \<longrightarrow> u = t)"

lemma completed_step:
  assumes c: "completed s t" and st: "step s e s'" and ser: "\<And>t cmd arg. e = Call t cmd arg \<Longrightarrow> \<not> busy s"
    and e: "e \<noteq> Woken t" "e \<noteq> Signal t"
  shows "completed s' t"
proof -
  have only: "u = t \<and> ops = [Wait]" if "callers s u = Some (Run ops)" for u ops
    using c that by (auto simp: completed_def)
  have "busy s" using c by (auto simp: completed_def busy_def)
  show ?thesis
    using st
  proof (cases rule: step.cases)
    case irq
    then show ?thesis using c by (simp add: completed_def irq_kernel_handler_def)
  qed (use only ser e \<open>busy s\<close> in \<open>fastforce+\<close>)
qed

lemma completion_stays:
  "serial_steps s es s' \<Longrightarrow> completed s t \<Longrightarrow> Woken t \<notin> set es \<Longrightarrow> Signal t \<notin> set es \<Longrightarrow> completed s' t"
proof (induction rule: serial_steps.induct)
  case nil
  then show ?case by blast
next
  case (snoc es s' e s'')
  then show ?case using completed_step [of s' t e s''] by auto
qed

subsection \<open>Calls that overlap\<close>

text \<open>
  The first caller writes its kernel address, the second one overwrites it, and the first goes on.
\<close>

lemma overlap_run:
  assumes c: "c = a\<lparr>kernel_addr := kernel_addr b\<rparr>"
  obtains s' where "run_events idle ([Call 0 GPGPU_IOC_DISPATCH (Some a), Call 1 GPGPU_IOC_DISPATCH (Some b),
      Op 0, Op 0, Op 0, Op 1, Op 1, Op 1] @ replicate 10 (Op 0)) = Some s'" "launched (dev s') = [c]"
proof -
  obtain gx gy gz bx by' bz where g: "grid_dim a = (gx, gy, gz)" "block_dim a = (bx, by', bz)" by (metis prod_cases3)
  obtain gx2 gy2 gz2 bx2 by2 bz2 where g2: "grid_dim b = (gx2, gy2, gz2)" "block_dim b = (bx2, by2, bz2)" by (metis prod_cases3)
  have ten: "replicate 10 (Op 0) = [Op 0, Op 0, Op 0, Op 0, Op 0, Op 0, Op 0, Op 0, Op 0, Op 0]"
    by (simp add: numeral_eq_Suc)
  have "\<exists>s'. run_events idle ([Call 0 GPGPU_IOC_DISPATCH (Some a), Call 1 GPGPU_IOC_DISPATCH (Some b),
      Op 0, Op 0, Op 0, Op 1, Op 1, Op 1] @ replicate 10 (Op 0)) = Some s' \<and> launched (dev s') = [c]"
    unfolding ten
    by (simp add: idle_def gpgpu_ioctl_def dispatch_ops_def g g2 iowrite32_def Let_def reg_args_def reg_defs
        join_lo_hi c)
  then show thesis using that by blast
qed

subsection \<open>What a returned call shows\<close>

text \<open>
  Without signals, a caller that has not returned still has its wait before it, and a success or a
  set flag needs an interrupt in the run.
\<close>

definition return_inv :: "event list \<Rightarrow> system \<Rightarrow> bool" where
  "return_inv es s \<longleftrightarrow> (kernel_done (dev s) \<longrightarrow> Irq \<in> set es) \<and>
     (\<forall>t ops. callers s t = Some (Run ops) \<longrightarrow> Irq \<in> set es \<or> Wait \<in> set ops) \<and>
     (\<forall>t e. callers s t = Some (Returned e) \<longrightarrow> e \<in> {- EFAULT, - EINVAL} \<or> e = 0 \<and> Irq \<in> set es)"

lemma steps_return_inv:
  assumes "steps idle es s'" "\<forall>t. Signal t \<notin> set es"
  shows "return_inv es s'"
  using assms
proof (induction idle es s' rule: steps.induct)
  case nil
  show ?case by (simp add: return_inv_def idle_def)
next
  case (snoc es s' e s'')
  then have i: "return_inv es s'" and ns: "\<forall>t. e \<noteq> Signal t" by auto
  from snoc(3) show ?case
  proof cases
    case (call t cmd arg)
    then show ?thesis using i by (auto simp: return_inv_def gpgpu_ioctl_def dispatch_ops_def split: option.splits prod.splits)
  qed (use i ns in \<open>fastforce simp: return_inv_def iowrite32_def irq_kernel_handler_def Let_def\<close>)+
qed

lemma steps_launched_accepted:
  assumes "steps idle es s'" "accepted es = []"
  shows "launched (dev s') = [] \<and> \<not> busy s'"
  using assms
proof (induction idle es s' rule: steps.induct)
  case nil
  show ?case by (simp add: busy_def idle_def)
next
  case (snoc es s' e s'')
  then have i: "launched (dev s') = []" "\<not> busy s'" and a: "accepted1 e = []" by (auto simp: accepted_def)
  from snoc(3) show ?case
  proof cases
    case (call t cmd arg)
    then show ?thesis using i a
      by (auto simp: busy_def gpgpu_ioctl_def split: option.splits if_splits)
  qed (use i in \<open>auto simp: busy_def irq_kernel_handler_def\<close>)
qed

text \<open>A call that is interrupted by a signal after its last register write.\<close>

lemma signal_run:
  obtains s' where
    "run_events idle ([Call 0 GPGPU_IOC_DISPATCH (Some a)] @ replicate 13 (Op 0) @ [Signal 0, Return 0]) = Some s'"
    "\<not> kernel_done (dev s')" "callers s' 0 = Some (Returned 0)" "launched (dev s') = [a]"
proof -
  obtain k w gx gy gz bx by' bz m where g: "a = \<lparr>kernel_addr = k, kernel_args = w, grid_dim = (gx, gy, gz),
      block_dim = (bx, by', bz), shared_mem_size = m\<rparr>" by (cases a) auto
  have many: "replicate 13 (Op 0) = [Op 0, Op 0, Op 0, Op 0, Op 0, Op 0, Op 0, Op 0, Op 0, Op 0, Op 0, Op 0, Op 0]"
    by (simp add: numeral_eq_Suc)
  have "\<exists>s'. run_events idle ([Call 0 GPGPU_IOC_DISPATCH (Some a)] @ replicate 13 (Op 0) @ [Signal 0, Return 0]) = Some s' \<and>
      \<not> kernel_done (dev s') \<and> callers s' 0 = Some (Returned 0) \<and> launched (dev s') = [a]"
    unfolding many
    by (simp add: idle_def gpgpu_ioctl_def dispatch_ops_def g iowrite32_def Let_def reg_args_def reg_defs join_lo_hi)
  then show thesis using that by blast
qed

subsection \<open>The probe handler\<close>

lemmas probe_defs = gpgpu_probe_def probe_node_def fail_with_def take_res_def put_res_def err_free_def
  err_disable_device_def err_release_regions_def err_iounmap_ctrl_def err_iounmap_vram_def
  err_iounmap_doorbell_def err_cdev_region_def err_cdev_init_def err_cdev_create_def
  err_device_create_def err_pci_alloc_irq_vectors_def Let_def
  GPGPU_IRQ_KERNEL_DONE_def GPGPU_IRQ_DMA_DONE_def GPGPU_IRQ_ERROR_def

text \<open>The state of a device that is fully set up.\<close>

definition probed :: ledger where
  "probed = \<lparr>held = [Irq_line, Vectors, Device, Class, Cdev, Chrdev, Map_doorbell, Map_vram, Map_ctrl,
      Regions, Enabled, Mem], drvdata = True, irq_enable = 7\<rparr>"

lemma set_probed: "set (held probed) = UNIV" "distinct (held probed)"
proof -
  have "x \<in> set (held probed)" for x by (cases x) (simp_all add: probed_def)
  then show "set (held probed) = UNIV" by blast
qed (simp add: probed_def)

lemma probe_cases:
  obtains l where "gpgpu_probe env \<lparr>held = [], drvdata = d, irq_enable = i\<rparr> = Some (0, l)" "l = probed"
    | r l where "gpgpu_probe env \<lparr>held = [], drvdata = d, irq_enable = i\<rparr> = Some (r, l)" "held l = []"
proof -
  have "gpgpu_probe env \<lparr>held = [], drvdata = d, irq_enable = i\<rparr> = Some (0, probed) \<or>
    (\<exists>r l. gpgpu_probe env \<lparr>held = [], drvdata = d, irq_enable = i\<rparr> = Some (r, l) \<and> held l = [])"
    by (simp add: probe_defs probed_def)
  then show thesis using that by blast
qed

end
