(* ===== verification/Gpu_Trace.thy ===== *)
theory Gpu_Trace
  imports Vram_Api
begin

text \<open>
  A process that uses the runtime: any sequence of requests, releases of what is still held, and
  copies into it.  The process knows of each allocation the offset and the size it asked for.
\<close>

inductive gpu_reach :: "gpgpu_ctx \<Rightarrow> gpgpu_ctx \<Rightarrow> (nat \<times> nat) set \<Rightarrow> bool" for ctx0 where
  start: "gpu_reach ctx0 ctx0 {}"
| refused: "gpu_reach ctx0 ctx C \<Longrightarrow> gpuMalloc ctx sz = Some (-1, ctx') \<Longrightarrow> gpu_reach ctx0 ctx' C"
| granted: "gpu_reach ctx0 ctx C \<Longrightarrow> gpuMalloc ctx sz = Some (off, ctx') \<Longrightarrow> off \<noteq> -1 \<Longrightarrow>
    gpu_reach ctx0 ctx' (insert (unat off, unat sz) C)"
| freed: "gpu_reach ctx0 ctx C \<Longrightarrow> (a, n) \<in> C \<Longrightarrow> gpuFree ctx (word_of_nat a) = Some (rc, ctx') \<Longrightarrow>
    gpu_reach ctx0 ctx' (C - {(a, n)})"
| copied: "gpu_reach ctx0 ctx C \<Longrightarrow> (a, n) \<in> C \<Longrightarrow> d + unat sz \<le> n \<Longrightarrow> unat sz \<le> length src \<Longrightarrow>
    gpuMemcpy ctx (word_of_nat (a + d)) src sz GPU_MEMCPY_H2D = Some (rc, src', ctx') \<Longrightarrow>
    gpu_reach ctx0 ctx' C"

text \<open>The regions of the heap cover the allocations of the process, one each.\<close>

definition covers :: "region set \<Rightarrow> (nat \<times> nat) set \<Rightarrow> bool" where
  "covers R C \<longleftrightarrow> fst ` R = fst ` C \<and> (\<forall>a n m. (a, n) \<in> C \<longrightarrow> (a, m) \<in> C \<longrightarrow> n = m) \<and>
     (\<forall>a n l. (a, n) \<in> C \<longrightarrow> (a, l) \<in> R \<longrightarrow> n \<le> l)"

lemma heap_addr_unique:
  assumes "heap B S N ctx R" "(a, l) \<in> R" "(a, m) \<in> R"
  shows "l = m"
proof (rule ccontr)
  assume "l \<noteq> m"
  then have "rbytes (a, l) \<inter> rbytes (a, m) = {}" using heap_disjoint [OF assms] by simp
  moreover have "a \<in> rbytes (a, l)" "a \<in> rbytes (a, m)"
    using heap_bounds [OF assms(1,2)] heap_bounds [OF assms(1,3)] by (auto simp: rbytes_def)
  ultimately show False by blast
qed

lemma covers_region: "covers R C \<Longrightarrow> (a, n) \<in> C \<Longrightarrow> \<exists>l. (a, l) \<in> R \<and> n \<le> l"
  unfolding covers_def by (metis (no_types, lifting) fst_conv image_iff prod.collapse)

lemma covers_insert:
  assumes c: "covers R C" and h: "heap B S N ctx (insert (a, l) R)" and n: "(a, l) \<notin> R" "k \<le> l"
  shows "covers (insert (a, l) R) (insert (a, k) C)"
proof -
  have "m \<noteq> l \<Longrightarrow> (a, m) \<notin> R" for m using heap_addr_unique [OF h, of a l m] by auto
  then have nr: "(a, m) \<notin> R" for m using n(1) by (cases "m = l") auto
  then have "a \<notin> fst ` R" by auto
  then have "a \<notin> fst ` C" using c by (simp add: covers_def)
  then have nc: "(a, m) \<notin> C" for m by (auto intro: rev_image_eqI)
  show ?thesis using c n(2) nc nr unfolding covers_def by auto
qed

lemma fst_remove:
  assumes "\<And>m. (a, m) \<in> X \<Longrightarrow> m = l"
  shows "fst ` (X - {(a, l)}) = fst ` X - {a}"
proof (intro equalityI subsetI)
  fix x assume "x \<in> fst ` (X - {(a, l)})"
  then obtain y where "y \<in> X" "y \<noteq> (a, l)" "x = fst y" by blast
  then obtain m where m: "(x, m) \<in> X" "(x, m) \<noteq> (a, l)" by (cases y) auto
  then have "x \<noteq> a" using assms [of m] by auto
  then show "x \<in> fst ` X - {a}" using m(1) by (auto intro: rev_image_eqI)
next
  fix x assume "x \<in> fst ` X - {a}"
  then obtain m where "(x, m) \<in> X" "x \<noteq> a" by auto
  then show "x \<in> fst ` (X - {(a, l)})" by (auto intro: rev_image_eqI)
qed

lemma covers_remove:
  assumes c: "covers R C" and h: "heap B S N ctx R" and a: "(a, l) \<in> R" "(a, n) \<in> C"
  shows "covers (R - {(a, l)}) (C - {(a, n)})"
proof -
  have "m = l" if "(a, m) \<in> R" for m using heap_addr_unique [OF h that a(1)] .
  then have "fst ` (R - {(a, l)}) = fst ` R - {a}" by (rule fst_remove)
  moreover have "m = n" if "(a, m) \<in> C" for m using c a(2) that unfolding covers_def by blast
  then have "fst ` (C - {(a, n)}) = fst ` C - {a}" by (rule fst_remove)
  ultimately show ?thesis using c unfolding covers_def by (intro conjI) (simp, blast, blast)
qed

theorem reach_covers:
  assumes "gpu_reach ctx0 ctx C" "heap B S N ctx0 {}"
  shows "\<exists>R. heap B S N ctx R \<and> covers R C"
  using assms
proof (induction rule: gpu_reach.induct)
  case start
  then show ?case by (auto simp: covers_def)
next
  case (refused ctx C sz ctx')
  then obtain R where h: "heap B S N ctx R" and c: "covers R C" by blast
  show ?case
  proof (cases rule: gpuMalloc_heap [OF h, of sz])
    case (1 ctx1)
    then show ?thesis using refused.hyps(2) c by auto
  next
    case (2 a l ctx1)
    then show ?thesis using refused.hyps(2) gpu.addr_valid(1) [OF 2(2), of a l] by auto
  qed
next
  case (granted ctx C sz off ctx')
  then obtain R where h: "heap B S N ctx R" and c: "covers R C" by blast
  show ?case
  proof (cases rule: gpuMalloc_heap [OF h, of sz])
    case (1 ctx1)
    then show ?thesis using granted.hyps(2,3) by simp
  next
    case (2 a l ctx1)
    then have e: "off = word_of_nat a" "ctx' = ctx1" using granted.hyps(2) by auto
    then have "unat off = a" using gpu.addr_valid(2) [OF 2(2), of a l] by simp
    then show ?thesis using 2 e covers_insert [OF c 2(2,3,4)] by auto
  qed
next
  case (freed ctx C a n rc ctx')
  then obtain R where h: "heap B S N ctx R" and c: "covers R C" by blast
  obtain l where l: "(a, l) \<in> R" using covers_region [OF c freed.hyps(2)] by blast
  show ?case
  proof (cases rule: gpuFree_heap [OF h l])
    case (1 ctx1)
    then show ?thesis using freed.hyps(3) covers_remove [OF c h l freed.hyps(2)] by auto
  qed
next
  case (copied ctx C a n d sz src rc src' ctx')
  then obtain R where h: "heap B S N ctx R" and c: "covers R C" by blast
  obtain l where l: "(a, l) \<in> R" "n \<le> l" using covers_region [OF c copied.hyps(2)] by blast
  have d: "d + unat sz \<le> l" using l(2) copied.hyps(3) by simp
  obtain s' where "gpuMemcpy ctx (word_of_nat (a + d)) src sz GPU_MEMCPY_H2D = Some (0, src, s')" "heap B S N s' R"
    using gpu.copy_in [OF h l(1) d copied.hyps(4)] by blast
  then show ?case using copied.hyps(5) c by auto
qed

end
