(* ===== verification/Demo.thy ===== *)
theory Demo
  imports Weight_Ops Driver_Ops Gpu_Trace
begin

text \<open>
  A concrete context: sixteen pages of zeroed memory, mapped at a fixed address, started by
  \<open>gpuInit\<close>.  The general theorems are applied to it to show that their hypotheses can be met.
\<close>

definition demo_base :: u64 where
  "demo_base = 0x10000000"

definition demo_mem :: "u64 \<Rightarrow> mem" where
  "demo_mem n = (\<lambda>x. if loc demo_base x < unat n then Some 0 else None)"

definition demo_host :: host where
  "demo_host = \<lparr>open_result = 3, mmap_result = demo_base, mmap_mem = demo_mem, open_fds = []\<rparr>"

definition blank_slab :: slab_cache where
  "blank_slab = \<lparr>object_size = 0, marker = 0, slot_list = 0, metas = []\<rparr>"

definition blank_ctx :: gpgpu_ctx where
  "blank_ctx = \<lparr>fd = 0, vram_mmap = 0, vram_size = 0,
     sh = \<lparr>buddy = \<lparr>free_list = (\<lambda>_. 0), page_order = (\<lambda>_. 0), vram_base = 0\<rparr>,
       vmem = (\<lambda>_. None), mallocs = []\<rparr>,
     ctx_slab_32 = blank_slab, ctx_slab_64 = blank_slab, ctx_slab_128 = blank_slab,
     ctx_slab_256 = blank_slab, ctx_slab_512 = blank_slab, ctx_slab_2048 = blank_slab\<rparr>"

definition demo_ctx :: gpgpu_ctx where
  "demo_ctx = (case gpuInit blank_ctx demo_host 65536 of Some (_, ctx, _) \<Rightarrow> ctx | None \<Rightarrow> blank_ctx)"

lemma demo_vram: "vram_at (demo_mem 65536) demo_base 65536"
  by (auto simp: vram_at_def demo_mem_def split: if_splits)

lemma demo_base_ok: "base_ok demo_base 65536 16"
  by (simp add: base_ok_def demo_base_def)

lemma demo_init:
  "gpuInit blank_ctx demo_host 65536 = Some (0, demo_ctx, demo_host\<lparr>open_fds := [3]\<rparr>)"
  "stocked demo_base 65536 16 demo_ctx {} 2"
proof -
  have h: "0 \<le> open_result demo_host" "mmap_result demo_host = demo_base" "demo_base \<noteq> MAP_FAILED"
    "vram_at (mmap_mem demo_host 65536) demo_base 65536" "\<forall>b\<in>set (mallocs (sh blank_ctx)). b"
    using demo_vram by (simp_all add: demo_host_def demo_base_def MAP_FAILED_def blank_ctx_def)
  have s: "(65536 :: nat) = unat (65536 :: u64)" "(16 :: nat) = 65536 div 4096" "6 \<le> (16 :: nat)" by simp_all
  obtain ctx' where "gpuInit blank_ctx demo_host 65536 =
      Some (0, ctx', demo_host\<lparr>open_fds := open_result demo_host # open_fds demo_host\<rparr>)"
    "stocked demo_base 65536 16 ctx' {} 2"
    by (rule gpuInit_heap [OF h(1,2,3) demo_base_ok s h(4,5)]) (rule that)
  then show "gpuInit blank_ctx demo_host 65536 = Some (0, demo_ctx, demo_host\<lparr>open_fds := [3]\<rparr>)"
    "stocked demo_base 65536 16 demo_ctx {} 2"
    by (simp_all add: demo_ctx_def demo_host_def)
qed

lemmas demo_heap = stocked_heap [OF demo_init(2)]

text \<open>Two requests that the fresh context meets.\<close>

lemma demo_alloc:
  assumes "unat m \<le> 2048" "unat n \<le> 2048"
  obtains a l b k ctx1 ctx2 where "gpuMalloc demo_ctx m = Some (word_of_nat a, ctx1)"
    "gpuMalloc ctx1 n = Some (word_of_nat b, ctx2)" "heap demo_base 65536 16 ctx1 {(a, l)}"
    "heap demo_base 65536 16 ctx2 {(b, k), (a, l)}" "(b, k) \<noteq> (a, l)" "unat m \<le> l" "unat n \<le> k"
proof -
  have s: "stocked demo_base 65536 16 demo_ctx {} (Suc 1)" using demo_init(2) by (simp add: numeral_2_eq_2)
  obtain a l ctx1 where 1: "gpuMalloc demo_ctx m = Some (word_of_nat a, ctx1)"
    "stocked demo_base 65536 16 ctx1 {(a, l)} 1" "unat m \<le> l"
    by (rule stocked_alloc [OF s assms(1)]) (rule that)
  have s1: "stocked demo_base 65536 16 ctx1 {(a, l)} (Suc 0)" using 1(2) by simp
  obtain b k ctx2 where 2: "gpuMalloc ctx1 n = Some (word_of_nat b, ctx2)"
    "stocked demo_base 65536 16 ctx2 {(b, k), (a, l)} 0" "(b, k) \<notin> {(a, l)}" "unat n \<le> k"
    by (rule stocked_alloc [OF s1 assms(2)]) (rule that)
  show thesis
    using 1 2 stocked_heap [OF 1(2)] stocked_heap [OF 2(2)] by (intro that [of a ctx1 b ctx2 l k]) auto
qed

text \<open>The buddy allocator alone, on the same memory.\<close>

definition demo_buddy :: "buddy_allocator \<times> mem" where
  "demo_buddy = (case buddy_init (demo_mem 65536) demo_base 65536 of Some (_, b, m) \<Rightarrow> (b, m) | None \<Rightarrow> undefined)"

lemma demo_buddy_inv:
  "buddy_init (demo_mem 65536) demo_base 65536 = Some (0, fst demo_buddy, snd demo_buddy)"
  "binv demo_base 65536 16 (fst demo_buddy) (snd demo_buddy) (ainit 21 16 0 (\<lambda>_. [])) {}"
proof -
  have z: "(65536 :: u64) = word_of_nat (4096 * 16 + 0)" "(0 :: nat) < 4096" by simp_all
  obtain b m where "buddy_init (demo_mem 65536) demo_base 65536 = Some (0, b, m)"
    "binv demo_base 65536 16 b m (ainit 21 16 0 (\<lambda>_. [])) {}"
    by (rule buddy_init_correct [OF demo_base_ok demo_vram z]) (rule that)
  then show "buddy_init (demo_mem 65536) demo_base 65536 = Some (0, fst demo_buddy, snd demo_buddy)"
    "binv demo_base 65536 16 (fst demo_buddy) (snd demo_buddy) (ainit 21 16 0 (\<lambda>_. [])) {}"
    by (simp_all add: demo_buddy_def)
qed

lemma demo_order: "find_order 5000 0 = 1"
  by (simp add: find_order.simps [of 5000 0] find_order.simps [of 5000 "Suc 0"] block_bytes_def PAGE_SIZE_def
      BUDDY_MAX_ORDER_def)

text \<open>Two distinguishable kernels to dispatch.\<close>

definition demo_args :: "nat \<Rightarrow> gpgpu_dispatch_args" where
  "demo_args n = \<lparr>kernel_addr = word_of_nat n, kernel_args = word_of_nat (n + 1), grid_dim = (1, 1, 1),
     block_dim = (32, 1, 1), shared_mem_size = 0\<rparr>"

text \<open>A kernel that grants the probe handler everything.\<close>

definition demo_env :: probe_env where
  "demo_env = \<lparr>kmalloc = True, pci_enable_device = 0, pci_request_regions = 0, pci_iomap = (\<lambda>_. True),
     alloc_chrdev_region = 0, cdev_add = 0, class_create = 0, device_create = 0, pci_alloc_irq_vectors = 1,
     request_irq = 0\<rparr>"

text \<open>A file system without files.\<close>

definition empty_fs :: file_system where
  "empty_fs = \<lparr>stat_size = (\<lambda>_. None), content = (\<lambda>_. None)\<rparr>"

text \<open>A small cache in the fresh context: two layers, one head, two positions, two floats a row.\<close>

definition demo_cache :: "nat \<Rightarrow> nat \<Rightarrow> kv_cache" where
  "demo_cache a b = \<lparr>num_layers = 2, num_kv_heads = 1, max_seq = 2, head_dim = 2, K_dev_off = word_of_nat a,
     V_dev_off = word_of_nat b, filled = 0, pending = 0\<rparr>"

lemma demo_kv:
  obtains a l b k ctx where "heap demo_base 65536 16 ctx {(b, k), (a, l)}"
    "kv_ok {(b, k), (a, l)} (demo_cache a b) (a, l) (b, k)"
proof -
  have n: "unat (32 :: u64) \<le> 2048" by simp
  obtain a l b k ctx where "heap demo_base 65536 16 ctx {(b, k), (a, l)}" "(b, k) \<noteq> (a, l)"
    "unat (32 :: u64) \<le> l" "unat (32 :: u64) \<le> k"
    by (rule demo_alloc [OF n n]) (rule that)
  then show thesis
    by (intro that [of ctx b k a l]) (auto simp: kv_ok_def demo_cache_def kv_bytes_def)
qed

end
