(* ===== verification/Demo_Step.thy ===== *)
theory Demo_Step
  imports Transformer_Refine Demo
begin

text \<open>
  A concrete setting for a step: a device that finds out the kernel from the first byte of its code, and
  all objects side by side in four gigabytes of memory.
\<close>

definition field_list :: "ws_field list" where
  "field_list = [RESID_A, RESID_B, SCRATCH_X, SCRATCH_Q, SCRATCH_K, SCRATCH_V, SCRATCH_SCORES,
     SCRATCH_FFN_A, SCRATCH_FFN_B, LOGITS, sincos_off, token_id_buf_off, argmax_debug_off,
     kbin_rmsnorm, kbin_gemm, kbin_broadcast_add, kbin_silu, kbin_vmul, kbin_rope, kbin_embedding,
     kbin_argmax, kbin_qkt_decode, kbin_softmax_decode, kbin_pv_decode,
     args_rmsnorm, args_gemm, args_broadcast_add, args_silu, args_vmul, args_rope, args_embedding,
     args_argmax, args_qkt_decode, args_softmax_decode, args_pv_decode]"

definition field_index :: "ws_field \<Rightarrow> nat" where
  "field_index f = length (takeWhile (\<lambda>g. g \<noteq> f) field_list)"

lemma field_index: "field_list ! field_index f = f" "field_index f < 35"
  by (cases f; simp add: field_index_def field_list_def)+

lemma field_index_le: "field_index f \<le> 34"
  using field_index(2) [of f] by simp

lemma field_index_inj [simp]: "field_index f = field_index g \<longleftrightarrow> f = g"
  using field_index(1) by metis

definition demo_code :: "ws_field \<Rightarrow> u8 list" where
  "demo_code k = [word_of_nat (field_index k)]"

lemma demo_code_inj [simp]: "demo_code k = demo_code l \<longleftrightarrow> k = l"
proof
  assume "demo_code k = demo_code l"
  then have "unat (word_of_nat (field_index k) :: u8) = unat (word_of_nat (field_index l) :: u8)" by (simp add: demo_code_def)
  then show "k = l" using field_index(2) [of k] field_index(2) [of l] by (simp add: unat_of_nat)
qed simp

text \<open>A floating point unit in which every sine is 0 and every cosine is 1.\<close>

definition flat_fpu :: fpu where
  "flat_fpu = \<lparr>f_of_int = (\<lambda>_. 0), f_sub = (\<lambda>_ _. 0), f_mul = (\<lambda>_ _. 0), f_div = (\<lambda>_ _. 0), f_gt = (\<lambda>a b. b < a),
     fabsf = (\<lambda>a. a), powf = (\<lambda>_ _. 0), sqrtf = (\<lambda>_. 0), cosf = (\<lambda>_. F_ONE), sinf = (\<lambda>_. 0)\<rparr>"

definition no_dump :: dump_state where
  "no_dump = \<lparr>last_step_id = -1, mkdir_ok = (\<lambda>_. True), fopen_ok = (\<lambda>_. True), uninit = (\<lambda>_. 0), dumped = []\<rparr>"

definition demo_kernels :: kernel_fun where
  "demo_kernels k sc xs j i = (if k = kbin_argmax \<and> i = 0 then 42 else 0)"

definition demo_dispatch :: dispatch_call where
  "demo_dispatch f d m = (case find (\<lambda>k. launch_effect demo_kernels demo_code demo_base k d m \<noteq> None) kernels of
     Some k \<Rightarrow> (0, the (launch_effect demo_kernels demo_code demo_base k d m)) | None \<Rightarrow> (-1, m))"

definition demo_machine :: machine where
  "demo_machine = \<lparr>mfpu = flat_fpu, mioctl = demo_dispatch, DUMP_INTERMEDIATES = False\<rparr>"

lemma launch_effect_code:
  "launch_effect KF code B k d m = Some m' \<Longrightarrow> load_bytes m (B + kernel_addr d) (length (code k)) = Some (code k)"
  by (auto simp: launch_effect_def guard_def split: bind_splits if_splits)

lemma demo_device: "device_runs demo_kernels demo_code demo_base demo_machine"
proof -
  have u: "k = l" if "launch_effect demo_kernels demo_code demo_base k d m = Some m1"
    "launch_effect demo_kernels demo_code demo_base l d m = Some m2" for k l d m m1 m2
    using that [THEN launch_effect_code] by (simp add: demo_code_def) (metis demo_code_def demo_code_inj)
  have "demo_dispatch f d m = (0, m')" if e: "launch_effect demo_kernels demo_code demo_base k d m = Some m'" for f k d m m'
  proof -
    have "kernel_io (rd32 demo_base m) k args g = None" if "k \<notin> set kernels" for args g
      using that by (cases k) (simp_all add: kernels_def kernel_plan_def kernel_io_def)
    then have "k \<in> set kernels" using e by (intro ccontr [of "k \<in> set kernels"]) (auto simp: launch_effect_def split: bind_splits)
    then obtain l where "find (\<lambda>k. launch_effect demo_kernels demo_code demo_base k d m \<noteq> None) kernels = Some l"
      using e by (metis (mono_tags, lifting) find_None_iff not_None_eq)
    moreover from this have "launch_effect demo_kernels demo_code demo_base l d m \<noteq> None" by (auto simp: find_Some_iff)
    ultimately show ?thesis using u [OF e] e by (auto simp: demo_dispatch_def)
  qed
  then show ?thesis by (auto simp: device_runs_def demo_machine_def)
qed

subsection \<open>The places\<close>

definition demo_reg :: "slot \<Rightarrow> region" where
  "demo_reg s = (case s of
     Buf f \<Rightarrow> (1048576 * field_index f, 1048576)
   | Weight L t \<Rightarrow> if L < 24 then (67108864 * (L + 1) + fst (TENSOR_TABLE t), 4 * snd (TENSOR_TABLE t)) else (0, 0)
   | Embedding \<Rightarrow> (67108864 * 25, WL_EMBEDDING_BYTES)
   | Lm_Head \<Rightarrow> (67108864 * 34, WL_LM_HEAD_BYTES)
   | Final_Norm \<Rightarrow> (67108864 * 43, WL_FINAL_NORM_BYTES)
   | K_cache \<Rightarrow> (67108864 * 44, 1572864)
   | V_cache \<Rightarrow> (67108864 * 45, 1572864))"

definition demo_workspace :: transformer_workspace where
  "demo_workspace = \<lparr>ws_wl = \<lparr>region_base = [], region_bytes = [], embedding_addr = 67108864 * 25, lm_head_addr = 67108864 * 34,
       final_norm_addr = 67108864 * 43, layer_base = map (\<lambda>L. word_of_nat (67108864 * (L + 1))) [0..<24]\<rparr>,
     ws_cfg = transformer_default_config, ws_off = (\<lambda>f. word_of_nat (1048576 * field_index f))\<rparr>"

definition demo_state :: run_state where
  "demo_state = \<lparr>rctx = blank_ctx\<lparr>vram_mmap := demo_base, sh := (sh blank_ctx)\<lparr>vmem :=
       (\<lambda>x. if loc demo_base x < 4294967296 then Some (word_of_nat (loc demo_base x div 1048576)) else None)\<rparr>\<rparr>,
     rkv = \<lparr>num_layers = 24, num_kv_heads = 2, max_seq = 128, head_dim = 64, K_dev_off = 67108864 * 44, V_dev_off = 67108864 * 45,
       filled = 0, pending = 0\<rparr>,
     rdump = no_dump\<rparr>"

definition demo_setting :: setting where
  "demo_setting = \<lparr>s_kf = demo_kernels, s_code = demo_code, s_base = demo_base, s_from = (4294967296, rctx demo_state), s_reg = demo_reg,
     s_mach = demo_machine, s_ws = demo_workspace, s_pos = 0\<rparr>"

lemma tensor_nonempty: "snd (TENSOR_TABLE t) \<noteq> 0"
  by (cases t) (simp_all add: wl_defs)

lemma demo_layer: "67108864 * (L + 1) + fst (TENSOR_TABLE t) + 4 * snd (TENSOR_TABLE t) \<le> 67108864 * (L + 2)"
  using tensor_in_layer [of t] by (simp add: wl_defs)

definition demo_pages :: "slot \<Rightarrow> nat \<times> nat" where
  "demo_pages s = (case s of Buf f \<Rightarrow> (0, 1) | Weight L t \<Rightarrow> (L + 1, L + 2) | Embedding \<Rightarrow> (25, 34) | Lm_Head \<Rightarrow> (34, 43)
     | Final_Norm \<Rightarrow> (43, 44) | K_cache \<Rightarrow> (44, 45) | V_cache \<Rightarrow> (45, 46))"

lemma demo_reg_pages:
  assumes "snd (demo_reg s) \<noteq> 0"
  shows "67108864 * fst (demo_pages s) \<le> fst (demo_reg s)" "fst (demo_reg s) + snd (demo_reg s) \<le> 67108864 * snd (demo_pages s)"
    "snd (demo_pages s) \<le> 46"
  using assms demo_layer field_index_le
  by (auto simp: demo_reg_def demo_pages_def wl_defs split: slot.splits if_splits intro: order_trans [OF field_index_le])

lemma rbytes_apart: "fst r + snd r \<le> fst q \<or> fst q + snd q \<le> fst r \<Longrightarrow> rbytes r \<inter> rbytes q = {}"
  by (auto simp: rbytes_def)

lemma demo_apart:
  assumes "s \<noteq> t" shows "rbytes (demo_reg s) \<inter> rbytes (demo_reg t) = {}"
proof (cases "snd (demo_reg s) = 0 \<or> snd (demo_reg t) = 0")
  case False
  have "snd (demo_pages s) \<le> fst (demo_pages t) \<or> snd (demo_pages t) \<le> fst (demo_pages s) \<or>
      (\<exists>f g. s = Buf f \<and> t = Buf g) \<or> (\<exists>L u v. s = Weight L u \<and> t = Weight L v)"
    using False assms by (auto simp: demo_pages_def demo_reg_def split: slot.splits if_splits)
  then consider "snd (demo_pages s) \<le> fst (demo_pages t)" | "snd (demo_pages t) \<le> fst (demo_pages s)"
    | f g where "s = Buf f" "t = Buf g" | L u v where "s = Weight L u" "t = Weight L v" by blast
  then show ?thesis
  proof cases
    case (3 f g)
    then have "field_index f < field_index g \<or> field_index g < field_index f" using assms by (simp flip: nat_neq_iff)
    then show ?thesis using 3 by (intro rbytes_apart) (auto simp: demo_reg_def)
  next
    case (4 L u v)
    then show ?thesis using assms tensors_apart [of u v] by (intro rbytes_apart) (auto simp: demo_reg_def)
  qed (use demo_reg_pages [of s] demo_reg_pages [of t] False in \<open>intro rbytes_apart; auto\<close>)+
qed (auto simp: rbytes_def)

lemma demo_memory: "mem_ok demo_base (4294967296, rctx demo_state) demo_reg (rctx demo_state)"
proof -
  have "fst (demo_reg s) + snd (demo_reg s) \<le> 4294967296" for s
  proof (cases "snd (demo_reg s) = 0")
    case True
    then have "demo_reg s = (0, 0)" by (cases s) (auto simp: demo_reg_def wl_defs tensor_nonempty split: if_splits)
    then show ?thesis by simp
  next
    case False
    then show ?thesis using demo_reg_pages(2,3) [OF False] by linarith
  qed
  moreover have "rbytes r \<inter> rbytes q = {}" if "r \<in> range demo_reg" "q \<in> range demo_reg" "r \<noteq> q" for r q
    using that demo_apart by (metis imageE)
  ultimately show ?thesis
    using demo_apart by (auto simp: mem_ok_def arena_def demo_state_def vram_at_def dom_def split: if_splits)
qed

lemma demo_sizes: "slot_size demo_setting s \<le> snd (demo_reg s)"
proof (cases s)
  case (Buf f)
  then show ?thesis
    by (cases f) (simp_all add: slot_size_def demo_reg_def demo_setting_def demo_code_def scratch_plan_def args_plan_def
      size4_def kv_dim_def transformer_default_config_def)
qed (simp_all add: slot_size_def demo_reg_def)

lemma demo_setting_ok: "setting_ok demo_setting"
proof -
  have "weight_loader_layer (ws_wl demo_workspace) (int L) t = Some (word_of_nat (fst (demo_reg (Weight L t))))" if "L < 24" for L t
    using that by (simp add: weight_loader_layer_def demo_workspace_def demo_reg_def WL_NUM_LAYERS_def guard_def del: upt_Suc)
  then show ?thesis
    using demo_device demo_sizes
    by (auto simp: setting_ok_def demo_setting_def demo_workspace_def demo_reg_def demo_code_def weight_loader_embedding_def
      weight_loader_lm_head_def weight_loader_final_norm_def)
qed

lemma demo_state_ok: "state_ok demo_setting demo_state"
proof -
  have "take 1 (rdata (rctx demo_state) (demo_reg (Buf k))) = [word_of_nat (field_index k)]" for k
  proof -
    have "loc demo_base (ofs demo_base (1048576 * field_index k)) = 1048576 * field_index k"
      using field_index_le [of k] unat_of_nat64 [of "1048576 * field_index k"]
      by (simp add: loc_def)
    then show ?thesis
      using field_index_le [of k] by (simp add: rdata_def demo_reg_def get_bytes_def take_map demo_state_def)
  qed
  then show ?thesis
    using demo_memory
    by (simp add: state_ok_def demo_setting_def kv_fits_def demo_reg_def demo_state_def blank_ctx_def Device.held_def demo_code_def)
qed

end
