(* ===== verification/Infer_Props.thy ===== *)
theory Infer_Props
  imports Infer_Live Demo_Step
begin

text \<open>
  What the inference program does as a whole, on a host whose device runs the kernels.
\<close>

subsection \<open>A machine with weights, kernels and a prompt\<close>















section \<open>The program\<close>



end
