(* ===== verification/Step_Props.thy ===== *)
theory Step_Props
  imports Demo_Step
begin

text \<open>
  What a step of the transformer computes, on a device that runs the kernels.
\<close>

section \<open>One token\<close>

text \<open>
  C2.  \<open>transformer_step\<close> computes the decoder, on a device that runs the kernels and a host with memory:
  the bytes that the kernels write through shared and reused buffers are the values that flow through the
  24 layers of the model, the token it returns is the argument of the largest logit, the cache has the rows
  of the new position in every layer and head and keeps all others, and the weights, the table and the
  kernels are as before.
\<close>

theorem transformer_step_computes:
  assumes "setting_ok P" "state_ok P st" "filled (rkv st) = word_of_nat (s_pos P)" "pending (rkv st) = 0"
    "0 \<le> tok" "tok < 151936"
    "spec_step (s_kf P) (mfpu (s_mach P)) (weights_of (abs_of P st)) (s_pos P) (nat tok) (a_K (abs_of P st), a_V (abs_of P st)) = (K, V, t)"
  shows "\<exists>st'. transformer_step (s_mach P) (s_ws P) tok (int (s_pos P)) sid st = Some (sint (of_bytes t :: u32), st') \<and>
    state_ok P st' \<and> a_K (abs_of P st') = K \<and> a_V (abs_of P st') = V \<and> weights_of (abs_of P st') = weights_of (abs_of P st) \<and>
    rkv st' = (rkv st)\<lparr>filled := filled (rkv st) + 1\<rparr>"
  using assms by (rule step_computes)

theorem transformer_step_computes_witness:
  "\<exists>st'. transformer_step demo_machine demo_workspace 7 0 (-1) demo_state = Some (42, st') \<and>
     state_ok demo_setting st' \<and> filled (rkv st') = 1"
proof -
  let ?x = "abs_of demo_setting demo_state"
  obtain K V t where s: "spec_step demo_kernels flat_fpu (weights_of ?x) 0 (nat 7) (a_K ?x, a_V ?x) = (K, V, t)"
    by (metis prod_cases3)
  then have t: "t = [42, 0, 0, 0]"
    by (auto simp: spec_step_def spec_head_def spec_argmax_def result_def demo_kernels_def upt_rec split: prod.splits)
  have "sint (of_bytes [42, 0, 0, 0] :: u32) = 42" by (simp add: of_bytes_def)
  then show ?thesis
    using transformer_step_computes [OF demo_setting_ok demo_state_ok, of 7 K V t "-1"] s t
    by (auto simp: demo_setting_def demo_machine_def demo_state_def)
qed

end
