(* ===== verification/Alloc_Props.thy ===== *)
theory Alloc_Props
  imports Demo
begin

text \<open>
  What the allocator stack guarantees to its callers: the buddy allocator of \<open>lib/src/buddy.c\<close>, the
  slab caches of \<open>lib/src/slab_cache.c\<close> and the \<open>gpuMalloc\<close> family of \<open>lib/libgpgpu.c\<close> on top of both.
  Each statement is followed by its application to the context of theory \<open>Demo\<close>.
\<close>

section \<open>The buddy allocator\<close>

text \<open>
  C3.  A request the free lists can meet is met: \<open>buddy_alloc\<close> returns the offset of a block of
  the smallest order that holds the size, aligned to its own size and inside the memory, whose
  pages were in no allocated block; the block is recorded in \<open>page_order\<close>, the invariant holds
  for the allocated blocks with the new one, and no byte outside the free pages has changed.
\<close>

theorem buddy_alloc_fresh:
  assumes "binv B S N alloc m F A" "find_order sz 0 < 21"
    "\<exists>j. find_order sz 0 \<le> j \<and> j < 21 \<and> F j \<noteq> []"
  shows "\<exists>p k F' alloc' m'. buddy_alloc alloc m sz = Some (word_of_nat (4096 * p), alloc', m') \<and>
    binv B S N alloc' m' F' (insert (p, k) A) \<and> pages (p, k) \<inter> used_pages A = {} \<and>
    unat sz \<le> 4096 * 2 ^ k \<and> (k = 0 \<or> 4096 * 2 ^ (k - 1) < unat sz) \<and>
    2 ^ k dvd p \<and> p + 2 ^ k \<le> N \<and> page_order alloc' p = word_of_nat k \<and>
    pframe B ({..<N} - used_pages A) m m'"
proof -
  let ?k = "find_order sz 0"
  obtain p F' alloc' m' where r: "buddy_alloc alloc m sz = Some (word_of_nat (4096 * p), alloc', m')"
    "binv B S N alloc' m' F' (insert (p, ?k) A)" "(p, ?k) \<notin> A"
    "page_order alloc' = (page_order alloc)(p := word_of_nat ?k)"
    "pframe B ({..<N} - used_pages A) m m'" "unat sz \<le> 4096 * 2 ^ ?k"
    by (rule buddy_alloc_correct [OF assms(1) refl assms(2,3)]) (rule that)
  have "pages (p, ?k) \<inter> used_pages A = {}"
    using pending_pages_free [OF binvD(4) [OF r(2)] r(3)] by blast
  moreover have "2 ^ ?k dvd p" "p + 2 ^ ?k \<le> N"
    using wf_lists_fblock(2,3) [OF binvD(4) [OF r(2)], of p ?k] by auto
  moreover have "?k = 0 \<or> 4096 * 2 ^ (?k - 1) < unat sz"
    using find_order_spec [of 0 sz] by (cases ?k) auto
  ultimately show ?thesis using r by (intro exI [of _ p] exI [of _ ?k] exI) auto
qed

theorem buddy_alloc_fresh_witness:
  "\<exists>p k F' alloc' m'. buddy_alloc (fst demo_buddy) (snd demo_buddy) 5000 = Some (word_of_nat (4096 * p), alloc', m') \<and>
    binv demo_base 65536 16 alloc' m' F' (insert (p, k) {}) \<and> unat (5000 :: u64) \<le> 4096 * 2 ^ k"
proof -
  have "\<exists>j. find_order 5000 0 \<le> j \<and> j < 21 \<and> ainit 21 16 0 (\<lambda>_. []) j \<noteq> []"
    unfolding demo_order by (rule empty_room [OF binvD(4) [OF demo_buddy_inv(2)]]) simp_all
  moreover have "find_order 5000 0 < 21" by (simp add: demo_order)
  ultimately show ?thesis using buddy_alloc_fresh [OF demo_buddy_inv(2), of 5000] by blast
qed



text \<open>
  C5.  \<open>buddy_free\<close> of an allocated block returns 0, ends, and gives the block back: the invariant
  holds for the other allocated blocks, in particular no two buddies stay free side by side, and
  neither their bytes nor their entries of \<open>page_order\<close> have changed.
\<close>

theorem buddy_free_gives_back:
  assumes "binv B S N alloc m F A" "(p, k) \<in> A" "page_order alloc p = word_of_nat k"
  shows "\<exists>F' alloc' m'. buddy_free alloc m (word_of_nat (4096 * p)) = Some (0, alloc', m') \<and>
    binv B S N alloc' m' F' (A - {(p, k)}) \<and> coalesced F' \<and>
    (\<forall>x\<in>used_pages (A - {(p, k)}). page_order alloc' x = page_order alloc x) \<and>
    pframe B ({..<N} - used_pages (A - {(p, k)})) m m'"
proof -
  have "binv B S N alloc m F (insert (p, k) (A - {(p, k)}))" using assms(1,2) by (simp add: insert_absorb)
  from buddy_free_correct [OF this _ assms(3)] obtain alloc' m' where
    r: "buddy_free alloc m (word_of_nat (4096 * p)) = Some (0, alloc', m')"
      "binv B S N alloc' m' (afree F p k) (A - {(p, k)})"
      "\<forall>x. x \<notin> {..<N} - used_pages (A - {(p, k)}) \<longrightarrow> page_order alloc' x = page_order alloc x"
      "pframe B ({..<N} - used_pages (A - {(p, k)})) m m'" by auto
  then show ?thesis using wf_listsD(5) [OF binvD(4) [OF r(2)]] by blast
qed

theorem buddy_free_gives_back_witness:
  "\<exists>off alloc m alloc' m' F'. buddy_alloc (fst demo_buddy) (snd demo_buddy) 5000 = Some (off, alloc, m) \<and>
    buddy_free alloc m off = Some (0, alloc', m') \<and> binv demo_base 65536 16 alloc' m' F' {}"
proof -
  have o: "find_order 5000 0 < 21" "\<exists>j. find_order 5000 0 \<le> j \<and> j < 21 \<and> ainit 21 16 0 (\<lambda>_. []) j \<noteq> []"
    unfolding demo_order by (simp, rule empty_room [OF binvD(4) [OF demo_buddy_inv(2)]]) simp_all
  obtain p F alloc m where a: "buddy_alloc (fst demo_buddy) (snd demo_buddy) 5000 = Some (word_of_nat (4096 * p), alloc, m)"
    "binv demo_base 65536 16 alloc m F (insert (p, find_order 5000 0) {})"
    "page_order alloc = (page_order (fst demo_buddy))(p := word_of_nat (find_order 5000 0))"
    by (rule buddy_alloc_correct [OF demo_buddy_inv(2) refl o]) (rule that)
  have "page_order alloc p = word_of_nat (find_order 5000 0)" using a(3) by simp
  from buddy_free_gives_back [OF a(2) insertI1 this] a(1) show ?thesis by auto
qed



text \<open>
  C7.  \<open>buddy_init\<close> on a mapped region of any size up to 4 GiB, not only a power of two, returns 0
  and establishes the invariant with every whole page free and none allocated.
\<close>

theorem buddy_init_establishes:
  assumes "base_ok B S N" "vram_at m B S" "vsize = word_of_nat (4096 * N + rest)" "rest < 4096"
  shows "\<exists>alloc m' F. buddy_init m B vsize = Some (0, alloc, m') \<and> binv B S N alloc m' F {} \<and>
    (\<Union>b\<in>fblocks F. pages b) = {..<N}"
proof -
  obtain alloc m' where r: "buddy_init m B vsize = Some (0, alloc, m')"
    "binv B S N alloc m' (ainit 21 N 0 (\<lambda>_. [])) {}"
    by (rule buddy_init_correct [OF assms]) (rule that)
  then show ?thesis using free_pages [OF binvD(4) [OF r(2)]] by auto
qed

theorem buddy_init_establishes_witness:
  "\<exists>alloc m' F. buddy_init (demo_mem 65536) demo_base 65536 = Some (0, alloc, m') \<and>
    binv demo_base 65536 16 alloc m' F {} \<and> (\<Union>b\<in>fblocks F. pages b) = {..<16}"
  using buddy_init_establishes [OF demo_base_ok demo_vram, of 65536 0] by simp

section \<open>The slab caches\<close>

text \<open>
  C8.  \<open>slab_alloc\<close> returns.  It hands out a slot that was not handed out before and keeps the
  invariants of the cache and of the buddy allocator, growing by a page that nobody used when the
  slot list is empty; or it returns -1, only when the slot list is empty and there is no free page
  or no host memory, and then the slots in use and the pages are as before.  No byte outside the
  free pages changes.
\<close>

theorem slab_alloc_outcome:
  assumes "binv B S N (buddy s) (vmem s) F A" "sinv B N osz c (vmem s) L Ps" "slab_pages Ps \<subseteq> A"
  shows "\<exists>r c' s' F' L' Ps'. slab_alloc c s = Some (r, c', s') \<and>
    binv B S N (buddy s') (vmem s') F' (A \<union> slab_pages Ps') \<and> sinv B N osz c' (vmem s') L' Ps' \<and>
    set Ps \<subseteq> set Ps' \<and> (set Ps' - set Ps) \<inter> used_pages A = {} \<and>
    pframe B ({..<N} - used_pages A) (vmem s) (vmem s') \<and>
    (r = -1 \<and> L = [] \<and> (\<not> has_room F \<or> \<not> fst (malloc s)) \<and> Ps' = Ps \<and> L' = L \<or>
     (\<exists>x. r = word_of_nat x \<and> x \<notin> live_slots osz L Ps \<and>
        live_slots osz L' Ps' = insert x (live_slots osz L Ps)))"
proof (cases rule: slab_alloc_cases [OF assms])
  case (1 s' F')
  then show ?thesis
    using assms(3) by (intro exI [of _ "-1"] exI [of _ c] exI [of _ s'] exI [of _ F'] exI [of _ L] exI [of _ Ps])
      (simp add: sup_absorb1)
next
  case (2 x c' s' F' L' Ps')
  then show ?thesis
    by (intro exI [of _ "word_of_nat x"] exI [of _ c'] exI [of _ s'] exI [of _ F'] exI [of _ L'] exI [of _ Ps'])
      blast
qed

theorem slab_alloc_outcome_witness:
  "\<exists>r c' s'. slab_alloc (slab_at demo_ctx slab_64) (sh demo_ctx) = Some (r, c', s')"
proof -
  obtain F U L P where "ginv demo_base 65536 16 demo_ctx F U L P" using demo_heap by (rule heapE)
  from slab_alloc_outcome [OF ginvD(2) [OF this] ginvD(3) [OF this, of slab_64] slab_pages_all]
  show ?thesis by auto
qed



section \<open>The runtime\<close>

text \<open>
  C10.  On a heap \<open>gpuMalloc\<close> always returns.  It returns -1 and the same regions are in use, or the
  offset of a region of at least the requested size, which overlaps none of the regions in use and
  lies inside the mapped memory.  In both cases every region in use keeps its bytes.
\<close>

theorem gpuMalloc_fresh_region:
  assumes "heap B S N ctx R"
  shows "\<exists>off ctx'. gpuMalloc ctx sz = Some (off, ctx') \<and> (\<forall>r\<in>R. rdata ctx' r = rdata ctx r) \<and>
    (off = -1 \<and> heap B S N ctx' R \<or>
     off \<noteq> -1 \<and> (\<exists>l. unat sz \<le> l \<and> heap B S N ctx' (insert (unat off, l) R) \<and>
        unat off + l \<le> S \<and> (\<forall>r\<in>R. rbytes r \<inter> {unat off ..< unat off + l} = {})))"
proof (cases rule: gpuMalloc_heap [OF assms, of sz])
  case (1 ctx')
  then show ?thesis by (intro exI [of _ "-1"] exI [of _ ctx']) (simp add: same_data_def)
next
  case (2 a l ctx')
  obtain F U L P where g: "ginv B S N ctx' F U L P" using 2(2) by (rule heapE)
  have u: "unat (word_of_nat a :: u64) = a" "word_of_nat a \<noteq> (-1 :: u64)"
    using gpu.addr_valid [OF 2(2), of a l] by auto
  have "a + l \<le> S"
    using heap_bounds [OF 2(2), of "(a, l)"] base_okD(3) [OF binvD(1) [OF ginvD(2) [OF g]]] by simp
  moreover have "rbytes r \<inter> {a ..< a + l} = {}" if "r \<in> R" for r
    using heap_disjoint [OF 2(2), of r "(a, l)"] that 2(3) by (auto simp: rbytes_def)
  ultimately have "\<exists>l. unat sz \<le> l \<and> heap B S N ctx' (insert (a, l) R) \<and> a + l \<le> S \<and>
      (\<forall>r\<in>R. rbytes r \<inter> {a ..< a + l} = {})" using 2(2,4) by blast
  then show ?thesis
    using 2(1,5) u by (intro exI [of _ "word_of_nat a"] exI [of _ ctx']) (simp add: same_data_def)
qed

theorem gpuMalloc_fresh_region_witness:
  "\<exists>off ctx'. gpuMalloc demo_ctx 100 = Some (off, ctx') \<and>
    (off = -1 \<and> heap demo_base 65536 16 ctx' {} \<or>
     off \<noteq> -1 \<and> (\<exists>l. unat (100 :: u64) \<le> l \<and> heap demo_base 65536 16 ctx' {(unat off, l)}))"
  using gpuMalloc_fresh_region [OF demo_heap, of 100] by auto

text \<open>
  C11.  \<open>gpuFree\<close> of the offset of a region in use returns 0, whichever allocator the region came
  from: exactly this region leaves the regions in use, and every other one keeps its bytes.
\<close>

theorem gpuFree_region:
  assumes "heap B S N ctx R" "(a, l) \<in> R"
  shows "\<exists>ctx'. gpuFree ctx (word_of_nat a) = Some (0, ctx') \<and> heap B S N ctx' (R - {(a, l)}) \<and>
    (\<forall>r\<in>R - {(a, l)}. rdata ctx' r = rdata ctx r)"
  by (rule gpu.free_ok [OF assms])

theorem gpuFree_region_witness:
  "\<exists>off ctx ctx'. gpuMalloc demo_ctx 500 = Some (off, ctx) \<and> gpuFree ctx off = Some (0, ctx') \<and>
    heap demo_base 65536 16 ctx' {}"
proof -
  have n: "unat (500 :: u64) \<le> 2048" by simp
  obtain a l ctx where m: "gpuMalloc demo_ctx 500 = Some (word_of_nat a, ctx)" "heap demo_base 65536 16 ctx {(a, l)}"
    by (rule demo_alloc [OF n n]) (rule that)
  from gpuFree_region [OF m(2) insertI1] m(1) show ?thesis by auto
qed

text \<open>
  C12.  What is copied into a region with \<open>gpuMemcpy\<close>, at any offset at which it fits, is read back
  by \<open>gpuMemcpy\<close> in the other direction, and the allocators still work: the invariant of the heap
  holds after the copy.
\<close>

theorem gpuMemcpy_round_trip:
  assumes "heap B S N ctx R" "(a, l) \<in> R" "d + unat n \<le> l" "unat n \<le> length src" "unat n \<le> length dst"
  shows "\<exists>ctx'. gpuMemcpy ctx (word_of_nat (a + d)) src n GPU_MEMCPY_H2D = Some (0, src, ctx') \<and>
    heap B S N ctx' R \<and>
    gpuMemcpy ctx' (word_of_nat (a + d)) dst n GPU_MEMCPY_D2H =
      Some (0, take (unat n) src @ drop (unat n) dst, ctx')"
  by (rule gpu.copy_round_trip [OF assms])

theorem gpuMemcpy_round_trip_witness:
  "\<exists>off ctx ctx'. gpuMalloc demo_ctx 16 = Some (off, ctx) \<and>
    gpuMemcpy ctx off [1, 2, 3] 3 GPU_MEMCPY_H2D = Some (0, [1, 2, 3], ctx') \<and>
    gpuMemcpy ctx' off [0, 0, 0] 3 GPU_MEMCPY_D2H = Some (0, [1, 2, 3], ctx')"
proof -
  have n: "unat (16 :: u64) \<le> 2048" by simp
  obtain a l ctx where m: "gpuMalloc demo_ctx 16 = Some (word_of_nat a, ctx)" "heap demo_base 65536 16 ctx {(a, l)}"
    "unat (16 :: u64) \<le> l"
    by (rule demo_alloc [OF n n]) (rule that)
  have "0 + unat (3 :: u64) \<le> l" using m(3) by simp
  from gpuMemcpy_round_trip [OF m(2) insertI1 this, of "[1, 2, 3]" "[0, 0, 0]"] m(1) show ?thesis by auto
qed

text \<open>
  C13.  Over any sequence of requests, releases and copies of a process, the allocations the process
  holds do not overlap each other, start at different offsets and lie inside the mapped memory.
\<close>

theorem allocations_never_overlap:
  assumes "gpu_reach ctx0 ctx C" "heap B S N ctx0 {}" "(a, n) \<in> C" "(b, k) \<in> C" "(a, n) \<noteq> (b, k)"
  shows "a \<noteq> b \<and> {a ..< a + n} \<inter> {b ..< b + k} = {} \<and> a + n \<le> S"
proof -
  obtain R where h: "heap B S N ctx R" and c: "covers R C" using reach_covers [OF assms(1,2)] by blast
  obtain l m where l: "(a, l) \<in> R" "n \<le> l" and m: "(b, m) \<in> R" "k \<le> m"
    using covers_region [OF c assms(3)] covers_region [OF c assms(4)] by blast
  have ne: "a \<noteq> b" using c assms(3-5) unfolding covers_def by blast
  then have "rbytes (a, l) \<inter> rbytes (b, m) = {}" using heap_disjoint [OF h l(1) m(1)] by simp
  then have "{a ..< a + n} \<inter> {b ..< b + k} = {}" using l(2) m(2) by (auto simp: rbytes_def)
  moreover obtain F U L P where "ginv B S N ctx F U L P" using h by (rule heapE)
  then have "4096 * N \<le> S" using base_okD(3) [OF binvD(1) [OF ginvD(2)]] by blast
  ultimately show ?thesis using ne heap_bounds [OF h l(1)] l(2) by simp
qed

theorem allocations_never_overlap_witness:
  "\<exists>off1 off2 ctx1 ctx2. gpuMalloc demo_ctx 40 = Some (off1, ctx1) \<and> gpuMalloc ctx1 900 = Some (off2, ctx2) \<and>
    unat off1 \<noteq> unat off2 \<and> {unat off1 ..< unat off1 + 40} \<inter> {unat off2 ..< unat off2 + 900} = {}"
proof -
  have n: "unat (40 :: u64) \<le> 2048" "unat (900 :: u64) \<le> 2048" by simp_all
  obtain a l b k ctx1 ctx2 where m: "gpuMalloc demo_ctx 40 = Some (word_of_nat a, ctx1)"
    "gpuMalloc ctx1 900 = Some (word_of_nat b, ctx2)" "heap demo_base 65536 16 ctx1 {(a, l)}"
    "heap demo_base 65536 16 ctx2 {(b, k), (a, l)}"
    by (rule demo_alloc [OF n]) (rule that)
  let ?a = "word_of_nat a :: u64" and ?b = "word_of_nat b :: u64"
  have v: "?a \<noteq> -1" "?b \<noteq> -1" using gpu.addr_valid(1) [OF m(3)] gpu.addr_valid(1) [OF m(4)] by auto
  have "gpu_reach demo_ctx ctx2 (insert (unat ?b, unat (900 :: u64)) (insert (unat ?a, unat (40 :: u64)) {}))"
    by (intro gpu_reach.granted [OF _ m(2) v(2)] gpu_reach.granted [OF gpu_reach.start m(1) v(1)])
  from allocations_never_overlap [OF this demo_heap, of "unat ?a" "unat (40 :: u64)" "unat ?b" "unat (900 :: u64)"]
  have "unat ?a \<noteq> unat ?b \<and> {unat ?a ..< unat ?a + unat (40 :: u64)} \<inter> {unat ?b ..< unat ?b + unat (900 :: u64)} = {}"
    by auto
  then show ?thesis using m(1,2) by (intro exI [of _ ?a] exI [of _ ?b] exI [of _ ctx1] exI [of _ ctx2]) simp
qed

text \<open>
  C14.  \<open>gpuInit\<close> succeeds on every mapping of at least six pages and at most 4 GiB when the host
  has memory: it returns 0 with the descriptor and the mapping in the context, an empty heap with
  slots in stock in every cache, and nothing else opened.
\<close>

theorem gpuInit_starts:
  assumes "0 \<le> open_result h" "mmap_result h = B" "B \<noteq> MAP_FAILED" "base_ok B S N"
    "S = unat vsize" "N = S div 4096" "6 \<le> N" "vram_at (mmap_mem h vsize) B S"
    "\<forall>b\<in>set (mallocs (sh ctx)). b"
  shows "\<exists>ctx'. gpuInit ctx h vsize = Some (0, ctx', h\<lparr>open_fds := open_result h # open_fds h\<rparr>) \<and>
    heap B S N ctx' {} \<and> stocked B S N ctx' {} 2 \<and> fd ctx' = open_result h \<and> vram_mmap ctx' = B \<and> vram_size ctx' = vsize"
proof -
  obtain ctx' where "gpuInit ctx h vsize = Some (0, ctx', h\<lparr>open_fds := open_result h # open_fds h\<rparr>)"
    "stocked B S N ctx' {} 2" "fd ctx' = open_result h" "vram_size ctx' = vsize" "vram_mmap ctx' = B"
    by (rule gpuInit_heap [OF assms]) (rule that)
  then show ?thesis using stocked_heap by blast
qed

theorem gpuInit_starts_witness:
  "\<exists>ctx'. gpuInit blank_ctx demo_host 65536 = Some (0, ctx', demo_host\<lparr>open_fds := [3]\<rparr>) \<and>
    heap demo_base 65536 16 ctx' {}"
proof -
  have h: "0 \<le> open_result demo_host" "mmap_result demo_host = demo_base" "demo_base \<noteq> MAP_FAILED"
    by (simp_all add: demo_host_def demo_base_def MAP_FAILED_def)
  have s: "(65536 :: nat) = unat (65536 :: u64)" "(16 :: nat) = 65536 div 4096" "6 \<le> (16 :: nat)" by simp_all
  have m: "vram_at (mmap_mem demo_host 65536) demo_base 65536" "\<forall>b\<in>set (mallocs (sh blank_ctx)). b"
    using demo_vram by (simp_all add: demo_host_def blank_ctx_def)
  have "open_result demo_host # open_fds demo_host = [3]" by (simp add: demo_host_def)
  then show ?thesis using gpuInit_starts [OF h demo_base_ok s m] by metis
qed

text \<open>
  C15.  When \<open>gpuInit\<close> returns anything but 0, it returns -1, every descriptor it opened is closed
  again, and if the memory had been mapped no byte of it is mapped any more.
\<close>

theorem gpuInit_undoes:
  assumes "gpuInit ctx h vsize = Some (r, ctx', h')" "r \<noteq> 0"
  shows "r = -1 \<and> h' = h \<and> (0 \<le> open_result h \<longrightarrow> mmap_result h \<noteq> MAP_FAILED \<longrightarrow>
    (\<forall>x. loc (mmap_result h) x < unat vsize \<longrightarrow> vmem (sh ctx') x = None))"
  using gpuInit_failed [OF assms] by blast

theorem gpuInit_undoes_witness:
  "gpuInit blank_ctx (demo_host\<lparr>mmap_result := MAP_FAILED\<rparr>) 65536 =
     Some (-1, blank_ctx\<lparr>vram_size := 65536, fd := 3, vram_mmap := MAP_FAILED\<rparr>, demo_host\<lparr>mmap_result := MAP_FAILED\<rparr>)"
proof -
  have r: "gpuInit blank_ctx (demo_host\<lparr>mmap_result := MAP_FAILED\<rparr>) 65536 =
     Some (-1, blank_ctx\<lparr>vram_size := 65536, fd := 3, vram_mmap := MAP_FAILED\<rparr>, demo_host\<lparr>mmap_result := MAP_FAILED\<rparr>)"
    by (simp add: gpuInit_def host_open_def host_close_def demo_host_def Let_def)
  show ?thesis using r gpuInit_undoes [OF r] by simp
qed

text \<open>
  C16.  \<open>gpuDestroy\<close> ends what \<open>gpuInit\<close> started: after it the descriptor is closed and no byte of
  the mapping is left.
\<close>

theorem gpuDestroy_ends:
  assumes "gpuInit ctx h vsize = Some (0, ctx', h')" "mmap_result h \<noteq> NULL"
  shows "open_fds (snd (gpuDestroy ctx' h')) = open_fds h \<and>
    (\<forall>x. loc (mmap_result h) x < unat vsize \<longrightarrow> vmem (sh (fst (gpuDestroy ctx' h'))) x = None)"
proof -
  have c: "0 \<le> open_result h" "fd ctx' = open_result h" "vram_mmap ctx' = mmap_result h"
    "mmap_result h \<noteq> MAP_FAILED" "vram_size ctx' = vsize" "h' = h\<lparr>open_fds := open_result h # open_fds h\<rparr>"
    using gpuInit_ok_handle [OF assms(1)] by simp_all
  obtain ctx2 h2 where d: "gpuDestroy ctx' h' = (ctx2, h2)" by fastforce
  have n: "0 \<le> fd ctx'" "vram_mmap ctx' \<noteq> 0" "vram_mmap ctx' \<noteq> MAP_FAILED"
    using c assms(2) by (simp_all add: NULL_def)
  show ?thesis using gpuDestroy_closes [OF n d] c d by simp
qed

theorem gpuDestroy_ends_witness:
  "open_fds (snd (gpuDestroy demo_ctx (demo_host\<lparr>open_fds := [3]\<rparr>))) = []"
  using gpuDestroy_ends [OF demo_init(1)] by (simp add: demo_host_def demo_base_def NULL_def)

text \<open>
  C17.  The marker a size is routed with leads \<open>gpuFree\<close> back to the same cache, whose slots hold the
  size; no order of a block is mistaken for a marker; and exactly the sizes above 2048 bytes go to
  the buddy allocator.
\<close>

theorem routes_and_markers_agree:
  "(case route_slab sz of None \<Rightarrow> 2048 < unat sz
    | Some (p, mark) \<Rightarrow> unat sz \<le> 2048 \<and> unat sz \<le> osz_of p \<and> get_slab mark = Some p) \<and>
   (\<forall>k<21. get_slab (word_of_nat k) = None)"
proof -
  have "unat sz \<le> 2048 \<and> unat sz \<le> osz_of p \<and> get_slab mark = Some p" if "route_slab sz = Some (p, mark)" for p mark
    using that route_slab_Some [OF that] route_slab_None [of sz] by auto
  then show ?thesis using route_slab_None [of sz] get_slab_order by (auto split: option.splits)
qed

theorem routes_and_markers_agree_witness:
  "get_slab (word_of_nat 20) = None \<and> route_slab 100 = Some (slab_128, PAGE_ORDER_SLAB_128)"
proof -
  have "\<forall>k<21. get_slab (word_of_nat k) = None" using routes_and_markers_agree [of 100] by blast
  then have "get_slab (word_of_nat 20) = None" by (rule allE [of _ 20]) simp
  then show ?thesis by (simp add: route_slab_def)
qed

end
