(* ===== verification/Driver_Props.thy ===== *)
theory Driver_Props
  imports Demo
begin

text \<open>
  What the kernel module \<open>gpgpu_drv.c\<close> guarantees: the dispatch call under every interleaving of its
  callers and the interrupt, the resources of the probe and remove handlers, and the mapping of the
  BARs.
\<close>

section \<open>The driver\<close>

text \<open>
  C18.  As long as the dispatch calls of the processes do not overlap, the device is started with
  exactly the arguments of the accepted calls, in their order: every field, with the 64-bit addresses
  put together from their two registers.  The last call may still be on its way to the dispatch
  register.
\<close>

theorem serial_dispatch_faithful:
  assumes "serial_steps s es s'" "\<not> busy s" "launched (dev s) = []"
  shows "launched (dev s') = accepted es \<or>
    accepted es \<noteq> [] \<and> launched (dev s') = butlast (accepted es) \<and>
    (\<exists>t k. k \<le> 12 \<and> callers s' t = Some (Run (drop k (dispatch_ops (last (accepted es))))))"
proof -
  consider "launched (dev s') = accepted es"
    | t k a H where "accepted es = H @ [a]" "in_call s' t k a H"
    using serial_runs [OF assms] by (auto simp: serial_inv_def)
  then show ?thesis
  proof cases
    case 2
    show ?thesis
    proof (cases "12 < k")
      case True
      then show ?thesis using 2 by (simp add: in_call_def)
    next
      case False
      then have "k \<le> 12 \<and> callers s' t = Some (Run (drop k (dispatch_ops (last (accepted es)))))"
        using 2 by (simp add: in_call_def)
      moreover have "accepted es \<noteq> []" "launched (dev s') = butlast (accepted es)"
        using 2 False by (simp_all add: in_call_def)
      ultimately show ?thesis by blast
    qed
  qed blast
qed

theorem serial_dispatch_faithful_witness:
  "\<exists>s'. serial_steps idle [Call 0 GPGPU_IOC_DISPATCH (Some (demo_args 7))] s' \<and>
    (launched (dev s') = [demo_args 7] \<or> launched (dev s') = [])"
proof -
  have nb: "\<not> busy idle" "launched (dev idle) = []" by (simp_all add: busy_def idle_def)
  obtain s' where st: "step idle (Call 0 GPGPU_IOC_DISPATCH (Some (demo_args 7))) s'"
    using step.call [of idle 0] by (auto simp: idle_def)
  have "serial_steps idle ([] @ [Call 0 GPGPU_IOC_DISPATCH (Some (demo_args 7))]) s'"
    by (rule serial_steps.snoc [OF serial_steps.nil st]) (simp add: nb)
  from serial_dispatch_faithful [OF this nb] this show ?thesis by (auto simp: accepted_def)
qed



text \<open>
  C20.  Overlapping calls are not kept apart: there is a run of two callers in which the device is
  started with the address of one kernel and the arguments of the other, which neither asked for.
\<close>

theorem overlapping_dispatch_mixes:
  "\<exists>es s'. steps idle es s' \<and> accepted es = [demo_args 16, demo_args 32] \<and>
    (\<exists>a\<in>set (launched (dev s')). kernel_addr a = kernel_addr (demo_args 32) \<and>
       kernel_args a = kernel_args (demo_args 16))"
proof -
  let ?es = "[Call 0 GPGPU_IOC_DISPATCH (Some (demo_args 16)), Call 1 GPGPU_IOC_DISPATCH (Some (demo_args 32)),
      Op 0, Op 0, Op 0, Op 1, Op 1, Op 1] @ replicate 10 (Op 0)"
  have c: "(demo_args 16)\<lparr>kernel_addr := 32\<rparr> = (demo_args 16)\<lparr>kernel_addr := kernel_addr (demo_args 32)\<rparr>"
    by (simp add: demo_args_def)
  obtain s' where r: "run_events idle ?es = Some s'"
    and l: "launched (dev s') = [(demo_args 16)\<lparr>kernel_addr := 32\<rparr>]"
    by (rule overlap_run [OF c]) (rule that)
  have "steps idle ?es s'" using r by (simp only: steps_run)
  moreover have "accepted ?es = [demo_args 16, demo_args 32]" by (simp add: accepted_def)
  ultimately show ?thesis using l by (intro exI [of _ ?es] exI [of _ s']) (simp add: demo_args_def)
qed



text \<open>
  C22.  A signal turns an unfinished dispatch into a reported success: the result of
  \<open>wait_event_interruptible\<close> is dropped, so there is a run without any interrupt in which a call
  launches its kernel and returns 0.
\<close>

theorem signal_reported_as_success:
  "\<exists>es s'. steps idle es s' \<and> Irq \<notin> set es \<and> \<not> kernel_done (dev s') \<and>
    callers s' 0 = Some (Returned 0) \<and> launched (dev s') = [args]"
proof -
  let ?es = "[Call 0 GPGPU_IOC_DISPATCH (Some args)] @ replicate 13 (Op 0) @ [Signal 0, Return 0]"
  obtain s' where r: "run_events idle ?es = Some s'" "\<not> kernel_done (dev s')" "callers s' 0 = Some (Returned 0)"
    "launched (dev s') = [args]"
    by (rule signal_run [of args]) (rule that)
  have "steps idle ?es s'" using r by (simp only: steps_run)
  then show ?thesis using r by (intro exI [of _ ?es] exI [of _ s']) simp
qed

text \<open>
  C23.  The probe handler leaks nothing and releases nothing twice: whatever the kernel calls answer,
  it returns, and then either holds no resource at all, or has returned 0 with every resource held
  once, the driver data set and exactly the three interrupts enabled.
\<close>

theorem probe_all_or_nothing:
  "\<exists>r l. gpgpu_probe env \<lparr>held = [], drvdata = d, irq_enable = i\<rparr> = Some (r, l) \<and>
    (held l = [] \<or> r = 0 \<and> distinct (held l) \<and> set (held l) = UNIV \<and> drvdata l \<and> irq_enable l = 7)"
  by (rule probe_cases [of env d i]) (auto simp: set_probed, auto simp: probed_def)

text \<open>
  C24.  \<open>gpgpu_remove\<close> undoes a completed probe: every resource is released exactly once and none
  is left.
\<close>

theorem remove_undoes_probe:
  assumes "gpgpu_probe env \<lparr>held = [], drvdata = d, irq_enable = i\<rparr> = Some (r, l)" "held l \<noteq> []"
  shows "\<exists>l'. gpgpu_remove l = Some l' \<and> held l' = []"
proof (rule probe_cases [of env d i])
  fix l1
  assume "gpgpu_probe env \<lparr>held = [], drvdata = d, irq_enable = i\<rparr> = Some (0, l1)" and h: "l1 = probed"
  then have "l = probed" using assms(1) by simp
  then show ?thesis by (simp add: probed_def gpgpu_remove_def put_res_def)
next
  fix r1 l1
  assume "gpgpu_probe env \<lparr>held = [], drvdata = d, irq_enable = i\<rparr> = Some (r1, l1)" "held l1 = []"
  then show ?thesis using assms by simp
qed

theorem remove_undoes_probe_witness:
  "\<exists>l. gpgpu_probe demo_env \<lparr>held = [], drvdata = False, irq_enable = 0\<rparr> = Some (0, l) \<and>
    (\<exists>l'. gpgpu_remove l = Some l' \<and> held l' = [])"
proof -
  have p: "gpgpu_probe demo_env \<lparr>held = [], drvdata = False, irq_enable = 0\<rparr> = Some (0, probed)"
    by (simp add: demo_env_def probe_defs probed_def)
  show ?thesis using p remove_undoes_probe [OF p] by (simp add: probed_def)
qed

text \<open>
  C25.  A BAR that cannot be mapped is reported as a successful probe: \<open>ret\<close> still holds the 0 of
  \<open>pci_request_regions\<close> when the handler releases everything, and the later remove, which the
  kernel then calls, finds no driver data.
\<close>

theorem iomap_failure_reported_as_success:
  assumes "kmalloc env" "pci_enable_device env = 0" "pci_request_regions env = 0" "bar \<in> {0, 2, 4}"
    "\<not> pci_iomap env bar"
  shows "\<exists>l. gpgpu_probe env \<lparr>held = [], drvdata = False, irq_enable = 0\<rparr> = Some (0, l) \<and> held l = [] \<and>
    gpgpu_remove l = None"
  using assms by (auto simp: probe_defs gpgpu_remove_def)

theorem iomap_failure_reported_as_success_witness:
  "\<exists>l. gpgpu_probe (demo_env\<lparr>pci_iomap := (\<lambda>b. b \<noteq> 2)\<rparr>) \<lparr>held = [], drvdata = False, irq_enable = 0\<rparr> =
     Some (0, l) \<and> held l = [] \<and> gpgpu_remove l = None"
  using iomap_failure_reported_as_success [of "demo_env\<lparr>pci_iomap := (\<lambda>b. b \<noteq> 2)\<rparr>" 2]
  by (simp add: demo_env_def)


end
