(* ===== verification/Kv_Props.thy ===== *)
theory Kv_Props
  imports Demo
begin

text \<open>
  What the key/value cache of \<open>lib/src/kv_cache.c\<close> guarantees: its buffers, its rows, and the order
  of appends and commits.
\<close>

section \<open>The key/value cache\<close>

text \<open>
  C27.  \<open>kv_cache_create\<close> returns, for every shape whose size in bytes is a 64-bit number: either no
  cache, and then every region it had requested has been given back, or an empty cache with two new
  regions that hold all rows.  The regions that were in use keep their bytes.
\<close>

theorem kv_create_outcome:
  assumes "heap B S N ctx R" "unat nl * unat nh * unat ms * unat hdim * 4 < (2 :: nat) ^ 64"
  shows "\<exists>res ctx'. kv_cache_create ctx nl nh ms hdim = Some (res, ctx') \<and> (\<forall>r\<in>R. rdata ctx' r = rdata ctx r) \<and>
    (case res of None \<Rightarrow> heap B S N ctx' R
     | Some c \<Rightarrow> (\<exists>rK rV. heap B S N ctx' (insert rK (insert rV R)) \<and> rK \<notin> R \<and> rV \<notin> R \<and>
         kv_ok (insert rK (insert rV R)) c rK rV \<and> filled c = 0 \<and> pending c = 0 \<and>
         num_layers c = nl \<and> num_kv_heads c = nh \<and> max_seq c = ms \<and> head_dim c = hdim))"
proof (cases rule: kv_create_cases [OF assms])
  case (1 ctx')
  then show ?thesis by auto
next
  case (2 c rK rV ctx')
  have "\<exists>rK rV. heap B S N ctx' (insert rK (insert rV R)) \<and> rK \<notin> R \<and> rV \<notin> R \<and>
         kv_ok (insert rK (insert rV R)) c rK rV \<and> filled c = 0 \<and> pending c = 0 \<and>
         num_layers c = nl \<and> num_kv_heads c = nh \<and> max_seq c = ms \<and> head_dim c = hdim"
    by (intro exI [of _ rK] exI [of _ rV] conjI 2)
  then show ?thesis using 2(1,12) by (intro exI [of _ "Some c"] exI [of _ ctx']) simp
qed

theorem kv_create_outcome_witness:
  "\<exists>res ctx'. kv_cache_create demo_ctx 2 1 2 2 = Some (res, ctx')"
  using kv_create_outcome [OF demo_heap, of 2 1 2 2] by auto

text \<open>
  C28.  One token: when every layer is appended in order and the token is committed, the calls
  succeed, the cache has one more token, row \<open>(L, h, filled)\<close> of both buffers holds the values of
  layer \<open>L\<close> for head \<open>h\<close>, and every other row and every other region is as before.
\<close>

theorem token_append_commits:
  assumes "heap B S N ctx R" "kv_ok R c rK rV" "filled c < max_seq c" "pending c = 0" "0 < num_layers c"
    "length kvs = unat (num_layers c)" "list_all (token_len c) kvs"
  shows "\<exists>ctx'. append_token ctx c kvs = Some (0, c\<lparr>filled := filled c + 1\<rparr>, ctx') \<and>
    heap B S N ctx' R \<and> kv_ok R (c\<lparr>filled := filled c + 1\<rparr>) rK rV \<and> (\<forall>q\<in>R - {rK, rV}. rdata ctx' q = rdata ctx q) \<and>
    (\<forall>L h p. valid_row c L h p \<longrightarrow>
       kv_get ctx' c rK L h p = (if p = unat (filled c) then head_row c (fst (kvs ! L)) h else kv_get ctx c rK L h p) \<and>
       kv_get ctx' c rV L h p = (if p = unat (filled c) then head_row c (snd (kvs ! L)) h else kv_get ctx c rV L h p))"
  by (rule append_token_rows [OF assms]) blast

theorem token_append_commits_witness:
  "\<exists>a l b ctx c' ctx'. append_token ctx (demo_cache a b) [([1, 2], [3, 4]), ([5, 6], [7, 8])] = Some (0, c', ctx') \<and>
    filled c' = 1 \<and> kv_get ctx' (demo_cache a b) (a, l) 1 0 0 = float_bytes [5, 6]"
proof -
  let ?kvs = "[([1, 2], [3, 4]), ([5, 6], [7, 8])] :: (u32 list \<times> u32 list) list"
  obtain a l b k ctx where h: "heap demo_base 65536 16 ctx {(b, k), (a, l)}"
    and ok: "kv_ok {(b, k), (a, l)} (demo_cache a b) (a, l) (b, k)" by (rule demo_kv) (rule that)
  have s: "filled (demo_cache a b) < max_seq (demo_cache a b)" "pending (demo_cache a b) = 0"
    "0 < num_layers (demo_cache a b)" "length ?kvs = unat (num_layers (demo_cache a b))"
    "list_all (token_len (demo_cache a b)) ?kvs"
    by (simp_all add: demo_cache_def token_len_def)
  obtain ctx' where r: "append_token ctx (demo_cache a b) ?kvs = Some (0, (demo_cache a b)\<lparr>filled := filled (demo_cache a b) + 1\<rparr>, ctx')"
    and g: "\<And>L h p. valid_row (demo_cache a b) L h p \<Longrightarrow> kv_get ctx' (demo_cache a b) (a, l) L h p =
      (if p = unat (filled (demo_cache a b)) then head_row (demo_cache a b) (fst (?kvs ! L)) h
       else kv_get ctx (demo_cache a b) (a, l) L h p)"
    using token_append_commits [OF h ok s] by blast
  have "valid_row (demo_cache a b) 1 0 0" "filled (demo_cache a b) = 0"
    "head_row (demo_cache a b) [5, 6] 0 = float_bytes [5, 6]"
    by (simp_all add: valid_row_def demo_cache_def head_row_def)
  then have "kv_get ctx' (demo_cache a b) (a, l) 1 0 0 = float_bytes [5, 6]" using g [of 1 0 0] by simp
  then show ?thesis
    using r by (intro exI [of _ a] exI [of _ l] exI [of _ b] exI [of _ ctx] exI) (auto simp: demo_cache_def)
qed

text \<open>
  C29.  Committed rows are never written again: whatever the sequence of appends, in any order and
  with any layer number, and of commits, no call faults, the invariant holds after it, the number of
  committed tokens never falls, and the rows of the tokens that were committed before keep their
  values, as does all other memory in use.
\<close>

theorem committed_rows_immutable:
  assumes "heap B S N ctx R" "kv_ok R c rK rV" "kv_live c" "list_all (kv_op_len c) xs"
  shows "\<exists>c' ctx'. kv_run xs (c, ctx) = Some (c', ctx') \<and> heap B S N ctx' R \<and> kv_ok R c' rK rV \<and> kv_live c' \<and>
    filled c \<le> filled c' \<and> (\<forall>q\<in>R - {rK, rV}. rdata ctx' q = rdata ctx q) \<and>
    (\<forall>L h p. valid_row c L h p \<longrightarrow> p < unat (filled c) \<longrightarrow>
       kv_get ctx' c rK L h p = kv_get ctx c rK L h p \<and> kv_get ctx' c rV L h p = kv_get ctx c rV L h p)"
proof -
  obtain c' ctx' where r: "kv_run xs (c, ctx) = Some (c', ctx')" "heap B S N ctx' R" "kv_ok R c' rK rV" "kv_live c'"
    "filled c \<le> filled c'" "kept R rK rV c ctx ctx'"
    using kv_run_safe [OF assms] by (elim exE conjE)
  note k = r(6) [unfolded kept_def]
  show ?thesis
    by (rule exI [of _ c'], rule exI [of _ ctx'], intro conjI r(1-5) k [THEN conjunct1] k [THEN conjunct2])
qed

theorem committed_rows_immutable_witness:
  "\<exists>a b ctx c' ctx'. kv_run [Append 0 [1, 2] [3, 4], Append 7 [1, 2] [3, 4], Commit] (demo_cache a b, ctx) = Some (c', ctx')"
proof -
  obtain a l b k ctx where h: "heap demo_base 65536 16 ctx {(b, k), (a, l)}"
    and ok: "kv_ok {(b, k), (a, l)} (demo_cache a b) (a, l) (b, k)" by (rule demo_kv) (rule that)
  have "kv_live (demo_cache a b)"
    "list_all (kv_op_len (demo_cache a b)) [Append 0 [1, 2] [3, 4], Append 7 [1, 2] [3, 4], Commit]"
    by (simp_all add: demo_cache_def kv_live_def token_len_def)
  from committed_rows_immutable [OF h ok this] obtain c' ctx' where
    "kv_run [Append 0 [1, 2] [3, 4], Append 7 [1, 2] [3, 4], Commit] (demo_cache a b, ctx) = Some (c', ctx')"
    by (elim exE conjE)
  then show ?thesis by (intro exI)
qed

text \<open>
  C30.  \<open>kv_cache_destroy\<close> gives exactly the two buffers of the cache back.
\<close>

theorem kv_destroy_gives_back:
  assumes "heap B S N ctx R" "kv_ok R c rK rV"
  shows "\<exists>ctx'. kv_cache_destroy ctx (Some c) = Some ctx' \<and> heap B S N ctx' (R - {rK, rV}) \<and>
    (\<forall>r\<in>R - {rK, rV}. rdata ctx' r = rdata ctx r)"
  by (rule kv_destroy_frees [OF assms]) blast

theorem kv_destroy_gives_back_witness:
  "\<exists>a b ctx ctx'. kv_cache_destroy ctx (Some (demo_cache a b)) = Some ctx' \<and> heap demo_base 65536 16 ctx' {}"
proof -
  obtain a l b k ctx where h: "heap demo_base 65536 16 ctx {(b, k), (a, l)}"
    and ok: "kv_ok {(b, k), (a, l)} (demo_cache a b) (a, l) (b, k)" by (rule demo_kv) (rule that)
  have "{(b, k), (a, l)} - {(a, l), (b, k)} = {}" by blast
  with kv_destroy_gives_back [OF h ok] show ?thesis by auto
qed

end
