(* ===== verification/Weight_Props.thy ===== *)
theory Weight_Props
  imports Demo Weight_Items
begin

text \<open>
  What the weight loader of \<open>lib/src/weight_loader.c\<close> guarantees: the layout of a layer, the regions
  of a load that succeeds or fails, and the bytes at the addresses its queries return.
\<close>

section \<open>The weights\<close>

definition tensor_order :: "wl_tensor list" where
  "tensor_order = [WL_INPUT_NORM, WL_Q_PROJ_W, WL_Q_PROJ_B, WL_K_PROJ_W, WL_K_PROJ_B, WL_V_PROJ_W, WL_V_PROJ_B,
     WL_O_PROJ_W, WL_POST_NORM, WL_GATE_PROJ_W, WL_UP_PROJ_W, WL_DOWN_PROJ_W]"

fun running_sums :: "nat \<Rightarrow> nat list \<Rightarrow> nat list" where
  "running_sums s [] = [s]"
| "running_sums s (n # ns) = s # running_sums (s + n) ns"

text \<open>
  C31.  The constants of \<open>weight_layout.h\<close> are consistent: the tensors of a layer lie one after the
  other without gap or overlap, in the order of the table, from 0 to \<open>WL_LAYER_BYTES\<close>, and the table
  has every tensor once.  The assertions on the constants that the code asks the compiler to check hold.
\<close>

theorem layer_layout_tiles:
  "map (\<lambda>t. fst (TENSOR_TABLE t)) tensor_order @ [WL_LAYER_BYTES] =
     running_sums 0 (map (\<lambda>t. 4 * snd (TENSOR_TABLE t)) tensor_order) \<and>
   distinct tensor_order \<and> set tensor_order = UNIV \<and> layout_static_asserts \<and> region_static_assert"
proof (intro conjI)
  show "set tensor_order = UNIV"
  proof (rule set_eqI)
    fix t show "t \<in> set tensor_order \<longleftrightarrow> t \<in> UNIV" by (cases t) (simp_all add: tensor_order_def)
  qed
qed (simp_all add: tensor_order_def wl_defs layout_static_asserts_def region_static_assert_def
  LAYERS_PER_REGION_def)

text \<open>
  C32.  \<open>weight_loader_load\<close> returns, whatever the files are.  It yields no loader, and then the same
  regions are in use as before; or a loader, and then at the address its queries return for each
  tensor the device memory holds exactly the bytes that the file of the tensor has at its offset.
  Memory that was in use keeps its bytes.
\<close>

theorem weight_load_outcome:
  assumes "heap B S N ctx R"
  shows "\<exists>res ctx'. weight_loader_load fs ctx (Some dir) = Some (res, ctx') \<and> (\<forall>r\<in>R. rdata ctx' r = rdata ctx r) \<and>
    (case res of None \<Rightarrow> heap B S N ctx' R
     | Some wl \<Rightarrow> (\<exists>Q. Q \<inter> R = {} \<and> heap B S N ctx' (R \<union> Q)) \<and>
        (\<forall>x. item_ok x \<longrightarrow> (\<exists>addr bs. item_addr wl x = Some addr \<and> content fs (path dir (item_file x)) = Some bs \<and>
           item_skip x + item_len x \<le> length bs \<and>
           rdata ctx' (unat addr, item_len x) = take (item_len x) (drop (item_skip x) bs))))"
proof (cases rule: weight_load_cases [OF assms, of fs dir])
  case (1 ctx')
  then show ?thesis by (intro exI [of _ None] exI [of _ ctx']) simp
next
  case (2 rs ctx')
  let ?wl = "place_tensors (bases rs)"
  have "\<exists>addr bs. item_addr ?wl x = Some addr \<and> content fs (path dir (item_file x)) = Some bs \<and>
      item_skip x + item_len x \<le> length bs \<and>
      rdata ctx' (unat addr, item_len x) = take (item_len x) (drop (item_skip x) bs)" if x: "item_ok x" for x
    using item_address [OF 2(3) x] item_addr_value(1) [OF 2(2,3,6) x] item_bytes [OF 2(3,6) x 2(7)]
    by (metis item_span_def fst_conv)
  then show ?thesis
    using 2(1,2,5,8) by (intro exI [of _ "Some ?wl"] exI [of _ ctx'] conjI) auto
qed

theorem weight_load_outcome_witness:
  "\<exists>ctx'. weight_loader_load empty_fs demo_ctx (Some ''w'') = Some (None, ctx') \<and> heap demo_base 65536 16 ctx' {}"
proof -
  have "weight_loader_load empty_fs demo_ctx (Some ''w'') = Some (None, demo_ctx)"
    by (simp add: weight_loader_load_def weight_files_def check_file_size_def empty_fs_def)
  then show ?thesis using weight_load_outcome [OF demo_heap, of empty_fs "''w''"] by auto
qed

text \<open>
  C33.  The addresses of two different tensors of a loaded model lie in disjoint ranges, which
  avoid all memory that was in use before, and every one of them ends at or below 4 GiB, so that the
  32-bit argument words of the kernels hold it.
\<close>

theorem weight_tensors_apart:
  assumes "heap B S N ctx R"
  shows "\<exists>res ctx'. weight_loader_load fs ctx (Some dir) = Some (res, ctx') \<and>
    (case res of None \<Rightarrow> True
     | Some wl \<Rightarrow> (\<forall>x. item_ok x \<longrightarrow> (\<exists>a. item_addr wl x = Some a \<and> unat a + item_len x \<le> 2 ^ 32 \<and>
         (\<forall>r\<in>R. rbytes r \<inter> rbytes (unat a, item_len x) = {}) \<and>
         (\<forall>y. item_ok y \<longrightarrow> x \<noteq> y \<longrightarrow> (\<exists>b. item_addr wl y = Some b \<and>
            rbytes (unat a, item_len x) \<inter> rbytes (unat b, item_len y) = {})))))"
proof (cases rule: weight_load_cases [OF assms, of fs dir])
  case (1 ctx')
  then show ?thesis by (intro exI [of _ None] exI [of _ ctx']) simp
next
  case (2 rs ctx')
  let ?wl = "place_tensors (bases rs)"
  have span: "item_addr ?wl x = Some (word_of_nat (fst (item_span rs x)))"
    "(unat (word_of_nat (fst (item_span rs x)) :: u64), item_len x) = item_span rs x"
    "fst (item_span rs x) + item_len x \<le> 2 ^ 32" if "item_ok x" for x
    using item_address [OF 2(3) that] item_addr_value [OF 2(2,3,6) that]
    by (simp_all add: item_span_def del: of_nat_add)
  have old: "rbytes r \<inter> rbytes (item_span rs x) = {}" if "item_ok x" "r \<in> R" for x r
  proof -
    have m: "rs ! item_region x \<in> set rs" using item_region_bound [OF that(1)] 2(3) by simp
    then have "r \<noteq> rs ! item_region x" using that(2) 2(5) by auto
    then have "rbytes r \<inter> rbytes (rs ! item_region x) = {}" using heap_disjoint [OF 2(2), of r] m that(2) by simp
    then show ?thesis using item_in_region [OF 2(3,6) that(1)] by blast
  qed
  have "\<exists>a. item_addr ?wl x = Some a \<and> unat a + item_len x \<le> 2 ^ 32 \<and>
      (\<forall>r\<in>R. rbytes r \<inter> rbytes (unat a, item_len x) = {}) \<and>
      (\<forall>y. item_ok y \<longrightarrow> x \<noteq> y \<longrightarrow> (\<exists>b. item_addr ?wl y = Some b \<and>
        rbytes (unat a, item_len x) \<inter> rbytes (unat b, item_len y) = {}))" if x: "item_ok x" for x
    using span [OF x] old [OF x] span items_apart [OF 2(2,4,3,6) x]
    by (intro exI [of _ "word_of_nat (fst (item_span rs x))"]) (simp add: item_addr_value(1) [OF 2(2,3,6) x])
  then show ?thesis using 2(1) by (intro exI [of _ "Some ?wl"] exI [of _ ctx']) simp
qed

theorem weight_tensors_apart_witness:
  "\<exists>res ctx'. weight_loader_load empty_fs demo_ctx (Some ''w'') = Some (res, ctx')"
  using weight_tensors_apart [OF demo_heap, of empty_fs "''w''"] by auto

text \<open>
  C34.  \<open>weight_loader_destroy\<close> takes back what \<open>weight_loader_load\<close> requested: after the two calls
  the same regions are in use as before them, with the same bytes.
\<close>

theorem weight_load_destroy:
  assumes "heap B S N ctx R"
  shows "\<exists>res ctx' ctx''. weight_loader_load fs ctx (Some dir) = Some (res, ctx') \<and>
    weight_loader_destroy ctx' res = Some ctx'' \<and> heap B S N ctx'' R \<and> (\<forall>r\<in>R. rdata ctx'' r = rdata ctx r)"
proof (cases rule: weight_load_cases [OF assms, of fs dir])
  case (1 ctx')
  then show ?thesis by (intro exI [of _ None] exI [of _ ctx']) (simp add: weight_loader_destroy_def)
next
  case (2 rs ctx')
  obtain ctx'' where "weight_loader_destroy ctx' (Some (place_tensors (bases rs))) = Some ctx''" "heap B S N ctx'' R"
    "\<forall>r\<in>R. rdata ctx'' r = rdata ctx' r"
    using weight_destroy_frees [OF 2(2,4,5)] by blast
  then show ?thesis
    using 2(1,8) by (intro exI [of _ "Some (place_tensors (bases rs))"] exI [of _ ctx'] exI [of _ ctx'']) simp
qed

theorem weight_load_destroy_witness:
  "\<exists>res ctx' ctx''. weight_loader_load empty_fs demo_ctx (Some ''w'') = Some (res, ctx') \<and>
    weight_loader_destroy ctx' res = Some ctx'' \<and> heap demo_base 65536 16 ctx'' {}"
  using weight_load_destroy [OF demo_heap, of empty_fs "''w''"] by auto

end
