(* ===== verification/Transformer_Props.thy ===== *)
theory Transformer_Props
  imports Transformer_Init Demo_Step
begin

text \<open>
  What the start of the transformer of \<open>lib/src/transformer.c\<close> guarantees: the table of sines and
  cosines, the buffers of a workspace, and that stopping it gives everything back.
\<close>

section \<open>The table of sines and cosines\<close>



section \<open>Starting and stopping\<close>

definition demo_loader :: weight_loader where
  "demo_loader = place_tensors (replicate 8 0)"

definition demo_kv_cache :: kv_cache where
  "demo_kv_cache = (demo_cache 0 4096)\<lparr>max_seq := 128\<rparr>"

text \<open>
  C36.  \<open>transformer_init\<close> returns, whatever the configuration, the kernel files and the host memory are.
  It yields no workspace and has then given back every buffer it got; or a workspace in which each of the
  35 offsets is the address of a region of its own, new and of the size planned for it, each kernel region
  holds the bytes of its file and the table region holds the table of sines and cosines.  In both cases
  the regions that were in use keep their bytes.
\<close>

theorem transformer_init_outcome:
  assumes "heap B S N ctx R" "head_dim_ok cfg"
  shows "\<exists>res ctx' d'. transformer_init dm fp fs ctx d wl kv (Some cfg) dir = Some (res, ctx', d') \<and>
    (\<forall>r\<in>R. rdata ctx' r = rdata ctx r) \<and>
    (case res of None \<Rightarrow> heap B S N ctx' R
     | Some ws \<Rightarrow> ws_cfg ws = cfg \<and> wl = Some (ws_wl ws) \<and>
         (\<exists>reg. heap B S N ctx' (R \<union> range reg) \<and> inj reg \<and> range reg \<inter> R = {} \<and>
            (\<forall>f. ws_off ws f = word_of_nat (fst (reg f))) \<and>
            (\<forall>(f, n)\<in>set (scratch_plan cfg @ args_plan). unat n \<le> snd (reg f)) \<and>
            (\<forall>(f, name)\<in>set kernel_plan. kernel_loaded fs dir name (reg f) (rdata ctx' (reg f))) \<and>
            take (128 * unat (cfg_head_dim cfg) * 4) (rdata ctx' (reg sincos_off)) = float_bytes (rope_table fp cfg)))"
proof (cases rule: transformer_init_cases [OF assms, of dm fp fs d wl kv dir])
  case (1 ctx' d')
  then show ?thesis by (intro exI [of _ None] exI [of _ ctx'] exI [of _ d']) simp
next
  case (2 ws reg ctx' d')
  have "(\<exists>reg. heap B S N ctx' (R \<union> range reg) \<and> inj reg \<and> range reg \<inter> R = {} \<and>
            (\<forall>f. ws_off ws f = word_of_nat (fst (reg f))) \<and>
            (\<forall>(f, n)\<in>set (scratch_plan cfg @ args_plan). unat n \<le> snd (reg f)) \<and>
            (\<forall>(f, name)\<in>set kernel_plan. kernel_loaded fs dir name (reg f) (rdata ctx' (reg f))) \<and>
            take (128 * unat (cfg_head_dim cfg) * 4) (rdata ctx' (reg sincos_off)) = float_bytes (rope_table fp cfg))"
    using 2(2,3,4) by (intro exI [of _ reg]) (simp add: ws_ready_def holds_def)
  then show ?thesis using 2(1,4,5,6) by (intro exI [of _ "Some ws"] exI [of _ ctx'] exI [of _ d']) simp
qed

theorem transformer_init_outcome_witness:
  "\<exists>res ctx' d'. transformer_init False flat_fpu empty_fs demo_ctx no_dump (Some demo_loader) (Some demo_kv_cache)
       (Some transformer_default_config) ''k'' = Some (res, ctx', d')"
  using transformer_init_outcome [OF demo_heap default_head_dim, of False flat_fpu empty_fs no_dump "Some demo_loader"
      "Some demo_kv_cache" "''k''"]
  by blast

text \<open>
  C37.  \<open>transformer_destroy\<close> takes back what \<open>transformer_init\<close> got: after the two calls the same regions
  are in use as before them, with the same bytes.  It does nothing when there is no workspace.
\<close>

theorem transformer_init_destroy:
  assumes "heap B S N ctx R" "head_dim_ok cfg"
  shows "\<exists>res ctx' d' ctx''. transformer_init dm fp fs ctx d wl kv (Some cfg) dir = Some (res, ctx', d') \<and>
    transformer_destroy ctx' res = Some ctx'' \<and> heap B S N ctx'' R \<and> (\<forall>r\<in>R. rdata ctx'' r = rdata ctx r)"
proof (cases rule: transformer_init_cases [OF assms, of dm fp fs d wl kv dir])
  case (1 ctx' d')
  then show ?thesis
    by (intro exI [of _ None] exI [of _ ctx'] exI [of _ d']) (simp add: transformer_destroy_def)
next
  case (2 ws reg ctx' d')
  have h: "holds R UNIV reg ws" using 2(3) by (simp add: ws_ready_def)
  obtain ctx'' where "transformer_destroy ctx' (Some ws) = Some ctx''" "heap B S N ctx'' R"
    "\<forall>r\<in>R. rdata ctx'' r = rdata ctx' r"
    by (rule destroy_holds [OF 2(2) h]) (rule that)
  then show ?thesis
    using 2(1,6) by (intro exI [of _ "Some ws"] exI [of _ ctx'] exI [of _ d'] exI [of _ ctx'']) simp
qed

theorem transformer_init_destroy_witness:
  "\<exists>res ctx' d' ctx''. transformer_init True flat_fpu empty_fs demo_ctx no_dump (Some demo_loader) (Some demo_kv_cache)
       (Some transformer_default_config) ''k'' = Some (res, ctx', d') \<and>
     transformer_destroy ctx' res = Some ctx'' \<and> heap demo_base 65536 16 ctx'' {}"
  using transformer_init_destroy [OF demo_heap default_head_dim, of True flat_fpu empty_fs no_dump "Some demo_loader"
      "Some demo_kv_cache" "''k''"]
  by blast

end
