(* ===== verification/Kernel_List.thy ===== *)
theory Kernel_List
  imports Prelude
begin

text \<open>
  The circular doubly linked lists of \<open>linux/list.h\<close>, which carry the wait queue of the device.  A
  \<open>struct list_head\<close> is an address with a \<open>next\<close> and a \<open>prev\<close> field; the fields of an address that
  is not live cannot be read or written.  The build options of the header and its external checks are
  the argument \<open>list_cfg\<close>.
\<close>

record list_mem =
  nx :: "u64 \<Rightarrow> u64"
  pv :: "u64 \<Rightarrow> u64"
  live :: "u64 \<Rightarrow> bool"

definition get_next :: "u64 \<Rightarrow> list_mem \<Rightarrow> u64 option" where
  "get_next p m = (if live m p then Some (nx m p) else None)"

definition get_prev :: "u64 \<Rightarrow> list_mem \<Rightarrow> u64 option" where
  "get_prev p m = (if live m p then Some (pv m p) else None)"

definition put_next :: "u64 \<Rightarrow> u64 \<Rightarrow> list_mem \<Rightarrow> list_mem option" where
  "put_next p v m = (if live m p then Some (m\<lparr>nx := (nx m)(p := v)\<rparr>) else None)"

definition put_prev :: "u64 \<Rightarrow> u64 \<Rightarrow> list_mem \<Rightarrow> list_mem option" where
  "put_prev p v m = (if live m p then Some (m\<lparr>pv := (pv m)(p := v)\<rparr>) else None)"

lemmas link_defs = get_next_def get_prev_def put_next_def put_prev_def

record list_cfg =
  LIST_HARDENED :: bool
  DEBUG_LIST :: bool
  add_report :: "u64 \<Rightarrow> u64 \<Rightarrow> u64 \<Rightarrow> list_mem \<Rightarrow> bool"
  del_report :: "u64 \<Rightarrow> list_mem \<Rightarrow> bool"
  LIST_POISON1 :: u64
  LIST_POISON2 :: u64

subsection \<open>Adding and deleting\<close>

definition INIT_LIST_HEAD :: "u64 \<Rightarrow> list_mem \<Rightarrow> list_mem option" where
  "INIT_LIST_HEAD l m = do { m \<leftarrow> put_next l l m; put_prev l l m }"

definition raw_list_add_valid :: "list_cfg \<Rightarrow> u64 \<Rightarrow> u64 \<Rightarrow> u64 \<Rightarrow> list_mem \<Rightarrow> bool option" where
  "raw_list_add_valid C new prev next m =
     (if \<not> LIST_HARDENED C then Some True
      else if \<not> DEBUG_LIST C then do {
        p \<leftarrow> get_prev next m;
        if p \<noteq> prev then Some False
        else do {
          n \<leftarrow> get_next prev m;
          Some (n = next \<and> new \<noteq> prev \<and> new \<noteq> next) } }
      else Some (add_report C new prev next m))"

definition raw_list_del_entry_valid :: "list_cfg \<Rightarrow> u64 \<Rightarrow> list_mem \<Rightarrow> bool option" where
  "raw_list_del_entry_valid C entry m =
     (if \<not> LIST_HARDENED C then Some True
      else if \<not> DEBUG_LIST C then do {
        prev \<leftarrow> get_prev entry m;
        next \<leftarrow> get_next entry m;
        n \<leftarrow> get_next prev m;
        if n \<noteq> entry then Some False
        else do { p \<leftarrow> get_prev next m; Some (p = entry) } }
      else Some (del_report C entry m))"

definition raw_list_add :: "list_cfg \<Rightarrow> u64 \<Rightarrow> u64 \<Rightarrow> u64 \<Rightarrow> list_mem \<Rightarrow> list_mem option" where
  "raw_list_add C new prev next m = do {
     ok \<leftarrow> raw_list_add_valid C new prev next m;
     if \<not> ok then Some m
     else do {
       m \<leftarrow> put_prev next new m;
       m \<leftarrow> put_next new next m;
       m \<leftarrow> put_prev new prev m;
       put_next prev new m } }"

definition list_add :: "list_cfg \<Rightarrow> u64 \<Rightarrow> u64 \<Rightarrow> list_mem \<Rightarrow> list_mem option" where
  "list_add C new head m = do { n \<leftarrow> get_next head m; raw_list_add C new head n m }"

definition list_add_tail :: "list_cfg \<Rightarrow> u64 \<Rightarrow> u64 \<Rightarrow> list_mem \<Rightarrow> list_mem option" where
  "list_add_tail C new head m = do { p \<leftarrow> get_prev head m; raw_list_add C new p head m }"

definition raw_list_del :: "u64 \<Rightarrow> u64 \<Rightarrow> list_mem \<Rightarrow> list_mem option" where
  "raw_list_del prev next m = do { m \<leftarrow> put_prev next prev m; put_next prev next m }"

definition raw_list_del_clearprev :: "u64 \<Rightarrow> list_mem \<Rightarrow> list_mem option" where
  "raw_list_del_clearprev entry m = do {
     p \<leftarrow> get_prev entry m; n \<leftarrow> get_next entry m;
     m \<leftarrow> raw_list_del p n m;
     put_prev entry 0 m }"

definition raw_list_del_entry :: "list_cfg \<Rightarrow> u64 \<Rightarrow> list_mem \<Rightarrow> list_mem option" where
  "raw_list_del_entry C entry m = do {
     ok \<leftarrow> raw_list_del_entry_valid C entry m;
     if \<not> ok then Some m
     else do { p \<leftarrow> get_prev entry m; n \<leftarrow> get_next entry m; raw_list_del p n m } }"

definition list_del :: "list_cfg \<Rightarrow> u64 \<Rightarrow> list_mem \<Rightarrow> list_mem option" where
  "list_del C entry m = do {
     m \<leftarrow> raw_list_del_entry C entry m;
     m \<leftarrow> put_next entry (LIST_POISON1 C) m;
     put_prev entry (LIST_POISON2 C) m }"

definition list_replace :: "u64 \<Rightarrow> u64 \<Rightarrow> list_mem \<Rightarrow> list_mem option" where
  "list_replace old new m = do {
     n \<leftarrow> get_next old m; m \<leftarrow> put_next new n m;
     n \<leftarrow> get_next new m; m \<leftarrow> put_prev n new m;
     p \<leftarrow> get_prev old m; m \<leftarrow> put_prev new p m;
     p \<leftarrow> get_prev new m; put_next p new m }"

definition list_replace_init :: "u64 \<Rightarrow> u64 \<Rightarrow> list_mem \<Rightarrow> list_mem option" where
  "list_replace_init old new m = do { m \<leftarrow> list_replace old new m; INIT_LIST_HEAD old m }"

definition list_swap :: "list_cfg \<Rightarrow> u64 \<Rightarrow> u64 \<Rightarrow> list_mem \<Rightarrow> list_mem option" where
  "list_swap C entry1 entry2 m = do {
     pos \<leftarrow> get_prev entry2 m;
     m \<leftarrow> list_del C entry2 m;
     m \<leftarrow> list_replace entry1 entry2 m;
     list_add C entry1 (if pos = entry1 then entry2 else pos) m }"

definition list_del_init :: "list_cfg \<Rightarrow> u64 \<Rightarrow> list_mem \<Rightarrow> list_mem option" where
  "list_del_init C entry m = do { m \<leftarrow> raw_list_del_entry C entry m; INIT_LIST_HEAD entry m }"

definition list_move :: "list_cfg \<Rightarrow> u64 \<Rightarrow> u64 \<Rightarrow> list_mem \<Rightarrow> list_mem option" where
  "list_move C l head m = do { m \<leftarrow> raw_list_del_entry C l m; list_add C l head m }"

definition list_move_tail :: "list_cfg \<Rightarrow> u64 \<Rightarrow> u64 \<Rightarrow> list_mem \<Rightarrow> list_mem option" where
  "list_move_tail C l head m = do { m \<leftarrow> raw_list_del_entry C l m; list_add_tail C l head m }"

definition list_bulk_move_tail :: "u64 \<Rightarrow> u64 \<Rightarrow> u64 \<Rightarrow> list_mem \<Rightarrow> list_mem option" where
  "list_bulk_move_tail head first last' m = do {
     p \<leftarrow> get_prev first m; n \<leftarrow> get_next last' m; m \<leftarrow> put_next p n m;
     n \<leftarrow> get_next last' m; p \<leftarrow> get_prev first m; m \<leftarrow> put_prev n p m;
     p \<leftarrow> get_prev head m; m \<leftarrow> put_next p first m;
     p \<leftarrow> get_prev head m; m \<leftarrow> put_prev first p m;
     m \<leftarrow> put_next last' head m;
     put_prev head last' m }"

subsection \<open>Questions\<close>

definition list_is_first :: "u64 \<Rightarrow> u64 \<Rightarrow> list_mem \<Rightarrow> bool option" where
  "list_is_first l head m = do { p \<leftarrow> get_prev l m; Some (p = head) }"

definition list_is_last :: "u64 \<Rightarrow> u64 \<Rightarrow> list_mem \<Rightarrow> bool option" where
  "list_is_last l head m = do { n \<leftarrow> get_next l m; Some (n = head) }"

definition list_is_head :: "u64 \<Rightarrow> u64 \<Rightarrow> bool" where
  "list_is_head l head \<longleftrightarrow> l = head"

definition list_empty :: "u64 \<Rightarrow> list_mem \<Rightarrow> bool option" where
  "list_empty head m = do { n \<leftarrow> get_next head m; Some (n = head) }"

definition list_del_init_careful :: "list_cfg \<Rightarrow> u64 \<Rightarrow> list_mem \<Rightarrow> list_mem option" where
  "list_del_init_careful C entry m = do {
     m \<leftarrow> raw_list_del_entry C entry m; m \<leftarrow> put_prev entry entry m; put_next entry entry m }"

definition list_empty_careful :: "u64 \<Rightarrow> list_mem \<Rightarrow> bool option" where
  "list_empty_careful head m = do {
     n \<leftarrow> get_next head m;
     if \<not> list_is_head n head then Some False else do { p \<leftarrow> get_prev head m; Some (n = p) } }"

definition list_is_singular :: "u64 \<Rightarrow> list_mem \<Rightarrow> bool option" where
  "list_is_singular head m = do {
     e \<leftarrow> list_empty head m;
     if e then Some False else do { n \<leftarrow> get_next head m; p \<leftarrow> get_prev head m; Some (n = p) } }"

subsection \<open>Rotating, cutting, splicing\<close>

definition list_rotate_left :: "list_cfg \<Rightarrow> u64 \<Rightarrow> list_mem \<Rightarrow> list_mem option" where
  "list_rotate_left C head m = do {
     e \<leftarrow> list_empty head m;
     if e then Some m else do { first \<leftarrow> get_next head m; list_move_tail C first head m } }"

definition list_rotate_to_front :: "list_cfg \<Rightarrow> u64 \<Rightarrow> u64 \<Rightarrow> list_mem \<Rightarrow> list_mem option" where
  "list_rotate_to_front C l head m = list_move_tail C head l m"

definition raw_list_cut_position :: "u64 \<Rightarrow> u64 \<Rightarrow> u64 \<Rightarrow> list_mem \<Rightarrow> list_mem option" where
  "raw_list_cut_position l head entry m = do {
     new_first \<leftarrow> get_next entry m;
     n \<leftarrow> get_next head m; m \<leftarrow> put_next l n m;
     n \<leftarrow> get_next l m; m \<leftarrow> put_prev n l m;
     m \<leftarrow> put_prev l entry m;
     m \<leftarrow> put_next entry l m;
     m \<leftarrow> put_next head new_first m;
     put_prev new_first head m }"

definition list_cut_position :: "u64 \<Rightarrow> u64 \<Rightarrow> u64 \<Rightarrow> list_mem \<Rightarrow> list_mem option" where
  "list_cut_position l head entry m = do {
     e \<leftarrow> list_empty head m;
     if e then Some m
     else do {
       s \<leftarrow> list_is_singular head m;
       n \<leftarrow> get_next head m;
       if s \<and> \<not> list_is_head entry head \<and> entry \<noteq> n then Some m
       else if list_is_head entry head then INIT_LIST_HEAD l m
       else raw_list_cut_position l head entry m } }"

definition list_cut_before :: "u64 \<Rightarrow> u64 \<Rightarrow> u64 \<Rightarrow> list_mem \<Rightarrow> list_mem option" where
  "list_cut_before l head entry m = do {
     n \<leftarrow> get_next head m;
     if n = entry then INIT_LIST_HEAD l m
     else do {
       n \<leftarrow> get_next head m; m \<leftarrow> put_next l n m;
       n \<leftarrow> get_next l m; m \<leftarrow> put_prev n l m;
       p \<leftarrow> get_prev entry m; m \<leftarrow> put_prev l p m;
       p \<leftarrow> get_prev l m; m \<leftarrow> put_next p l m;
       m \<leftarrow> put_next head entry m;
       put_prev entry head m } }"

definition raw_list_splice :: "u64 \<Rightarrow> u64 \<Rightarrow> u64 \<Rightarrow> list_mem \<Rightarrow> list_mem option" where
  "raw_list_splice l prev next m = do {
     first \<leftarrow> get_next l m;
     last' \<leftarrow> get_prev l m;
     m \<leftarrow> put_prev first prev m;
     m \<leftarrow> put_next prev first m;
     m \<leftarrow> put_next last' next m;
     put_prev next last' m }"

definition list_splice :: "u64 \<Rightarrow> u64 \<Rightarrow> list_mem \<Rightarrow> list_mem option" where
  "list_splice l head m = do {
     e \<leftarrow> list_empty l m;
     if e then Some m else do { n \<leftarrow> get_next head m; raw_list_splice l head n m } }"

definition list_splice_tail :: "u64 \<Rightarrow> u64 \<Rightarrow> list_mem \<Rightarrow> list_mem option" where
  "list_splice_tail l head m = do {
     e \<leftarrow> list_empty l m;
     if e then Some m else do { p \<leftarrow> get_prev head m; raw_list_splice l p head m } }"

definition list_splice_init :: "u64 \<Rightarrow> u64 \<Rightarrow> list_mem \<Rightarrow> list_mem option" where
  "list_splice_init l head m = do {
     e \<leftarrow> list_empty l m;
     if e then Some m else do { n \<leftarrow> get_next head m; m \<leftarrow> raw_list_splice l head n m; INIT_LIST_HEAD l m } }"

definition list_splice_tail_init :: "u64 \<Rightarrow> u64 \<Rightarrow> list_mem \<Rightarrow> list_mem option" where
  "list_splice_tail_init l head m = do {
     e \<leftarrow> list_empty l m;
     if e then Some m else do { p \<leftarrow> get_prev head m; m \<leftarrow> raw_list_splice l p head m; INIT_LIST_HEAD l m } }"

text \<open>The loop of \<open>list_count_nodes\<close>, from the cursor \<open>pos\<close> on; a ring that never comes back to the head has no count.\<close>

partial_function (option) list_count_from :: "u64 \<Rightarrow> u64 \<Rightarrow> u64 \<Rightarrow> list_mem \<Rightarrow> u64 option" where
  "list_count_from head pos count m =
     (if list_is_head pos head then Some count
      else do { n \<leftarrow> get_next pos m; list_count_from head n (count + 1) m })"

definition list_count_nodes :: "u64 \<Rightarrow> list_mem \<Rightarrow> u64 option" where
  "list_count_nodes head m = do { n \<leftarrow> get_next head m; list_count_from head n 0 m }"

end
