(* ===== verification/Kernel_List_Ops.thy ===== *)
theory Kernel_List_Ops
  imports Kernel_List
begin

text \<open>
  The lists of \<open>linux/list.h\<close> against lists of addresses: \<open>ring m h xs\<close> says that the entries \<open>xs\<close> are
  linked, in this order, into the list with the head \<open>h\<close>.
\<close>

primrec seg :: "('a \<Rightarrow> 'a) \<Rightarrow> ('a \<Rightarrow> 'a) \<Rightarrow> 'a \<Rightarrow> 'a list \<Rightarrow> 'a \<Rightarrow> bool" where
  "seg n p a [] b \<longleftrightarrow> n a = b \<and> p b = a"
| "seg n p a (x # xs) b \<longleftrightarrow> n a = x \<and> p x = a \<and> seg n p x xs b"

definition ring :: "list_mem \<Rightarrow> u64 \<Rightarrow> u64 list \<Rightarrow> bool" where
  "ring m h xs \<longleftrightarrow> list_all (live m) (h # xs) \<and> distinct (h # xs) \<and> seg (nx m) (pv m) h xs h"

lemma seg_append [simp]: "seg n p a (xs @ y # ys) b \<longleftrightarrow> seg n p a xs y \<and> seg n p y ys b"
  by (induction xs arbitrary: a) auto

lemma seg_next_other [simp]: "q \<notin> set (a # xs) \<Longrightarrow> seg (n(q := v)) p a xs b = seg n p a xs b"
  by (induction xs arbitrary: a) auto

lemma seg_prev_other [simp]: "q \<notin> set xs \<Longrightarrow> q \<noteq> b \<Longrightarrow> seg n (p(q := v)) a xs b = seg n p a xs b"
  by (induction xs arbitrary: a) auto

lemma seg_ends:
  assumes "seg n p a xs b"
  shows "n a = hd (xs @ [b])" "p b = last (a # xs)"
  using assms by (induction xs arbitrary: a) auto

text \<open>Only the links of the addresses in \<open>A\<close> may differ.\<close>

definition only :: "u64 set \<Rightarrow> list_mem \<Rightarrow> list_mem \<Rightarrow> bool" where
  "only A m m' \<longleftrightarrow> live m' = live m \<and> (\<forall>q. q \<notin> A \<longrightarrow> nx m' q = nx m q \<and> pv m' q = pv m q)"

lemma seg_cong:
  "(\<And>q. q \<in> set (a # xs) \<Longrightarrow> n q = n' q) \<Longrightarrow> (\<And>q. q \<in> set (xs @ [b]) \<Longrightarrow> p q = p' q) \<Longrightarrow>
   seg n p a xs b = seg n' p' a xs b"
  by (induction xs arbitrary: a) auto

lemma ring_frame: "ring m h xs \<Longrightarrow> only A m m' \<Longrightarrow> set (h # xs) \<inter> A = {} \<Longrightarrow> ring m' h xs"
proof -
  assume r: "ring m h xs" and o: "only A m m'" and d: "set (h # xs) \<inter> A = {}"
  have "seg (nx m) (pv m) h xs h = seg (nx m') (pv m') h xs h"
    using o d by (intro seg_cong) (auto simp: only_def)
  then show ?thesis using r o by (simp add: ring_def only_def)
qed

text \<open>A report function that accepts the links of a ring, as \<open>__list_add_valid_or_report\<close> and its sibling do.\<close>

definition cfg_ok :: "list_cfg \<Rightarrow> bool" where
  "cfg_ok C \<longleftrightarrow> (\<forall>new prev next m. pv m next = prev \<longrightarrow> nx m prev = next \<longrightarrow> new \<noteq> prev \<longrightarrow> new \<noteq> next \<longrightarrow>
       add_report C new prev next m) \<and>
     (\<forall>entry m. nx m (pv m entry) = entry \<longrightarrow> pv m (nx m entry) = entry \<longrightarrow> del_report C entry m)"

lemma add_valid:
  assumes "cfg_ok C" "pv m next = prev" "nx m prev = next" "new \<noteq> prev" "new \<noteq> next" "live m prev" "live m next"
  shows "raw_list_add_valid C new prev next m = Some True"
proof -
  have "add_report C new prev next m" using assms(1-5) unfolding cfg_ok_def by blast
  then show ?thesis using assms(2-7) by (simp add: raw_list_add_valid_def link_defs)
qed

lemma del_valid:
  assumes "cfg_ok C" "nx m (pv m e) = e" "pv m (nx m e) = e" "live m e" "live m (pv m e)" "live m (nx m e)"
  shows "raw_list_del_entry_valid C e m = Some True"
  using assms by (auto simp: raw_list_del_entry_valid_def link_defs cfg_ok_def)

subsection \<open>Adding\<close>

text \<open>Between two neighbours of a ring, one of which may be the head.\<close>

lemma raw_list_add_ring:
  assumes C: "cfg_ok C" and r: "ring m h (xs @ ys)" and new: "live m new" "new \<notin> set (h # xs @ ys)"
  obtains m' where "raw_list_add C new (last (h # xs)) (hd (ys @ [h])) m = Some m'" "ring m' h (xs @ new # ys)"
    "only (set (new # h # xs @ ys)) m m'"
proof -
  let ?p = "last (h # xs)" and ?n = "hd (ys @ [h])"
  let ?m = "m\<lparr>pv := (pv m)(?n := new, new := ?p), nx := (nx m)(new := ?n, ?p := new)\<rparr>"
  have l: "nx m ?p = ?n" "pv m ?n = ?p" "live m ?p" "live m ?n" "new \<noteq> ?p" "new \<noteq> ?n"
    using r new by (cases xs rule: rev_cases; cases ys; auto simp: ring_def)+
  have "raw_list_add C new ?p ?n m = Some ?m"
    using l add_valid [OF C l(2,1,5,6,3,4)] new(1) by (simp add: raw_list_add_def link_defs fun_upd_twist)
  moreover have "ring ?m h (xs @ new # ys)"
    using r new by (cases xs rule: rev_cases; cases ys; auto simp: ring_def)
  moreover have "only (set (new # h # xs @ ys)) m ?m"
    by (cases xs rule: rev_cases; cases ys; auto simp: only_def)
  ultimately show thesis by (rule that)
qed

lemma links_commute: "m\<lparr>pv := a, nx := b\<rparr> = m\<lparr>nx := b, pv := a\<rparr>"
  by (cases m) simp

lemma only_trans: "only A m m' \<Longrightarrow> only A m' m'' \<Longrightarrow> only A m m''"
  by (simp add: only_def)

lemma only_mono: "only A m m' \<Longrightarrow> A \<subseteq> A' \<Longrightarrow> only A' m m'"
  by (auto simp: only_def)

lemma ring_links:
  assumes "ring m h (xs @ e # ys)"
  shows "pv m e = last (h # xs)" "nx m e = hd (ys @ [h])" "live m e" "live m (last (h # xs))" "live m (hd (ys @ [h]))"
    "nx m (last (h # xs)) = e" "pv m (hd (ys @ [h])) = e"
  using assms by (cases xs rule: rev_cases; cases ys; auto simp: ring_def)+

lemma ring_head:
  assumes "ring m h xs"
  shows "live m h" "nx m h = hd (xs @ [h])" "pv m h = last (h # xs)" "live m (hd (xs @ [h]))" "live m (last (h # xs))"
proof -
  have s: "seg (nx m) (pv m) h xs h" and l: "live m q" if "q \<in> set (h # xs)" for q
    using assms that by (auto simp: ring_def list_all_iff)
  show "nx m h = hd (xs @ [h])" "pv m h = last (h # xs)" using seg_ends [OF s, of h] by simp_all
  show "live m h" "live m (last (h # xs))" by (auto intro!: l)
  show "live m (hd (xs @ [h]))" by (rule l) (cases xs; simp)
qed

theorem list_add_ring:
  assumes "cfg_ok C" "ring m h xs" "live m new" "new \<notin> set (h # xs)"
  obtains m' where "list_add C new h m = Some m'" "ring m' h (new # xs)" "only (set (new # h # xs)) m m'"
proof -
  obtain m' where "raw_list_add C new (last (h # [])) (hd (xs @ [h])) m = Some m'" "ring m' h ([] @ new # xs)"
    "only (set (new # h # [] @ xs)) m m'"
    by (rule raw_list_add_ring [of C m h "[]" xs new]) (use assms that in auto)
  then show thesis
    using ring_head [OF assms(2)] by (intro that [of m']) (simp_all add: list_add_def link_defs)
qed

text \<open>With an entry in the place of the head, the new one follows this entry.\<close>

theorem list_add_behind:
  assumes "cfg_ok C" "ring m h (xs @ e # ys)" "live m new" "new \<notin> set (h # xs @ e # ys)"
  obtains m' where "list_add C new e m = Some m'" "ring m' h (xs @ e # new # ys)" "only (set (new # h # xs @ e # ys)) m m'"
proof -
  obtain m' where "raw_list_add C new (last (h # xs @ [e])) (hd (ys @ [h])) m = Some m'" "ring m' h ((xs @ [e]) @ new # ys)"
    "only (set (new # h # (xs @ [e]) @ ys)) m m'"
    by (rule raw_list_add_ring [of C m h "xs @ [e]" ys new]) (use assms that in auto)
  then show thesis
    using ring_links [OF assms(2)] by (intro that [of m']) (simp_all add: list_add_def link_defs)
qed

theorem list_add_tail_ring:
  assumes "cfg_ok C" "ring m h xs" "live m new" "new \<notin> set (h # xs)"
  obtains m' where "list_add_tail C new h m = Some m'" "ring m' h (xs @ [new])" "only (set (new # h # xs)) m m'"
proof -
  obtain m' where "raw_list_add C new (last (h # xs)) (hd ([] @ [h])) m = Some m'" "ring m' h (xs @ new # [])"
    "only (set (new # h # xs @ [])) m m'"
    by (rule raw_list_add_ring [of C m h xs "[]" new]) (use assms that in auto)
  then show thesis
    using ring_head [OF assms(2)] by (intro that [of m']) (simp_all add: list_add_tail_def link_defs)
qed

subsection \<open>Deleting\<close>

lemma raw_list_del_entry_ring:
  assumes C: "cfg_ok C" and r: "ring m h (xs @ e # ys)"
  obtains m' where "raw_list_del_entry C e m = Some m'" "ring m' h (xs @ ys)" "only (set (h # xs @ ys)) m m'"
proof -
  let ?p = "last (h # xs)" and ?n = "hd (ys @ [h])"
  let ?m = "m\<lparr>pv := (pv m)(?n := ?p), nx := (nx m)(?p := ?n)\<rparr>"
  note l = ring_links [OF r]
  have "raw_list_del_entry_valid C e m = Some True" by (rule del_valid [OF C]) (use l in simp_all)
  then have "raw_list_del_entry C e m = Some ?m"
    using l by (simp add: raw_list_del_entry_def raw_list_del_def link_defs)
  moreover have "ring ?m h (xs @ ys)"
    using r by (cases xs rule: rev_cases; cases ys; auto simp: ring_def)
  moreover have "only (set (h # xs @ ys)) m ?m"
    by (cases xs rule: rev_cases; cases ys; auto simp: only_def)
  ultimately show thesis by (rule that)
qed

lemma raw_list_del_clearprev_ring:
  assumes r: "ring m h (xs @ e # ys)"
  obtains m' where "raw_list_del_clearprev e m = Some m'" "ring m' h (xs @ ys)" "pv m' e = 0"
proof -
  let ?p = "last (h # xs)" and ?n = "hd (ys @ [h])"
  let ?m = "m\<lparr>pv := (pv m)(?n := ?p, e := 0), nx := (nx m)(?p := ?n)\<rparr>"
  have "raw_list_del_clearprev e m = Some ?m"
    using ring_links [OF r] by (simp add: raw_list_del_clearprev_def raw_list_del_def link_defs)
  moreover have "ring ?m h (xs @ ys)"
    using r by (cases xs rule: rev_cases; cases ys; auto simp: ring_def)
  ultimately show thesis by (rule that) simp
qed

text \<open>Afterwards the links of the entry are changed, which no longer concerns the list.\<close>

lemma ring_distinct: "ring m h (xs @ e # ys) \<Longrightarrow> e \<notin> set (h # xs @ ys)"
  by (auto simp: ring_def)

lemma init_ring: "live m e \<Longrightarrow> \<exists>m'. INIT_LIST_HEAD e m = Some m' \<and> ring m' e [] \<and> only {e} m m'"
  by (auto simp: INIT_LIST_HEAD_def link_defs ring_def only_def)

theorem list_del_ring:
  assumes C: "cfg_ok C" and r: "ring m h (xs @ e # ys)"
  obtains m' where "list_del C e m = Some m'" "ring m' h (xs @ ys)" "only (set (h # xs @ e # ys)) m m'"
    "nx m' e = LIST_POISON1 C" "pv m' e = LIST_POISON2 C"
proof -
  obtain m1 where 1: "raw_list_del_entry C e m = Some m1" "ring m1 h (xs @ ys)" "only (set (h # xs @ ys)) m m1"
    by (rule raw_list_del_entry_ring [OF C r]) (rule that)
  let ?m = "m1\<lparr>nx := (nx m1)(e := LIST_POISON1 C), pv := (pv m1)(e := LIST_POISON2 C)\<rparr>"
  have e: "e \<notin> set (h # xs @ ys)" "live m1 e"
    using ring_distinct [OF r] ring_links(3) [OF r] 1(3) by (simp_all add: only_def)
  have "list_del C e m = Some ?m" using 1(1) e(2) by (simp add: list_del_def link_defs)
  moreover have o: "only {e} m1 ?m" by (simp add: only_def)
  then have "ring ?m h (xs @ ys)" by (rule ring_frame [OF 1(2)]) (use e(1) in simp)
  moreover have "only (set (h # xs @ e # ys)) m ?m"
    by (rule only_trans [OF only_mono [OF 1(3)] only_mono [OF o]]) auto
  ultimately show thesis by (rule that) simp_all
qed

theorem list_del_init_ring:
  assumes C: "cfg_ok C" and r: "ring m h (xs @ e # ys)"
  obtains m' where "list_del_init C e m = Some m'" "list_del_init_careful C e m = Some m'" "ring m' h (xs @ ys)" "ring m' e []"
    "only (set (h # xs @ e # ys)) m m'"
proof -
  obtain m1 where 1: "raw_list_del_entry C e m = Some m1" "ring m1 h (xs @ ys)" "only (set (h # xs @ ys)) m m1"
    by (rule raw_list_del_entry_ring [OF C r]) (rule that)
  have e: "e \<notin> set (h # xs @ ys)" "live m1 e"
    using ring_distinct [OF r] ring_links(3) [OF r] 1(3) by (simp_all add: only_def)
  obtain m' where m': "INIT_LIST_HEAD e m1 = Some m'" "ring m' e []" "only {e} m1 m'"
    using init_ring [OF e(2)] by blast
  have "list_del_init C e m = Some m'" "list_del_init_careful C e m = Some m'"
    using 1(1) m'(1) e(2) by (simp_all add: list_del_init_def list_del_init_careful_def INIT_LIST_HEAD_def link_defs links_commute)
  moreover have "ring m' h (xs @ ys)" by (rule ring_frame [OF 1(2) m'(3)]) (use e(1) in simp)
  moreover have "only (set (h # xs @ e # ys)) m m'"
    by (rule only_trans [OF only_mono [OF 1(3)] only_mono [OF m'(3)]]) auto
  ultimately show thesis using m'(2) by (intro that)
qed

subsection \<open>Moving and replacing\<close>

lemma move_out:
  assumes C: "cfg_ok C" and r: "ring m h (xs @ e # ys)"
  obtains m' where "raw_list_del_entry C e m = Some m'" "ring m' h (xs @ ys)" "only (set (h # xs @ e # ys)) m m'"
    "live m' e" "e \<notin> set (h # xs @ ys)"
proof -
  obtain m1 where 1: "raw_list_del_entry C e m = Some m1" "ring m1 h (xs @ ys)" "only (set (h # xs @ ys)) m m1"
    by (rule raw_list_del_entry_ring [OF C r]) (rule that)
  have "live m1 e" using ring_links(3) [OF r] 1(3) by (simp add: only_def)
  then show thesis
    using 1 ring_distinct [OF r] by (intro that [of m1] only_mono [OF 1(3)]) auto
qed

theorem list_move_ring:
  assumes C: "cfg_ok C" and r: "ring m h (xs @ e # ys)"
  obtains m' where "list_move C e h m = Some m'" "ring m' h (e # xs @ ys)" "only (set (h # xs @ e # ys)) m m'"
proof -
  obtain m1 where 1: "raw_list_del_entry C e m = Some m1" "ring m1 h (xs @ ys)" "only (set (h # xs @ e # ys)) m m1"
    "live m1 e" "e \<notin> set (h # xs @ ys)" by (rule move_out [OF C r]) (rule that)
  obtain m' where "list_add C e h m1 = Some m'" "ring m' h (e # xs @ ys)" "only (set (e # h # xs @ ys)) m1 m'"
    by (rule list_add_ring [OF C 1(2,4,5)]) (rule that)
  moreover have "set (e # h # xs @ ys) = set (h # xs @ e # ys)" by auto
  ultimately show thesis
    using 1(1,3) by (intro that [of m']) (simp_all add: list_move_def only_trans)
qed

theorem list_move_tail_ring:
  assumes C: "cfg_ok C" and r: "ring m h (xs @ e # ys)"
  obtains m' where "list_move_tail C e h m = Some m'" "ring m' h (xs @ ys @ [e])" "only (set (h # xs @ e # ys)) m m'"
proof -
  obtain m1 where 1: "raw_list_del_entry C e m = Some m1" "ring m1 h (xs @ ys)" "only (set (h # xs @ e # ys)) m m1"
    "live m1 e" "e \<notin> set (h # xs @ ys)" by (rule move_out [OF C r]) (rule that)
  obtain m' where "list_add_tail C e h m1 = Some m'" "ring m' h ((xs @ ys) @ [e])" "only (set (e # h # xs @ ys)) m1 m'"
    by (rule list_add_tail_ring [OF C 1(2,4,5)]) (rule that)
  moreover have "set (e # h # xs @ ys) = set (h # xs @ e # ys)" by auto
  ultimately show thesis
    using 1(1,3) by (intro that [of m']) (simp_all add: list_move_tail_def only_trans)
qed

theorem list_rotate_left_ring:
  assumes C: "cfg_ok C" and r: "ring m h xs"
  obtains m' where "list_rotate_left C h m = Some m'" "ring m' h (rotate1 xs)" "only (set (h # xs)) m m'"
proof (cases xs)
  case Nil
  then show thesis
    using r by (intro that [of m]) (auto simp: list_rotate_left_def list_empty_def link_defs ring_def only_def)
next
  case (Cons x ys)
  have r': "ring m h ([] @ x # ys)" using r Cons by simp
  obtain m' where "list_move_tail C x h m = Some m'" "ring m' h ([] @ ys @ [x])" "only (set (h # [] @ x # ys)) m m'"
    by (rule list_move_tail_ring [OF C r']) (rule that)
  then show thesis
    using r Cons by (intro that [of m']) (auto simp: list_rotate_left_def list_empty_def link_defs ring_def)
qed

text \<open>A ring may be read from any of its members.\<close>

lemma ring_turn: "ring m h (xs @ e # ys) \<longleftrightarrow> ring m e (ys @ h # xs)"
  by (auto simp: ring_def)

theorem list_rotate_to_front_ring:
  assumes C: "cfg_ok C" and r: "ring m h (xs @ e # ys)"
  obtains m' where "list_rotate_to_front C e h m = Some m'" "ring m' h (e # ys @ xs)" "live m' = live m"
proof -
  have r': "ring m e (ys @ h # xs)" using r by (simp add: ring_turn [of m h])
  obtain m' where "list_move_tail C h e m = Some m'" "ring m' e ((ys @ xs) @ h # [])" "live m' = live m"
    by (rule list_move_tail_ring [OF C r']) (use that in \<open>simp add: only_def\<close>)
  then show thesis
    using ring_turn [of m' e "ys @ xs" h "[]"] by (intro that [of m']) (simp_all add: list_rotate_to_front_def)
qed

theorem list_replace_ring:
  assumes r: "ring m h (xs @ old # ys)" and new: "live m new" "new \<notin> set (h # xs @ old # ys)"
  obtains m' where "list_replace old new m = Some m'" "ring m' h (xs @ new # ys)" "only (set (new # h # xs @ ys)) m m'"
proof -
  let ?p = "last (h # xs)" and ?n = "hd (ys @ [h])"
  let ?m = "m\<lparr>nx := (nx m)(new := ?n, ?p := new), pv := (pv m)(?n := new, new := ?p)\<rparr>"
  have ne: "?n \<noteq> old" "?p \<noteq> old" "?n \<noteq> new" "?p \<noteq> new"
    using r new by (cases xs rule: rev_cases; cases ys; auto simp: ring_def)+
  have "list_replace old new m = Some ?m"
    using ring_links [OF r] new(1) ne by (simp add: list_replace_def link_defs links_commute)
  moreover have "ring ?m h (xs @ new # ys)"
    using r new by (cases xs rule: rev_cases; cases ys; auto simp: ring_def)
  moreover have "only (set (new # h # xs @ ys)) m ?m"
    by (cases xs rule: rev_cases; cases ys; auto simp: only_def)
  ultimately show thesis by (rule that)
qed

theorem list_replace_init_ring:
  assumes r: "ring m h (xs @ old # ys)" and new: "live m new" "new \<notin> set (h # xs @ old # ys)"
  obtains m' where "list_replace_init old new m = Some m'" "ring m' h (xs @ new # ys)" "ring m' old []"
proof -
  obtain m1 where 1: "list_replace old new m = Some m1" "ring m1 h (xs @ new # ys)" "only (set (new # h # xs @ ys)) m m1"
    by (rule list_replace_ring [OF r new]) (rule that)
  have l: "live m1 old" using 1(3) ring_links(3) [OF r] by (simp add: only_def)
  obtain m' where m': "INIT_LIST_HEAD old m1 = Some m'" "ring m' old []" "only {old} m1 m'" using init_ring [OF l] by blast
  have "ring m' h (xs @ new # ys)"
    by (rule ring_frame [OF 1(2) m'(3)]) (use ring_distinct [OF r] new(2) in auto)
  then show thesis using 1(1) m'(1,2) by (intro that [of m']) (simp_all add: list_replace_init_def)
qed

text \<open>Two entries change places; they may be neighbours.\<close>

theorem list_swap_ring:
  assumes C: "cfg_ok C" and r: "ring m h (xs @ a # ys @ b # zs)"
  obtains m' where "list_swap C a b m = Some m'" "ring m' h (xs @ b # ys @ a # zs)"
proof -
  have r0: "ring m h ((xs @ a # ys) @ b # zs)" using r by simp
  note d = ring_distinct [OF r0]
  obtain m1 where 1: "list_del C b m = Some m1" "ring m1 h ((xs @ a # ys) @ zs)" "only (set (h # (xs @ a # ys) @ b # zs)) m m1"
    by (rule list_del_ring [OF C r0]) (rule that)
  have r1: "ring m1 h (xs @ a # ys @ zs)" "live m1 b" "b \<notin> set (h # xs @ a # ys @ zs)"
    using 1(2,3) ring_links(3) [OF r0] d by (simp_all add: only_def)
  obtain m2 where 2: "list_replace a b m1 = Some m2" "ring m2 h (xs @ b # ys @ zs)" "only (set (b # h # xs @ ys @ zs)) m1 m2"
    by (rule list_replace_ring [OF r1]) (rule that)
  have a: "live m2 a" "a \<notin> set (h # xs @ b # ys @ zs)"
    using 2(3) ring_links(3) [OF r1(1)] ring_distinct [OF r1(1)] r1(3) by (auto simp: only_def)
  have pos: "pv m b = last (h # xs @ a # ys)" "live m b" using ring_links(1,3) [OF r0] by simp_all
  show thesis
  proof (cases ys rule: rev_cases)
    case Nil
    obtain m' where "list_add C a b m2 = Some m'" "ring m' h (xs @ b # a # zs)"
      by (rule list_add_behind [OF C, of m2 h xs b zs a]) (use 2(2) a Nil that in auto)
    then show thesis using 1(1) 2(1) pos Nil by (intro that [of m']) (simp_all add: list_swap_def link_defs)
  next
    case (snoc us u)
    have e: "xs @ b # ys @ zs = (xs @ b # us) @ u # zs" using snoc by simp
    have ne: "u \<noteq> a" using ring_distinct [OF r] snoc by auto
    obtain m' where "list_add C a u m2 = Some m'" "ring m' h ((xs @ b # us) @ u # a # zs)"
      by (rule list_add_behind [OF C, of m2 h "xs @ b # us" u zs a]) (use 2(2) a snoc that in auto)
    then show thesis using 1(1) 2(1) pos snoc ne by (intro that [of m']) (simp_all add: list_swap_def link_defs)
  qed
qed

lemma list_ends [case_names none one more]:
  obtains "xs = []" | z where "xs = [z]" | z vs w where "xs = z # vs @ [w]"
  by (cases xs; cases "tl xs" rule: rev_cases) auto

theorem list_bulk_move_tail_ring:
  assumes r: "ring m h (xs @ ms @ ys)" and ne: "ms \<noteq> []"
  obtains m' where "list_bulk_move_tail h (hd ms) (last ms) m = Some m'" "ring m' h (xs @ ys @ ms)"
proof -
  have "\<exists>m'. list_bulk_move_tail h (hd ms) (last ms) m = Some m' \<and> ring m' h (xs @ ys @ ms)"
    using r ne
    by (cases ms rule: list_ends; cases xs rule: rev_cases; cases ys rule: list_ends)
      (auto simp: list_bulk_move_tail_def link_defs ring_def)
  then show thesis using that by blast
qed

subsection \<open>Splicing and cutting\<close>

lemma raw_list_splice_ring:
  assumes r: "ring m h (xs @ ys)" and s: "ring m l zs" "set (l # zs) \<inter> set (h # xs @ ys) = {}" "zs \<noteq> []"
  obtains m' where "raw_list_splice l (last (h # xs)) (hd (ys @ [h])) m = Some m'" "ring m' h (xs @ zs @ ys)"
    "only (set (h # xs @ zs @ ys)) m m'"
proof -
  let ?p = "last (h # xs)" and ?n = "hd (ys @ [h])" and ?f = "hd zs" and ?l = "last zs"
  let ?m = "m\<lparr>pv := (pv m)(?f := ?p, ?n := ?l), nx := (nx m)(?p := ?f, ?l := ?n)\<rparr>"
  have e: "nx m l = ?f" "pv m l = ?l" "live m l" "live m ?f" "live m ?l" "live m ?p" "live m ?n"
    using ring_head [OF s(1)] s(3) r by (cases xs rule: rev_cases; cases ys; auto simp: ring_def)+
  have "raw_list_splice l ?p ?n m = Some ?m"
    using e by (simp add: raw_list_splice_def link_defs links_commute)
  moreover have "ring ?m h (xs @ zs @ ys)"
    using r s by (cases zs rule: list_ends; cases xs rule: rev_cases; cases ys) (auto simp: ring_def)
  moreover have "only (set (h # xs @ zs @ ys)) m ?m"
    using s(3) by (cases xs rule: rev_cases; cases ys; auto simp: only_def)
  ultimately show thesis by (rule that)
qed

lemma list_empty_ring: "ring m h xs \<Longrightarrow> list_empty h m = Some (xs = [])"
  by (cases xs) (auto simp: list_empty_def link_defs ring_def)

theorem list_splice_ring:
  assumes r: "ring m h xs" and s: "ring m l zs" "set (l # zs) \<inter> set (h # xs) = {}"
  obtains m' where "list_splice l h m = Some m'" "ring m' h (zs @ xs)" "only (set (h # zs @ xs)) m m'"
proof (cases "zs = []")
  case True
  then show thesis using r list_empty_ring [OF s(1)] by (intro that [of m]) (simp_all add: list_splice_def only_def)
next
  case False
  obtain m' where "raw_list_splice l (last (h # [])) (hd (xs @ [h])) m = Some m'" "ring m' h ([] @ zs @ xs)"
    "only (set (h # [] @ zs @ xs)) m m'"
    by (rule raw_list_splice_ring [of m h "[]" xs l zs]) (use r s False that in auto)
  then show thesis
    using False list_empty_ring [OF s(1)] ring_head [OF r]
    by (intro that [of m']) (simp_all add: list_splice_def link_defs)
qed

theorem list_splice_tail_ring:
  assumes r: "ring m h xs" and s: "ring m l zs" "set (l # zs) \<inter> set (h # xs) = {}"
  obtains m' where "list_splice_tail l h m = Some m'" "ring m' h (xs @ zs)" "only (set (h # xs @ zs)) m m'"
proof (cases "zs = []")
  case True
  then show thesis using r list_empty_ring [OF s(1)] by (intro that [of m]) (simp_all add: list_splice_tail_def only_def)
next
  case False
  obtain m' where "raw_list_splice l (last (h # xs)) (hd ([] @ [h])) m = Some m'" "ring m' h (xs @ zs @ [])"
    "only (set (h # xs @ zs @ [])) m m'"
    by (rule raw_list_splice_ring [of m h xs "[]" l zs]) (use r s False that in auto)
  then show thesis
    using False list_empty_ring [OF s(1)] ring_head [OF r]
    by (intro that [of m']) (simp_all add: list_splice_tail_def link_defs)
qed

text \<open>The variants with \<open>_init\<close> leave an empty list behind.\<close>

lemma splice_init:
  assumes r: "ring m' h ys" and s: "live m' l" "l \<notin> set (h # ys)"
  obtains m'' where "INIT_LIST_HEAD l m' = Some m''" "ring m'' h ys" "ring m'' l []"
proof -
  obtain m'' where 1: "INIT_LIST_HEAD l m' = Some m''" "ring m'' l []" "only {l} m' m''"
    using init_ring [OF s(1)] by blast
  have "ring m'' h ys" by (rule ring_frame [OF r 1(3)]) (use s(2) in simp)
  then show thesis using 1 by (intro that)
qed

theorem list_splice_init_ring:
  assumes r: "ring m h xs" and s: "ring m l zs" "set (l # zs) \<inter> set (h # xs) = {}"
  obtains m' where "list_splice_init l h m = Some m'" "ring m' h (zs @ xs)" "ring m' l []"
proof -
  obtain m1 where 1: "list_splice l h m = Some m1" "ring m1 h (zs @ xs)" "only (set (h # zs @ xs)) m m1"
    by (rule list_splice_ring [OF r s]) (rule that)
  have l: "live m1 l" "l \<notin> set (h # zs @ xs)" using 1(3) s by (auto simp: ring_def only_def)
  obtain m' where m': "INIT_LIST_HEAD l m1 = Some m'" "ring m' h (zs @ xs)" "ring m' l []"
    by (rule splice_init [OF 1(2) l]) (rule that)
  show thesis
  proof (cases "zs = []")
    case True
    then show thesis using r s(1) list_empty_ring [OF s(1)] by (intro that [of m]) (simp_all add: list_splice_init_def)
  next
    case False
    then show thesis
      using 1(1) m' list_empty_ring [OF s(1)] ring_head(1) [OF r]
      by (intro that [of m']) (simp_all add: list_splice_init_def list_splice_def link_defs)
  qed
qed

theorem list_splice_tail_init_ring:
  assumes r: "ring m h xs" and s: "ring m l zs" "set (l # zs) \<inter> set (h # xs) = {}"
  obtains m' where "list_splice_tail_init l h m = Some m'" "ring m' h (xs @ zs)" "ring m' l []"
proof -
  obtain m1 where 1: "list_splice_tail l h m = Some m1" "ring m1 h (xs @ zs)" "only (set (h # xs @ zs)) m m1"
    by (rule list_splice_tail_ring [OF r s]) (rule that)
  have l: "live m1 l" "l \<notin> set (h # xs @ zs)" using 1(3) s by (auto simp: ring_def only_def)
  obtain m' where m': "INIT_LIST_HEAD l m1 = Some m'" "ring m' h (xs @ zs)" "ring m' l []"
    by (rule splice_init [OF 1(2) l]) (rule that)
  show thesis
  proof (cases "zs = []")
    case True
    then show thesis using r s(1) list_empty_ring [OF s(1)] by (intro that [of m]) (simp_all add: list_splice_tail_init_def)
  next
    case False
    then show thesis
      using 1(1) m' list_empty_ring [OF s(1)] ring_head(1) [OF r]
      by (intro that [of m']) (simp_all add: list_splice_tail_init_def list_splice_tail_def link_defs)
  qed
qed

text \<open>\<open>l\<close> gets the entries up to \<open>e\<close>, the rest stays.\<close>

theorem list_cut_position_ring:
  assumes r: "ring m h (xs @ e # ys)" and l: "live m l" "l \<notin> set (h # xs @ e # ys)"
  obtains m' where "list_cut_position l h e m = Some m'" "ring m' l (xs @ [e])" "ring m' h ys"
proof -
  have "\<exists>m'. list_cut_position l h e m = Some m' \<and> ring m' l (xs @ [e]) \<and> ring m' h ys"
    using r l by (cases xs; cases ys rule: list_ends)
      (auto simp: list_cut_position_def raw_list_cut_position_def list_empty_def list_is_singular_def list_is_head_def link_defs ring_def)
  then show thesis using that by blast
qed

theorem list_cut_before_ring:
  assumes r: "ring m h (xs @ ys)" and l: "live m l" "l \<notin> set (h # xs @ ys)"
  obtains m' where "list_cut_before l h (hd (ys @ [h])) m = Some m'" "ring m' l xs" "ring m' h ys"
proof -
  have "\<exists>m'. list_cut_before l h (hd (ys @ [h])) m = Some m' \<and> ring m' l xs \<and> ring m' h ys"
    using r l by (cases xs rule: list_ends; cases ys rule: list_ends)
      (auto simp: list_cut_before_def INIT_LIST_HEAD_def link_defs ring_def)
  then show thesis using that by blast
qed

subsection \<open>Questions\<close>

theorem list_questions:
  assumes "ring m h xs"
  shows "list_empty h m = Some (xs = [])" "list_empty_careful h m = Some (xs = [])"
    "list_is_singular h m = Some (length xs = 1)"
    "e \<in> set xs \<Longrightarrow> list_is_first e h m = Some (e = hd xs)" "e \<in> set xs \<Longrightarrow> list_is_last e h m = Some (e = last xs)"
proof -
  show "list_empty h m = Some (xs = [])" by (rule list_empty_ring [OF assms])
  show "list_empty_careful h m = Some (xs = [])" "list_is_singular h m = Some (length xs = 1)"
    using assms by (cases xs rule: list_ends; auto simp: list_empty_careful_def list_is_singular_def list_empty_def
      list_is_head_def link_defs ring_def)+
  assume "e \<in> set xs"
  then obtain us vs where x: "xs = us @ e # vs" by (meson split_list)
  note l = ring_links(1-3) [OF assms [unfolded x]]
  have d: "distinct (h # us @ e # vs)" using assms unfolding x by (simp add: ring_def)
  have "last (h # us) = h \<longleftrightarrow> us = []" "e = hd xs \<longleftrightarrow> us = []" "hd (vs @ [h]) = h \<longleftrightarrow> vs = []" "e = last xs \<longleftrightarrow> vs = []"
    using d unfolding x by (cases us; cases vs; auto simp: last_in_set dest: last_in_set)+
  then show "list_is_first e h m = Some (e = hd xs)" "list_is_last e h m = Some (e = last xs)"
    using l by (simp_all add: list_is_first_def list_is_last_def link_defs)
qed

lemma count_from:
  "seg (nx m) (pv m) a xs h \<Longrightarrow> list_all (live m) xs \<Longrightarrow> h \<notin> set xs \<Longrightarrow>
   list_count_from h (hd (xs @ [h])) k m = Some (k + word_of_nat (length xs))"
proof (induction xs arbitrary: a k)
  case Nil
  then show ?case by (simp add: list_count_from.simps list_is_head_def)
next
  case (Cons x xs)
  have "nx m x = hd (xs @ [h])" using Cons.prems(1) seg_ends(1) by fastforce
  then show ?case
    using Cons.IH [of x "k + 1"] Cons.prems
    by (subst list_count_from.simps) (auto simp: list_is_head_def link_defs algebra_simps)
qed

theorem list_count_ring: "ring m h xs \<Longrightarrow> list_count_nodes h m = Some (word_of_nat (length xs))"
  using count_from [of m h xs h 0] ring_head [of m h xs]
  by (auto simp: list_count_nodes_def link_defs ring_def)

end
