(* ===== verification/Wait_Queue.thy ===== *)
theory Wait_Queue
  imports Kernel_List_Ops
begin

text \<open>
  The wait queues of \<open>linux/wait.h\<close>, on which the dispatch call of the module sleeps: the entries of a
  queue, their order, and the loop of \<open>wait_event_interruptible\<close>.  What the scheduler does, and the two
  functions of \<open>kernel/sched/wait.c\<close> that the loop calls, are arguments.
\<close>

definition WQ_FLAG_EXCLUSIVE :: u32 where "WQ_FLAG_EXCLUSIVE = 0x01"
definition WQ_FLAG_WOKEN :: u32 where "WQ_FLAG_WOKEN = 0x02"
definition WQ_FLAG_CUSTOM :: u32 where "WQ_FLAG_CUSTOM = 0x04"
definition WQ_FLAG_DONE :: u32 where "WQ_FLAG_DONE = 0x08"
definition WQ_FLAG_PRIORITY :: u32 where "WQ_FLAG_PRIORITY = 0x10"

text \<open>
  An entry is the address of its structure, whose list node lies 24 bytes in; a queue is the address of
  the list head inside it.  The nodes are in a memory of links, the other fields in maps.
\<close>

record wait_mem =
  links :: list_mem
  wq_flags :: "u64 \<Rightarrow> u32"
  wq_private :: "u64 \<Rightarrow> u64"
  wq_func :: "u64 \<Rightarrow> u64"

definition wq_node :: "u64 \<Rightarrow> u64" where
  "wq_node wq = wq + 24"

definition wq_of_node :: "u64 \<Rightarrow> u64" where
  "wq_of_node n = n - 24"

lemma wq_node_inverse [simp]: "wq_of_node (wq_node wq) = wq" "wq_node (wq_of_node n) = n"
  by (simp_all add: wq_node_def wq_of_node_def)

lemma inj_wq_node: "inj wq_node"
  by (rule injI) (simp add: wq_node_def)

definition init_waitqueue_entry :: "u64 \<Rightarrow> u64 \<Rightarrow> u64 \<Rightarrow> wait_mem \<Rightarrow> wait_mem" where
  "init_waitqueue_entry default_wake_function wq p m =
     m\<lparr>wq_flags := (wq_flags m)(wq := 0), wq_private := (wq_private m)(wq := p),
       wq_func := (wq_func m)(wq := default_wake_function)\<rparr>"

definition init_waitqueue_func_entry :: "u64 \<Rightarrow> u64 \<Rightarrow> wait_mem \<Rightarrow> wait_mem" where
  "init_waitqueue_func_entry wq func m =
     m\<lparr>wq_flags := (wq_flags m)(wq := 0), wq_private := (wq_private m)(wq := 0), wq_func := (wq_func m)(wq := func)\<rparr>"

definition waitqueue_active :: "u64 \<Rightarrow> wait_mem \<Rightarrow> bool option" where
  "waitqueue_active head m = do { e \<leftarrow> list_empty head (links m); Some (\<not> e) }"

definition wq_has_single_sleeper :: "u64 \<Rightarrow> wait_mem \<Rightarrow> bool option" where
  "wq_has_single_sleeper head m = list_is_singular head (links m)"

definition wq_has_sleeper :: "u64 \<Rightarrow> wait_mem \<Rightarrow> bool option" where
  "wq_has_sleeper head m = waitqueue_active head m"

text \<open>The loop over the entries with priority: the node behind which to add.\<close>

partial_function (option) behind_priority :: "u64 \<Rightarrow> u64 \<Rightarrow> u64 \<Rightarrow> wait_mem \<Rightarrow> u64 option" where
  "behind_priority head wq behind m =
     (if wq_node wq = head then Some behind
      else if wq_flags m wq AND WQ_FLAG_PRIORITY = 0 then Some behind
      else do {
        n \<leftarrow> get_next (wq_node wq) (links m);
        behind_priority head (wq_of_node n) (wq_node wq) m })"

definition put_links :: "wait_mem \<Rightarrow> list_mem option \<Rightarrow> wait_mem option" where
  "put_links m l = map_option (\<lambda>l. m\<lparr>links := l\<rparr>) l"

definition raw_add_wait_queue :: "list_cfg \<Rightarrow> u64 \<Rightarrow> u64 \<Rightarrow> wait_mem \<Rightarrow> wait_mem option" where
  "raw_add_wait_queue C head wq_entry m = do {
     first \<leftarrow> get_next head (links m);
     behind \<leftarrow> behind_priority head (wq_of_node first) head m;
     put_links m (list_add C (wq_node wq_entry) behind (links m)) }"

definition set_exclusive :: "u64 \<Rightarrow> wait_mem \<Rightarrow> wait_mem" where
  "set_exclusive wq m = m\<lparr>wq_flags := (wq_flags m)(wq := wq_flags m wq OR WQ_FLAG_EXCLUSIVE)\<rparr>"

definition raw_add_wait_queue_exclusive :: "list_cfg \<Rightarrow> u64 \<Rightarrow> u64 \<Rightarrow> wait_mem \<Rightarrow> wait_mem option" where
  "raw_add_wait_queue_exclusive C head wq_entry m = raw_add_wait_queue C head wq_entry (set_exclusive wq_entry m)"

definition raw_add_wait_queue_entry_tail :: "list_cfg \<Rightarrow> u64 \<Rightarrow> u64 \<Rightarrow> wait_mem \<Rightarrow> wait_mem option" where
  "raw_add_wait_queue_entry_tail C head wq_entry m = put_links m (list_add_tail C (wq_node wq_entry) head (links m))"

definition raw_add_wait_queue_entry_tail_exclusive :: "list_cfg \<Rightarrow> u64 \<Rightarrow> u64 \<Rightarrow> wait_mem \<Rightarrow> wait_mem option" where
  "raw_add_wait_queue_entry_tail_exclusive C head wq_entry m =
     raw_add_wait_queue_entry_tail C head wq_entry (set_exclusive wq_entry m)"

definition raw_remove_wait_queue :: "list_cfg \<Rightarrow> u64 \<Rightarrow> wait_mem \<Rightarrow> wait_mem option" where
  "raw_remove_wait_queue C wq_entry m = put_links m (list_del C (wq_node wq_entry) (links m))"

subsection \<open>Waiting\<close>

text \<open>
  The state of the system is a value of any type.  \<open>prepare\<close> is \<open>prepare_to_wait_event\<close>, whose result is
  not zero when a signal is pending and which then leaves the caller off the queue; \<open>finish\<close> is
  \<open>finish_wait\<close>, \<open>sleep\<close> is \<open>schedule\<close>.
\<close>

record 's waiting =
  prepare :: "'s \<Rightarrow> int \<times> 's"
  finish :: "'s \<Rightarrow> 's"
  sleep :: "'s \<Rightarrow> 's"

partial_function (option) raw_wait_event :: "'s waiting \<Rightarrow> ('s \<Rightarrow> bool) \<Rightarrow> 's \<Rightarrow> (int \<times> 's) option" where
  "raw_wait_event W cond s = (let (sig, s) = prepare W s in
     if cond s then Some (0, finish W s)
     else if sig \<noteq> 0 then Some (sig, s)
     else raw_wait_event W cond (sleep W s))"

definition wait_event_interruptible :: "'s waiting \<Rightarrow> ('s \<Rightarrow> bool) \<Rightarrow> 's \<Rightarrow> (int \<times> 's) option" where
  "wait_event_interruptible W cond s = (if \<not> cond s then raw_wait_event W cond s else Some (0, s))"

subsection \<open>The order of a queue\<close>

definition queue :: "wait_mem \<Rightarrow> u64 \<Rightarrow> u64 list \<Rightarrow> bool" where
  "queue m head ws \<longleftrightarrow> ring (links m) head (map wq_node ws)"

definition has_priority :: "wait_mem \<Rightarrow> u64 \<Rightarrow> bool" where
  "has_priority m wq \<longleftrightarrow> wq_flags m wq AND WQ_FLAG_PRIORITY \<noteq> 0"

lemma no_priority: "wq_flags m wq AND WQ_FLAG_PRIORITY = 0 \<longleftrightarrow> \<not> has_priority m wq"
  by (simp add: has_priority_def)

lemma behind_priority_prefix:
  assumes "seg (nx (links m)) (pv (links m)) a (map wq_node ws) head" "list_all (live (links m)) (map wq_node ws)"
    "head \<notin> wq_node ` set ws"
  shows "behind_priority head (wq_of_node (hd (map wq_node ws @ [head]))) a m =
    Some (last (a # map wq_node (takeWhile (has_priority m) ws)))"
  using assms
proof (induction ws arbitrary: a)
  case Nil
  then show ?case by (simp add: behind_priority.simps)
next
  case (Cons w ws)
  have n: "nx (links m) (wq_node w) = hd (map wq_node ws @ [head])"
    using Cons.prems(1) seg_ends(1) by fastforce
  show ?case
    using Cons.IH [of "wq_node w"] Cons.prems n
    by (subst behind_priority.simps) (auto simp: no_priority link_defs)
qed

theorem add_wait_queue_order:
  assumes C: "cfg_ok C" and q: "queue m head ws" and w: "live (links m) (wq_node w)" "wq_node w \<noteq> head" "w \<notin> set ws"
  obtains m' where "raw_add_wait_queue C head w m = Some m'"
    "queue m' head (takeWhile (has_priority m) ws @ w # dropWhile (has_priority m) ws)" "wq_flags m' = wq_flags m"
proof -
  let ?t = "takeWhile (has_priority m) ws" and ?d = "dropWhile (has_priority m) ws" and ?l = "links m"
  have r: "ring ?l head (map wq_node ?t @ map wq_node ?d)"
    using q by (simp add: queue_def flip: map_append)
  have w': "wq_node w \<notin> set (head # map wq_node ws)" using w(2,3) inj_wq_node by (auto dest: injD)
  have b: "behind_priority head (wq_of_node (hd (map wq_node ws @ [head]))) head m = Some (last (head # map wq_node ?t))"
    using q by (intro behind_priority_prefix) (auto simp: queue_def ring_def)
  have "\<exists>l'. list_add C (wq_node w) (last (head # map wq_node ?t)) ?l = Some l' \<and> ring l' head (map wq_node ?t @ wq_node w # map wq_node ?d)"
  proof (cases ?t rule: rev_cases)
    case Nil
    then have e: "?d = ws" by (metis append_Nil takeWhile_dropWhile_id)
    obtain l' where "list_add C (wq_node w) head ?l = Some l'" "ring l' head (wq_node w # map wq_node ws)"
      by (rule list_add_ring [OF C q [unfolded queue_def] w(1) w']) (rule that)
    then show ?thesis using Nil e by simp
  next
    case (snoc us u)
    have r': "ring ?l head (map wq_node us @ wq_node u # map wq_node ?d)" using r snoc by simp
    have "wq_node w \<notin> set (head # map wq_node us @ wq_node u # map wq_node ?d)"
    proof -
      have "set (map wq_node us @ wq_node u # map wq_node ?d) = set (map wq_node (?t @ ?d))" using snoc by simp
      then show ?thesis using w' by simp
    qed
    then obtain l' where "list_add C (wq_node w) (wq_node u) ?l = Some l'"
      "ring l' head (map wq_node us @ wq_node u # wq_node w # map wq_node ?d)"
      by (rule list_add_behind [OF C r' w(1)]) (rule that)
    then show ?thesis using snoc by simp
  qed
  then obtain l' where l': "list_add C (wq_node w) (last (head # map wq_node ?t)) ?l = Some l'"
    "ring l' head (map wq_node ?t @ wq_node w # map wq_node ?d)" by blast
  show thesis
    using ring_head(1,2) [OF q [unfolded queue_def]] b l'
    by (intro that [of "m\<lparr>links := l'\<rparr>"]) (simp_all add: raw_add_wait_queue_def link_defs put_links_def queue_def)
qed

theorem remove_wait_queue_order:
  assumes C: "cfg_ok C" and q: "queue m head (xs @ w # ys)"
  obtains m' where "raw_remove_wait_queue C w m = Some m'" "queue m' head (xs @ ys)"
proof -
  have r: "ring (links m) head (map wq_node xs @ wq_node w # map wq_node ys)" using q by (simp add: queue_def)
  obtain l' where "list_del C (wq_node w) (links m) = Some l'" "ring l' head (map wq_node xs @ map wq_node ys)"
    by (rule list_del_ring [OF C r]) (rule that)
  then show thesis
    by (intro that [of "m\<lparr>links := l'\<rparr>"]) (simp_all add: raw_remove_wait_queue_def put_links_def queue_def)
qed

theorem active_iff: "queue m head ws \<Longrightarrow> waitqueue_active head m = Some (ws \<noteq> [])"
  "queue m head ws \<Longrightarrow> wq_has_single_sleeper head m = Some (length ws = 1)"
  using list_questions [of "links m" head "map wq_node ws"]
  by (simp_all add: queue_def waitqueue_active_def wq_has_single_sleeper_def)

text \<open>Waiting ends with 0 only in a state in which the condition was seen to hold.\<close>

definition wait_ends :: "'s waiting \<Rightarrow> ('s \<Rightarrow> bool) \<Rightarrow> int \<times> 's \<Rightarrow> bool" where
  "wait_ends W cond = (\<lambda>(r, s'). (r = 0 \<and> (\<exists>t. cond t \<and> s' = finish W t)) \<or>
     (r \<noteq> 0 \<and> \<not> cond s' \<and> (\<exists>t. prepare W t = (r, s'))))"

lemma wait_result:
  assumes "raw_wait_event W cond s = Some x"
  shows "wait_ends W cond x"
proof (rule raw_wait_event.raw_induct [where P = "\<lambda>W cond s x. wait_ends W cond x", OF _ assms])
  fix f and W :: "'s waiting" and cond s x
  assume ih: "\<And>W cond s x. f W cond s = Some x \<Longrightarrow> wait_ends W cond x"
    and e: "(let (sig, s) = prepare W s in if cond s then Some (0, finish W s)
      else if sig \<noteq> 0 then Some (sig, s) else f W cond (sleep W s)) = Some x"
  obtain r t where "prepare W s = (r, t)" by fastforce
  then show "wait_ends W cond x" using ih e by (auto simp: wait_ends_def split: if_splits)
qed

text \<open>A waiter whose condition becomes true after \<open>n\<close> rounds of sleep gets to see it.\<close>

definition round :: "'s waiting \<Rightarrow> 's \<Rightarrow> 's" where
  "round W s = sleep W (snd (prepare W s))"

lemma wait_returns:
  assumes "\<And>s. fst (prepare W s) = 0" "cond (snd (prepare W ((round W ^^ n) s)))"
  shows "\<exists>s'. raw_wait_event W cond s = Some (0, s')"
  using assms(2)
proof (induction n arbitrary: s)
  case 0
  then show ?case by (subst raw_wait_event.simps) (simp add: case_prod_beta)
next
  case (Suc n)
  have "cond (snd (prepare W ((round W ^^ n) (round W s))))" using Suc.prems by (simp add: funpow_swap1)
  then have "\<exists>s'. raw_wait_event W cond (round W s) = Some (0, s')" by (rule Suc.IH)
  then show ?case using assms(1) by (subst raw_wait_event.simps) (auto simp: case_prod_beta round_def)
qed

end
