(* ===== verification/Kernel_Props.thy ===== *)
theory Kernel_Props
  imports Wait_Queue Driver
begin

text \<open>
  What the module relies on in the headers of the kernel: the lists behind every queue, the wait queue
  the dispatch call sleeps on, and the number of the dispatch command.
\<close>

section \<open>Kernel lists\<close>

text \<open>Calls on one list, and what each is meant to do to the sequence of its entries.\<close>

datatype list_call = Add u64 | Add_Tail u64 | Del u64 | Move u64 | Move_Tail u64 | Rotate_Left | Rotate_To u64
  | Replace u64 u64

fun run_call :: "list_cfg \<Rightarrow> u64 \<Rightarrow> list_call \<Rightarrow> list_mem \<Rightarrow> list_mem option" where
  "run_call C h (Add e) m = list_add C e h m"
| "run_call C h (Add_Tail e) m = list_add_tail C e h m"
| "run_call C h (Del e) m = list_del C e m"
| "run_call C h (Move e) m = list_move C e h m"
| "run_call C h (Move_Tail e) m = list_move_tail C e h m"
| "run_call C h Rotate_Left m = list_rotate_left C h m"
| "run_call C h (Rotate_To e) m = list_rotate_to_front C e h m"
| "run_call C h (Replace e n) m = list_replace e n m"

fun meant :: "list_call \<Rightarrow> u64 list \<Rightarrow> u64 list" where
  "meant (Add e) xs = e # xs"
| "meant (Add_Tail e) xs = xs @ [e]"
| "meant (Del e) xs = remove1 e xs"
| "meant (Move e) xs = e # remove1 e xs"
| "meant (Move_Tail e) xs = remove1 e xs @ [e]"
| "meant Rotate_Left xs = rotate1 xs"
| "meant (Rotate_To e) xs = dropWhile (\<lambda>x. x \<noteq> e) xs @ takeWhile (\<lambda>x. x \<noteq> e) xs"
| "meant (Replace e n) xs = map (\<lambda>x. if x = e then n else x) xs"

text \<open>An entry is added only while it is on no list, and the other calls name an entry that is on the list.\<close>

fun allowed :: "(u64 \<Rightarrow> bool) \<Rightarrow> u64 \<Rightarrow> u64 list \<Rightarrow> list_call \<Rightarrow> bool" where
  "allowed L h xs (Add e) \<longleftrightarrow> L e \<and> e \<notin> set (h # xs)"
| "allowed L h xs (Add_Tail e) \<longleftrightarrow> L e \<and> e \<notin> set (h # xs)"
| "allowed L h xs Rotate_Left \<longleftrightarrow> True"
| "allowed L h xs (Replace e n) \<longleftrightarrow> e \<in> set xs \<and> L n \<and> n \<notin> set (h # xs)"
| "allowed L h xs (Del e) \<longleftrightarrow> e \<in> set xs"
| "allowed L h xs (Move e) \<longleftrightarrow> e \<in> set xs"
| "allowed L h xs (Move_Tail e) \<longleftrightarrow> e \<in> set xs"
| "allowed L h xs (Rotate_To e) \<longleftrightarrow> e \<in> set xs"

fun all_allowed :: "(u64 \<Rightarrow> bool) \<Rightarrow> u64 \<Rightarrow> u64 list \<Rightarrow> list_call list \<Rightarrow> bool" where
  "all_allowed L h xs [] \<longleftrightarrow> True"
| "all_allowed L h xs (c # cs) \<longleftrightarrow> allowed L h xs c \<and> all_allowed L h (meant c xs) cs"

fun run_calls :: "list_cfg \<Rightarrow> u64 \<Rightarrow> list_call list \<Rightarrow> list_mem \<Rightarrow> list_mem option" where
  "run_calls C h [] m = Some m"
| "run_calls C h (c # cs) m = do { m \<leftarrow> run_call C h c m; run_calls C h cs m }"

text \<open>The entry that a call names splits the list.\<close>

lemma split_at:
  assumes "e \<in> set xs" "distinct xs"
  obtains ys zs where "xs = ys @ e # zs" "remove1 e xs = ys @ zs" "dropWhile (\<lambda>x. x \<noteq> e) xs = e # zs"
    "takeWhile (\<lambda>x. x \<noteq> e) xs = ys" "map (\<lambda>x. if x = e then n else x) xs = ys @ n # zs"
proof -
  obtain ys zs where xs: "xs = ys @ e # zs" using assms(1) by (auto dest: split_list)
  then have d: "e \<notin> set ys" "e \<notin> set zs" using assms(2) by auto
  have "map (\<lambda>x. if x = e then n else x) ws = ws" if "e \<notin> set ws" for ws
    using that by (induction ws) auto
  then show thesis
    using xs d by (intro that [of ys zs]) (simp_all add: remove1_append dropWhile_append takeWhile_append)
qed

lemma call_refines:
  assumes C: "cfg_ok C" and r: "ring m h xs" and a: "allowed (live m) h xs c"
  shows "\<exists>m'. run_call C h c m = Some m' \<and> ring m' h (meant c xs) \<and> live m' = live m"
proof -
  have d: "distinct xs" using r by (simp add: ring_def)
  have fin: ?thesis if u: "run_call C h c m = Some m'" "ring m' h (meant c xs)" "only A m m'" for m' A
    using u by (auto simp: only_def)
  show ?thesis
  proof (cases c)
    case (Add e)
    show ?thesis by (rule list_add_ring [OF C r, of e]) (use a Add in \<open>auto simp: only_def\<close>)
  next
    case (Add_Tail e)
    show ?thesis by (rule list_add_tail_ring [OF C r, of e]) (use a Add_Tail in \<open>auto simp: only_def\<close>)
  next
    case (Del e)
    then have e: "e \<in> set xs" using a by simp
    obtain ys zs where s: "xs = ys @ e # zs" "remove1 e xs = ys @ zs" by (rule split_at [OF e d]) (rule that)
    show ?thesis by (rule list_del_ring [OF C r [unfolded s(1)]]) (rule fin, use s(2) Del in simp_all)
  next
    case (Move e)
    then have e: "e \<in> set xs" using a by simp
    obtain ys zs where s: "xs = ys @ e # zs" "remove1 e xs = ys @ zs" by (rule split_at [OF e d]) (rule that)
    show ?thesis by (rule list_move_ring [OF C r [unfolded s(1)]]) (rule fin, use s(2) Move in simp_all)
  next
    case (Move_Tail e)
    then have e: "e \<in> set xs" using a by simp
    obtain ys zs where s: "xs = ys @ e # zs" "remove1 e xs = ys @ zs" by (rule split_at [OF e d]) (rule that)
    show ?thesis by (rule list_move_tail_ring [OF C r [unfolded s(1)]]) (rule fin, use s(2) Move_Tail in simp_all)
  next
    case Rotate_Left
    show ?thesis by (rule list_rotate_left_ring [OF C r]) (rule fin, use Rotate_Left in simp_all)
  next
    case (Rotate_To e)
    then have e: "e \<in> set xs" using a by simp
    obtain ys zs where s: "xs = ys @ e # zs" "dropWhile (\<lambda>x. x \<noteq> e) xs = e # zs" "takeWhile (\<lambda>x. x \<noteq> e) xs = ys"
      by (rule split_at [OF e d]) (rule that)
    show ?thesis by (rule list_rotate_to_front_ring [OF C r [unfolded s(1)]]) (use s(2,3) Rotate_To in auto)
  next
    case (Replace e n)
    then have e: "e \<in> set xs" "live m n" "n \<notin> set (h # xs)" using a by simp_all
    obtain ys zs where s: "xs = ys @ e # zs" "map (\<lambda>x. if x = e then n else x) xs = ys @ n # zs"
      by (rule split_at [OF e(1) d]) (rule that)
    show ?thesis
      by (rule list_replace_ring [OF r [unfolded s(1)] e(2) e(3) [unfolded s(1)]]) (rule fin, use s(2) Replace in simp_all)
  qed
qed

text \<open>A memory with an empty list at 16 and four nodes that are on no list.\<close>

definition demo_links :: list_mem where
  "demo_links = \<lparr>nx = (\<lambda>a. a), pv = (\<lambda>a. a), live = (\<lambda>a. a \<in> {16, 32, 64, 96, 128})\<rparr>"

definition demo_list_cfg :: list_cfg where
  "demo_list_cfg = \<lparr>LIST_HARDENED = True, DEBUG_LIST = True,
     add_report = (\<lambda>new prev next m. pv m next = prev \<and> nx m prev = next \<and> new \<noteq> prev \<and> new \<noteq> next),
     del_report = (\<lambda>e m. nx m (pv m e) = e \<and> pv m (nx m e) = e), LIST_POISON1 = 0x100, LIST_POISON2 = 0x122\<rparr>"

lemma demo_list: "cfg_ok demo_list_cfg" "ring demo_links 16 []"
  by (simp_all add: cfg_ok_def demo_list_cfg_def demo_links_def ring_def)

text \<open>
  C38.  The doubly linked lists of the kernel implement sequences.  Started on a well-formed list, any
  sequence of additions at either end, deletions, moves, rotations and replacements runs without touching
  memory that is no node, none of the consistency checks fires, and the list that results is well formed
  and holds exactly the entries, in exactly the order, that the calls are meant to give.
\<close>

theorem kernel_list_refines_sequence:
  assumes "cfg_ok C" "ring m h xs" "all_allowed (live m) h xs cs"
  shows "\<exists>m'. run_calls C h cs m = Some m' \<and> ring m' h (fold meant cs xs)"
  using assms(2,3)
proof (induction cs arbitrary: m xs)
  case (Cons c cs)
  obtain m1 where 1: "run_call C h c m = Some m1" "ring m1 h (meant c xs)" "live m1 = live m"
    using call_refines [OF assms(1) Cons.prems(1)] Cons.prems(2) by auto
  then show ?case using Cons.IH [OF 1(2)] Cons.prems(2) by simp
qed simp

theorem kernel_list_refines_sequence_witness:
  "\<exists>m'. run_calls demo_list_cfg 16 [Add 32, Add_Tail 64, Add 96, Rotate_Left, Replace 64 128, Move 128, Del 32] demo_links =
     Some m' \<and> ring m' 16 [128, 96]"
  using kernel_list_refines_sequence [OF demo_list,
      of "[Add 32, Add_Tail 64, Add 96, Rotate_Left, Replace 64 128, Move 128, Del 32]"]
  by (simp add: demo_links_def)

section \<open>The wait queue\<close>

definition demo_queue :: wait_mem where
  "demo_queue = \<lparr>links = demo_links, wq_flags = (\<lambda>_. 0), wq_private = (\<lambda>_. 0), wq_func = (\<lambda>_. 0)\<rparr>"

text \<open>
  C39.  A wait queue keeps the entries with priority in front: an entry that is added goes behind the
  leading entries with priority and before all others, the queue is then reported to be in use, and
  taking the entry out again gives back the queue as it was.
\<close>

theorem wait_queue_order:
  assumes "cfg_ok C" "queue m head ws" "live (links m) (wq_node w)" "wq_node w \<noteq> head" "w \<notin> set ws"
  shows "\<exists>m' m''. raw_add_wait_queue C head w m = Some m' \<and>
    queue m' head (takeWhile (has_priority m) ws @ w # dropWhile (has_priority m) ws) \<and> wq_flags m' = wq_flags m \<and>
    waitqueue_active head m' = Some True \<and> raw_remove_wait_queue C w m' = Some m'' \<and> queue m'' head ws"
proof -
  obtain m' where 1: "raw_add_wait_queue C head w m = Some m'"
    "queue m' head (takeWhile (has_priority m) ws @ w # dropWhile (has_priority m) ws)" "wq_flags m' = wq_flags m"
    by (rule add_wait_queue_order [OF assms]) (rule that)
  obtain m'' where "raw_remove_wait_queue C w m' = Some m''"
    "queue m'' head (takeWhile (has_priority m) ws @ dropWhile (has_priority m) ws)"
    by (rule remove_wait_queue_order [OF assms(1) 1(2)]) (rule that)
  then show ?thesis using 1 active_iff(1) [OF 1(2)] by simp
qed

theorem wait_queue_order_witness:
  "\<exists>m'. raw_add_wait_queue demo_list_cfg 16 8 demo_queue = Some m' \<and> queue m' 16 [8]"
proof -
  have "queue demo_queue 16 []" using demo_list(2) by (simp add: queue_def demo_queue_def)
  from wait_queue_order [OF demo_list(1) this, of 8] show ?thesis
    by (auto simp: demo_queue_def demo_links_def wq_node_def)
qed

section \<open>The number of the dispatch command\<close>

text \<open>
  C40.  The number of an ioctl command carries its four parts: whatever direction, type, number and size
  within their widths it is built from, the accessors give back.  The dispatch command of the module is a
  write of the 48 bytes of the arguments, number 0 of type \<open>'G'\<close>.
\<close>

theorem ioctl_command_round_trip:
  assumes "dir < 4" "type < 256" "nr < 256" "sz < 16384"
  shows "(IOC_DIR (IOC dir type nr sz), IOC_TYPE (IOC dir type nr sz), IOC_NR (IOC dir type nr sz),
      IOC_SIZE (IOC dir type nr sz)) = (dir, type, nr, sz) \<and>
    (IOC_DIR GPGPU_IOC_DISPATCH, IOC_TYPE GPGPU_IOC_DISPATCH, IOC_NR GPGPU_IOC_DISPATCH, IOC_SIZE GPGPU_IOC_DISPATCH) =
      (IOC_WRITE, 0x47, 0, 48)"
proof -
  have "GPGPU_IOC_DISPATCH = IOC IOC_WRITE (0x47) 0 48"
    by (simp add: GPGPU_IOC_DISPATCH_def GPGPU_IOC_MAGIC_def IOW_def)
  moreover have "IOC_WRITE < 4" by (simp add: IOC_WRITE_def)
  ultimately show ?thesis using ioc_fields [OF assms] ioc_fields [of IOC_WRITE "0x47" 0 48] by simp
qed

theorem ioctl_command_round_trip_witness:
  "IOC_SIZE (IOC 3 0x64 7 16383) = 16383 \<and> IOC_SIZE GPGPU_IOC_DISPATCH = 48"
  using ioctl_command_round_trip [of 3 "0x64" 7 16383] by simp

end
