(* ===== verification/Spec2Isabelle.thy ===== *)
theory Spec2Isabelle
  imports Infer_Props Step_Props Alloc_Props Driver_Props Kv_Props Weight_Props Transformer_Props Kernel_Props
begin

text \<open>
  A driver stack for a small GPGPU, and a transformer decoder that runs on it.

  \<^bold>\<open>The program.\<close>  A kernel module (\<open>gpgpu_drv.c\<close>) binds a PCI device, maps its memory into
  processes and starts compute kernels on it.  A user-space runtime (\<open>lib/libgpgpu.c\<close>) manages the
  device memory of one process with a buddy allocator (\<open>lib/src/buddy.c\<close>) and six slab caches
  (\<open>lib/src/slab_cache.c\<close>) that share its pages, copies bytes in and out, and asks the module to run a
  kernel.  On top of it are the weight loader (\<open>lib/src/weight_loader.c\<close>), the key/value cache
  (\<open>lib/src/kv_cache.c\<close>) and the transformer (\<open>lib/src/transformer.c\<close>), which launches eleven kernels of
  \<open>kernels/*.S\<close> per layer to compute the next token of Qwen2-0.5B.  The program \<open>lib/test/infer_tokens.c\<close> puts
  all of them together: it reads a prompt, starts the parts, and writes the tokens it generates.

  \<^bold>\<open>The model.\<close>  C functions are functions in the option monad: \<^term>\<open>None\<close> is a fault (an
  assertion, a pointer that is not mapped, an index out of range), results are the C return values with the
  new state.  Machine integers are words of their width.  Device memory is a partial map from addresses to
  bytes, so the links the allocators keep in free memory, and every aliasing of them, are in the model.
  The outcomes of \<open>malloc\<close>, \<open>open\<close>, \<open>mmap\<close>, of the file system and of the kernel services are inputs.

  \<^item> \<open>Prelude\<close>, \<open>Vram\<close>: words, lists, guards; the byte memory and its loads and stores.
  \<^item> \<open>Buddy\<close> is \<open>buddy.c\<close>.  \<open>Buddy_Abs\<close> is the specification, tilings of the pages by blocks;
    \<open>Buddy_Lists\<close> and \<open>Buddy_Ops\<close> show that \<open>buddy_init\<close>, \<open>buddy_alloc\<close> and \<open>buddy_free\<close> implement it on
    the linked lists in memory.  \<open>Buddy_Supply\<close> counts the requests that a state can still meet.
  \<^item> \<open>Slab\<close> is \<open>slab_cache.c\<close>; \<open>Slab_Lists\<close> and \<open>Slab_Ops\<close> have its invariant and what each
    operation does to the free slots and to the pages.
  \<^item> \<open>Libgpgpu\<close> is \<open>libgpgpu.c\<close>; \<open>Libgpgpu_Heap\<close> joins the invariants of the seven allocators to a heap
    with a set of regions in use, \<open>Libgpgpu_Ops\<close> and \<open>Libgpgpu_Init\<close> show what the calls do to it, and
    \<open>Gpu_Trace\<close> follows a process over any sequence of calls.  \<open>Vram_Api\<close> states what clients rely on as
    locales and interprets them on the runtime.
  \<^item> \<open>Kv_Cache\<close> and \<open>Kv_Ops\<close> are \<open>kv_cache.c\<close>: the rows of a buffer by layer, head and position, in
    any memory that can be copied to and from (locale \<open>kv_memory\<close>).
  \<^item> \<open>Weight_Loader\<close>, \<open>Weight_Ops\<close> and \<open>Weight_Items\<close> are \<open>weight_loader.c\<close> and \<open>weight_layout.h\<close>.
  \<^item> \<open>Transformer\<close> and \<open>Transformer_Step\<close> are \<open>transformer.c\<close>.  \<open>Transformer_Sincos\<close> is about the table
    of sines and cosines, \<open>Transformer_Init\<close> about start and end.
  \<^item> \<open>Arena\<close>, \<open>Device\<close> and \<open>Launch\<close> are device memory as the kernels see it and what a launch reads and
    writes.  \<open>Transformer_Spec\<close> is the decoder as a function on values, without memory;
    \<open>Transformer_Run\<close> defines the abstraction of a state, \<open>Transformer_Layer\<close>, \<open>Transformer_Attn\<close> and
    \<open>Transformer_Host\<close> the effect of each launch, copy and dump on it, and \<open>Transformer_Refine\<close> puts them
    together to a layer and a token.
  \<^item> \<open>Infer\<close> is \<open>lib/test/infer_tokens.c\<close>.  \<open>Infer_Spec\<close> is greedy generation on values, \<open>Infer_Run\<close> shows
    that the two loops compute it, \<open>Host_State\<close> what every call leaves of a context, \<open>Infer_Setup\<close> that the
    parts as they are started form the setting of a step, \<open>Infer_Main\<close> that every way through the program stops
    what it started.  \<open>Capacity\<close> tells when requests are met, through all layers of the runtime, and
    \<open>Infer_Live\<close> that four gigabytes are enough for the program to get to its end.
  \<^item> \<open>Driver\<close> is \<open>gpgpu_drv.c\<close>: calls of several processes and interrupts as interleaved steps, probe
    and remove with a ledger of the resources held.  \<open>Driver_Ops\<close> has the runs without overlapping calls.
  \<^item> \<open>Linux_Headers\<close>, \<open>Kernel_List\<close>, \<open>Kernel_List_Ops\<close> and \<open>Wait_Queue\<close> are the parts of the kernel
    headers under \<open>kernel-headers/\<close> that the module relies on.
  \<^item> \<open>Demo\<close> and \<open>Demo_Step\<close> have concrete states in which the hypotheses of the theorems hold.

  \<^bold>\<open>The properties.\<close>  \<open>Infer_Props\<close>: the program writes the tokens of the model, stops everything it started,
  and does not fail when its inputs are there.  \<open>Step_Props\<close>: a step computes the decoder.  \<open>Alloc_Props\<close>: requests are met with fresh memory of sufficient size, releases give
  it back and merge it, nothing overlaps over any sequence of calls, copies come back, starting and stopping
  are complete.  \<open>Driver_Props\<close>: without overlapping calls the device gets exactly the arguments of the
  calls and no completion is lost; what goes wrong with overlapping calls and signals; probe and remove
  hold and release every resource once.  \<open>Kv_Props\<close>: a token appends exactly its rows and committed rows
  never change.  \<open>Weight_Props\<close>: after loading, each query returns an address where the bytes of the
  tensor are.  \<open>Transformer_Props\<close>: the table, the buffers of a workspace, and that stopping gives all of them
  back.  \<open>Kernel_Props\<close>: lists, wait queues and ioctl numbers of
  the kernel.

  \<^bold>\<open>The device.\<close>  The kernels are assembly for a processor with instructions of its own, whose semantics is
  not in the repository.  So the values a kernel computes are a parameter (\<open>kernel_fun\<close>), and that the
  device runs the kernels is a hypothesis (\<open>device_runs\<close>): a launch with the code of a kernel at its address
  reads the operands its argument block names, for the shapes the kernel is written for, and writes its
  results and nothing else.  Layout, operands and shapes are those of the comments and loads of
  \<open>kernels/*.S\<close>.  The arithmetic of the host is a parameter as well (\<open>fpu\<close>).  The program needs two things of
  them: that the argmax kernel returns a token of the vocabulary (\<open>argmax_in_vocab\<close>), and, to get past the check of
  the table, that the functions of the C library are exact at the angle 0 (\<open>exact_at_zero\<close>).

  \<^bold>\<open>Bounds.\<close>  Loops of the C code are structural recursions over the pages, orders, slots, tensors, heads or
  layers that are left; no result depends on a bound on the number of rounds.  The recursion of
  \<open>buddy_free\<close> and the counting loop of the kernel lists, which need not end in every state, are partial
  functions, and the theorems show that they return.  The step is proved for the default configuration, the
  only one the kernels are written for.

  \<^bold>\<open>Not modelled.\<close>  The arithmetic inside the device kernels, see above.  Messages on the terminal.  The
  other programs under \<open>lib/test\<close> and \<open>test\<close> and the Python scripts under \<open>tools\<close> are tests and converters.  The
  kernel headers beyond the parts named above belong to subsystems the module does not use.
\<close>

end
